(* ===== verification/Prelude.thy ===== *)
theory Prelude
  imports Main "HOL-Library.Char_ord" "HOL-Library.List_Lexorder" "HOL-Library.Sublist"
    "HOL-Library.Word"
begin

text \<open>
  What every component shares: the 64-bit integer operations the code uses, the error values
  of the crate, the state-and-error monad in which the operations of a transaction are
  written, its weakest-precondition calculus, and the collections of rules that carry the
  proofs of the components.

  A Rust \<open>String\<close> is its UTF-8 byte string, so a \<open>char\<close> here is one byte, and the order of
  strings (\<open>List_Lexorder\<close> over \<open>Char_ord\<close>) is the bytewise order of \<open>str\<close> and \<open>[u8]\<close>.
\<close>

named_theorems wp_rules \<open>weakest-precondition rules of the transaction's operations\<close>
named_theorems codec \<open>decoding what was encoded\<close>
named_theorems view_simps \<open>what an operation of the transaction does to the view of the store\<close>

type_synonym bytes = string

section \<open>Signed 64-bit integers\<close>

text \<open>
  An \<open>i64\<close> is a 64-bit word read as two's complement by \<open>sint\<close>.  Its \<open>+\<close> wraps around, as
  \<open>+= 1\<close> does in a release build; comparisons are signed.
\<close>

type_synonym i64 = "64 word"

definition i64_min :: int where "i64_min = - (2 ^ 63)"

definition i64_max :: int where "i64_max = 2 ^ 63 - 1"

definition in_i64 :: "int \<Rightarrow> bool" where
  "in_i64 n \<longleftrightarrow> i64_min \<le> n \<and> n \<le> i64_max"

abbreviation le64 :: "i64 \<Rightarrow> i64 \<Rightarrow> bool" where
  "le64 a b \<equiv> sint a \<le> sint b"

abbreviation lt64 :: "i64 \<Rightarrow> i64 \<Rightarrow> bool" where
  "lt64 a b \<equiv> sint a < sint b"

text \<open>\<open>i64::saturating_add\<close>.\<close>

definition sat_add :: "i64 \<Rightarrow> i64 \<Rightarrow> i64" where
  "sat_add a b = word_of_int (max i64_min (min i64_max (sint a + sint b)))"

text \<open>\<open>i64::try_from(n).unwrap_or(i64::MAX)\<close> of a \<open>u64\<close>.\<close>

definition clamp_i64 :: "nat \<Rightarrow> i64" where
  "clamp_i64 n = word_of_int (min i64_max (int n))"

text \<open>\<open>Duration::from_millis(x.max(0) as u64)\<close>, in milliseconds.\<close>

definition millis :: "i64 \<Rightarrow> nat" where
  "millis x = nat (max (sint x) 0)"

lemma sint_in_i64 [simp]: "in_i64 (sint (x :: i64))"
  using sint_range_size [of x] by (auto simp: in_i64_def i64_min_def i64_max_def word_size)

lemma sint_of_int_i64: "in_i64 n \<Longrightarrow> sint (word_of_int n :: i64) = n"
  by (simp add: in_i64_def i64_min_def i64_max_def signed_of_int signed_take_bit_int_eq_self)

lemma of_sint_i64 [simp]: "word_of_int (sint (x :: i64)) = x"
  by simp

lemma sint_sat_add: "sint (sat_add a b) = max i64_min (min i64_max (sint a + sint b))"
  unfolding sat_add_def by (rule sint_of_int_i64) (auto simp: in_i64_def i64_min_def i64_max_def)

lemma sint_clamp: "sint (clamp_i64 n) = min i64_max (int n)"
  unfolding clamp_i64_def by (rule sint_of_int_i64) (auto simp: in_i64_def i64_min_def i64_max_def)

lemma clamp_nonneg [simp]: "0 \<le> sint (clamp_i64 n)"
  by (simp add: sint_clamp i64_max_def)

lemma sint_incr: "sint v < i64_max \<Longrightarrow> sint (v + 1 :: i64) = sint v + 1"
proof -
  assume "sint v < i64_max"
  then have "in_i64 (sint v + 1)"
    using sint_in_i64 [of v] by (simp add: in_i64_def)
  moreover have "v + 1 = word_of_int (sint v + 1)"
    by simp
  ultimately show ?thesis by (metis sint_of_int_i64)
qed

lemma incr_wraps: "sint v = i64_max \<Longrightarrow> sint (v + 1 :: i64) = i64_min"
proof -
  assume "sint v = i64_max"
  then have "v = word_of_int i64_max"
    by (metis of_sint_i64)
  then show ?thesis by (simp add: i64_max_def i64_min_def)
qed

lemma incr_neq [simp]: "v + 1 \<noteq> (v :: i64)"
  by simp

section \<open>Errors\<close>

text \<open>
  Errors of the queue (\<open>taquba::Error\<close>): the one variant the code distinguishes, and every
  other one.  The crate's own error type adds records that do not decode, and \<open>Panic\<close> stands
  for the panic of an \<open>expect\<close>.
\<close>

datatype queue_error = ClaimLost | QueueFailure string

datatype error = Storage queue_error | Decode string | Panic string

section \<open>The state-and-error monad\<close>

text \<open>
  An operation takes the state, and returns an error or a value with the new state.  The state
  survives an error: what was done before the \<open>?\<close> that returned stays done.
\<close>

type_synonym ('s, 'a) tx = "'s \<Rightarrow> (error + 'a) \<times> 's"

definition ret :: "'a \<Rightarrow> ('s, 'a) tx" where
  "ret x = (\<lambda>s. (Inr x, s))"

definition fail :: "error \<Rightarrow> ('s, 'a) tx" where
  "fail e = (\<lambda>s. (Inl e, s))"

definition bnd :: "('s, 'a) tx \<Rightarrow> ('a \<Rightarrow> ('s, 'b) tx) \<Rightarrow> ('s, 'b) tx" where
  "bnd m f = (\<lambda>s. case m s of (Inl e, s') \<Rightarrow> (Inl e, s') | (Inr x, s') \<Rightarrow> f x s')"

definition andthen :: "('s, 'a) tx \<Rightarrow> ('s, 'b) tx \<Rightarrow> ('s, 'b) tx" where
  "andthen m n = bnd m (\<lambda>_. n)"

text \<open>A read that leaves the state as it is, a plain update, and a total query.\<close>

definition reads :: "('s \<Rightarrow> error + 'a) \<Rightarrow> ('s, 'a) tx" where
  "reads f = (\<lambda>s. (f s, s))"

definition modify :: "('s \<Rightarrow> 's) \<Rightarrow> ('s, unit) tx" where
  "modify f = (\<lambda>s. (Inr (), f s))"

definition asks :: "('s \<Rightarrow> 'a) \<Rightarrow> ('s, 'a) tx" where
  "asks f = (\<lambda>s. (Inr (f s), s))"

text \<open>\<open>Option::expect\<close>.\<close>

definition expect :: "string \<Rightarrow> 'a option \<Rightarrow> ('s, 'a) tx" where
  "expect msg x = (case x of Some y \<Rightarrow> ret y | None \<Rightarrow> fail (Panic msg))"

text \<open>A \<open>for\<close> loop over a list, left by the first error.\<close>

fun for_each :: "('a \<Rightarrow> ('s, unit) tx) \<Rightarrow> 'a list \<Rightarrow> ('s, unit) tx" where
  "for_each f [] = ret ()"
| "for_each f (x # xs) = andthen (f x) (for_each f xs)"

lemma run_simps [simp]:
  "modify g s = (Inr (), g s)"
  "asks h s = (Inr (h s), s)"
  "reads k s = (k s, s)"
  by (simp_all add: modify_def asks_def reads_def)

text \<open>
  Not declared as rewrite rules: read as equations of functions they would turn every
  \<open>ret x\<close> into \<open>Pair (Inr x)\<close> and hide it from the rules below.
\<close>

lemma run_ret: "ret x s = (Inr x, s)"
  and run_fail: "fail e s = (Inl e, s)"
  by (simp_all add: ret_def fail_def)

lemma run_bnd:
  "bnd m f s = (case m s of (Inl e, s') \<Rightarrow> (Inl e, s') | (Inr x, s') \<Rightarrow> f x s')"
  by (simp add: bnd_def)

lemma run_andthen:
  "andthen m n s = (case m s of (Inl e, s') \<Rightarrow> (Inl e, s') | (Inr x, s') \<Rightarrow> n s')"
  by (simp add: andthen_def bnd_def)

lemma run_bnd_eq [simp]:
  "m s = (Inr x, s') \<Longrightarrow> bnd m f s = f x s'"
  "m s = (Inl e, s') \<Longrightarrow> bnd m f s = (Inl e, s')"
  "m s = (Inr x, s') \<Longrightarrow> andthen m n s = n s'"
  "m s = (Inl e, s') \<Longrightarrow> andthen m n s = (Inl e, s')"
  by (simp_all add: run_bnd run_andthen)

lemma bnd_ret [simp]: "bnd (ret x) f = f x"
  by (simp add: fun_eq_iff run_bnd run_ret)

lemma bnd_assoc: "bnd (bnd m f) g = bnd m (\<lambda>x. bnd (f x) g)"
  by (auto simp: fun_eq_iff run_bnd split: prod.splits sum.splits)

section \<open>Weakest preconditions\<close>

text \<open>
  \<open>wp m Q s\<close>: running \<open>m\<close> in \<open>s\<close> ends in an outcome and a state that satisfy \<open>Q\<close>.  Every
  operation is a function, so the calculus is about total correctness.
\<close>

definition wp :: "('s, 'a) tx \<Rightarrow> (error + 'a \<Rightarrow> 's \<Rightarrow> bool) \<Rightarrow> 's \<Rightarrow> bool" where
  "wp m Q s \<longleftrightarrow> (case m s of (r, s') \<Rightarrow> Q r s')"

lemma wpI: "(\<And>r s'. m s = (r, s') \<Longrightarrow> Q r s') \<Longrightarrow> wp m Q s"
  by (simp add: wp_def split: prod.split)

lemma wpD: "wp m Q s \<Longrightarrow> m s = (r, s') \<Longrightarrow> Q r s'"
  by (simp add: wp_def)

lemma wp_ret [simp]: "wp (ret x) Q s = Q (Inr x) s"
  by (simp add: wp_def run_ret)

lemma wp_fail [simp]: "wp (fail e) Q s = Q (Inl e) s"
  by (simp add: wp_def run_fail)

lemma wp_modify [simp]: "wp (modify f) Q s = Q (Inr ()) (f s)"
  by (simp add: wp_def)

lemma wp_asks [simp]: "wp (asks h) Q s = Q (Inr (h s)) s"
  by (simp add: wp_def)

lemma wp_reads [simp]: "wp (reads k) Q s = Q (k s) s"
  by (simp add: wp_def)

lemma wp_mono: "wp m P s \<Longrightarrow> (\<And>r s'. P r s' \<Longrightarrow> Q r s') \<Longrightarrow> wp m Q s"
  by (auto simp: wp_def)

text \<open>Sequencing as an introduction rule: an error ends the computation.\<close>

lemma wp_bnd: "wp m (\<lambda>r s'. case r of Inl e \<Rightarrow> Q (Inl e) s' | Inr x \<Rightarrow> wp (f x) Q s') s
  \<Longrightarrow> wp (bnd m f) Q s"
  by (auto simp: wp_def run_bnd split: prod.splits sum.splits)

lemma wp_andthen: "wp m (\<lambda>r s'. case r of Inl e \<Rightarrow> Q (Inl e) s' | Inr x \<Rightarrow> wp n Q s') s
  \<Longrightarrow> wp (andthen m n) Q s"
  by (auto simp: wp_def run_andthen split: prod.splits sum.splits)

text \<open>The same, from a specification of the first operation with one case per outcome.\<close>

lemma wp_bndI:
  "wp m P s \<Longrightarrow> (\<And>e s'. P (Inl e) s' \<Longrightarrow> Q (Inl e) s') \<Longrightarrow>
   (\<And>x s'. P (Inr x) s' \<Longrightarrow> wp (f x) Q s') \<Longrightarrow> wp (bnd m f) Q s"
  by (rule wp_bnd, erule wp_mono) (auto split: sum.split)

lemma wp_andthenI:
  "wp m P s \<Longrightarrow> (\<And>e s'. P (Inl e) s' \<Longrightarrow> Q (Inl e) s') \<Longrightarrow>
   (\<And>x s'. P (Inr x) s' \<Longrightarrow> wp n Q s') \<Longrightarrow> wp (andthen m n) Q s"
  by (rule wp_andthen, erule wp_mono) (auto split: sum.split)

lemma wp_expect:
  "(\<And>y. x = Some y \<Longrightarrow> Q (Inr y) s) \<Longrightarrow> (x = None \<Longrightarrow> Q (Inl (Panic msg)) s) \<Longrightarrow>
   wp (expect msg x) Q s"
  by (cases x) (simp_all add: expect_def)

text \<open>Branches.\<close>

lemma wp_case_option:
  "(x = None \<Longrightarrow> wp m Q s) \<Longrightarrow> (\<And>y. x = Some y \<Longrightarrow> wp (f y) Q s) \<Longrightarrow>
   wp (case x of None \<Rightarrow> m | Some y \<Rightarrow> f y) Q s"
  by (simp split: option.split)

lemma wp_if: "(b \<Longrightarrow> wp m Q s) \<Longrightarrow> (\<not> b \<Longrightarrow> wp n Q s) \<Longrightarrow> wp (if b then m else n) Q s"
  by simp

text \<open>A loop keeps what each round keeps.\<close>

lemma wp_for_each:
  assumes "I s"
    and "\<And>x s. x \<in> set xs \<Longrightarrow> I s \<Longrightarrow> wp (f x) (\<lambda>r s'. I s') s"
  shows "wp (for_each f xs) (\<lambda>r s'. I s') s"
  using assms
proof (induction xs arbitrary: s)
  case Nil
  then show ?case by simp
next
  case (Cons x xs)
  have "wp (f x) (\<lambda>r s'. I s') s"
    using Cons.prems by simp
  then show ?case
    using Cons by (auto intro: wp_andthenI)
qed

section \<open>Lists\<close>

lemma sorted_wrt_less_unique:
  fixes xs ys :: "'a::linorder list"
  assumes "sorted_wrt (<) xs" "sorted_wrt (<) ys" "set xs = set ys"
  shows "xs = ys"
  using assms by (simp add: strict_sorted_equal)

lemma sorted_wrt_less_filter: "sorted_wrt R xs \<Longrightarrow> sorted_wrt R (filter P xs)"
  by (rule sorted_wrt_filter)

lemma less_append_same [simp]:
  fixes xs :: "'a::linorder list"
  shows "(p @ xs < p @ ys) = (xs < ys)" "(p @ xs \<le> p @ ys) = (xs \<le> ys)"
  by (induction p) auto

end
