(* ===== verification/Ordered_Map.thy ===== *)
theory Ordered_Map
  imports Prelude
begin

text \<open>
  The standard library's \<open>BTreeMap\<close> and \<open>BTreeSet\<close>: finite maps whose entries are iterated in
  strictly ascending key order.  A map is the list of its entries in that order, so two maps
  with the same entries are equal, which is what \<open>PartialEq\<close> of the source compares.
  Strings are byte strings in UTF-8 (a \<open>char\<close> is a byte), and their order is the bytewise
  lexicographic order of \<open>str\<close> and \<open>[u8]\<close>.
\<close>

section \<open>Sorted association lists\<close>

fun al_insert :: "'k::linorder \<Rightarrow> 'v \<Rightarrow> ('k \<times> 'v) list \<Rightarrow> ('k \<times> 'v) list" where
  "al_insert k v [] = [(k, v)]"
| "al_insert k v ((k', v') # xs) =
     (if k < k' then (k, v) # (k', v') # xs
      else if k = k' then (k, v) # xs
      else (k', v') # al_insert k v xs)"

fun al_delete :: "'k::linorder \<Rightarrow> ('k \<times> 'v) list \<Rightarrow> ('k \<times> 'v) list" where
  "al_delete k [] = []"
| "al_delete k ((k', v') # xs) = (if k = k' then xs else (k', v') # al_delete k xs)"

definition ascending :: "('k::linorder \<times> 'v) list \<Rightarrow> bool" where
  "ascending xs = sorted_wrt (<) (map fst xs)"

lemma ascending_simps [simp]:
  "ascending []"
  "ascending ((k, v) # xs) \<longleftrightarrow> (\<forall>k' \<in> fst ` set xs. k < k') \<and> ascending xs"
  by (auto simp: ascending_def)

lemma keys_al_insert [simp]: "fst ` set (al_insert k v xs) = insert k (fst ` set xs)"
  by (induction k v xs rule: al_insert.induct) auto

lemma ascending_al_insert [simp]: "ascending xs \<Longrightarrow> ascending (al_insert k v xs)"
  by (induction k v xs rule: al_insert.induct) auto

lemma keys_al_delete: "ascending xs \<Longrightarrow> fst ` set (al_delete k xs) = fst ` set xs - {k}"
  by (induction k xs rule: al_delete.induct) auto

lemma ascending_al_delete [simp]: "ascending xs \<Longrightarrow> ascending (al_delete k xs)"
  by (induction k xs rule: al_delete.induct) (auto simp: keys_al_delete)

lemma ascending_filter [simp]: "ascending xs \<Longrightarrow> ascending (filter P xs)"
  by (induction xs) auto

lemma map_of_al_insert [simp]: "map_of (al_insert k v xs) = (map_of xs)(k \<mapsto> v)"
  by (induction k v xs rule: al_insert.induct) (auto simp: fun_eq_iff)

lemma map_of_al_delete: "ascending xs \<Longrightarrow> map_of (al_delete k xs) = (map_of xs)(k := None)"
  by (induction k xs rule: al_delete.induct)
    (auto simp: fun_eq_iff map_of_eq_None_iff)

lemma ascending_distinct: "ascending xs \<Longrightarrow> distinct (map fst xs)"
  by (simp add: ascending_def strict_sorted_iff)

lemma map_of_eq_Some_ascending: "ascending xs \<Longrightarrow> map_of xs k = Some v \<longleftrightarrow> (k, v) \<in> set xs"
  by (simp add: ascending_distinct)

lemma entries_of_keys: "ascending xs \<Longrightarrow> map (\<lambda>k. (k, the (map_of xs k))) (map fst xs) = xs"
  by (auto simp: map_of_eq_Some_ascending [THEN iffD2] intro!: map_idI)

lemma ascending_unique:
  assumes "ascending xs" "ascending ys" "map_of xs = map_of ys"
  shows "xs = ys"
proof -
  have "set (map fst xs) = set (map fst ys)"
    using assms(3) by (metis dom_map_of_conv_image_fst list.set_map)
  then have "map fst xs = map fst ys"
    using assms(1,2) by (intro sorted_distinct_set_unique) (auto simp: ascending_def strict_sorted_iff)
  then show ?thesis
    using entries_of_keys [OF assms(1)] entries_of_keys [OF assms(2)] assms(3) by metis
qed


section \<open>The map type\<close>

typedef (overloaded) ('k::linorder, 'v) omap = "{xs :: ('k \<times> 'v) list. ascending xs}"
  morphisms entries Omap
  by (rule exI [where x = "[]"]) simp

setup_lifting type_definition_omap

lift_definition om_empty :: "('k::linorder, 'v) omap" is "[]" by simp
lift_definition om_get :: "('k::linorder, 'v) omap \<Rightarrow> 'k \<Rightarrow> 'v option" is "\<lambda>xs k. map_of xs k" .
lift_definition om_insert :: "'k::linorder \<Rightarrow> 'v \<Rightarrow> ('k, 'v) omap \<Rightarrow> ('k, 'v) omap" is al_insert
  by simp
lift_definition om_delete :: "'k::linorder \<Rightarrow> ('k, 'v) omap \<Rightarrow> ('k, 'v) omap" is al_delete
  by simp

definition om_keys :: "('k::linorder, 'v) omap \<Rightarrow> 'k list" where
  "om_keys m = map fst (entries m)"

definition om_of_list :: "('k::linorder \<times> 'v) list \<Rightarrow> ('k, 'v) omap" where
  "om_of_list xs = fold (\<lambda>(k, v). om_insert k v) xs om_empty"

instantiation omap :: (linorder, equal) equal
begin

lift_definition equal_omap :: "('a, 'b) omap \<Rightarrow> ('a, 'b) omap \<Rightarrow> bool" is "(=)" .

instance by standard (transfer, simp)

end

lemma om_get_empty [simp]: "om_get om_empty k = None"
  by transfer simp

lemma om_get_insert [simp]: "om_get (om_insert k v m) k' = (if k' = k then Some v else om_get m k')"
  by transfer simp

lemma om_get_delete [simp]: "om_get (om_delete k m) k' = (if k' = k then None else om_get m k')"
  by transfer (simp add: map_of_al_delete)

lemma entries_empty [simp]: "entries om_empty = []"
  by transfer simp

lemma entries_Nil [simp]: "entries m = [] \<longleftrightarrow> m = om_empty"
  by transfer simp

lemma ascending_entries [simp]: "ascending (entries m)"
  using entries [of m] by simp

lemma om_get_entries: "om_get m k = map_of (entries m) k"
  by transfer simp

lemma in_entries: "(k, v) \<in> set (entries m) \<longleftrightarrow> om_get m k = Some v"
  by (simp add: om_get_entries map_of_eq_Some_ascending)

lemma sorted_om_keys [simp]: "sorted_wrt (<) (om_keys m)"
  using ascending_entries [of m] by (simp add: om_keys_def ascending_def)

lemma set_om_keys: "set (om_keys m) = {k. om_get m k \<noteq> None}"
  by (force simp: om_keys_def in_entries [symmetric])

lemma om_eqI: "(\<And>k. om_get m k = om_get m' k) \<Longrightarrow> m = m'"
  by transfer (auto intro: ascending_unique)

lemma om_of_list_simps [simp]:
  "om_of_list [] = om_empty"
  "om_of_list (xs @ [(k, v)]) = om_insert k v (om_of_list xs)"
  by (simp_all add: om_of_list_def)

section \<open>The contract of a map, and what follows from it\<close>

text \<open>
  What the components rely on, whatever the representation: a lookup returns what was last
  inserted.  The lemmas are proved from the contract alone.
\<close>

locale finite_map =
  fixes empty :: 'm
    and get :: "'m \<Rightarrow> 'k \<Rightarrow> 'v option"
    and insert :: "'k \<Rightarrow> 'v \<Rightarrow> 'm \<Rightarrow> 'm"
    and delete :: "'k \<Rightarrow> 'm \<Rightarrow> 'm"
  assumes get_empty: "get empty k = None"
    and get_insert: "get (insert k v m) k' = (if k' = k then Some v else get m k')"
    and get_delete: "get (delete k m) k' = (if k' = k then None else get m k')"
    and extensional: "(\<And>k. get m k = get m' k) \<Longrightarrow> m = m'"
begin

lemma insert_insert: "insert k v (insert k w m) = insert k v m"
  by (rule extensional) (simp add: get_insert)

lemma insert_commute: "k \<noteq> k' \<Longrightarrow> insert k v (insert k' w m) = insert k' w (insert k v m)"
  by (rule extensional) (simp add: get_insert)

lemma insert_same: "get m k = Some v \<Longrightarrow> insert k v m = m"
  by (rule extensional) (simp add: get_insert)

lemma get_fold_insert:
  "get (fold (\<lambda>(k, v). insert k v) xs m) k =
     (case map_of (rev xs) k of None \<Rightarrow> get m k | Some v \<Rightarrow> Some v)"
  by (induction xs arbitrary: m) (auto simp: get_insert map_add_def split: option.splits)

end

interpretation om: finite_map om_empty om_get om_insert om_delete
  by unfold_locales (auto intro: om_eqI)

lemma om_get_of_list: "om_get (om_of_list xs) k = map_of (rev xs) k"
  by (simp add: om_of_list_def om.get_fold_insert split: option.split)

lemma om_get_of_ascending: "ascending xs \<Longrightarrow> om_get (om_of_list xs) k = map_of xs k"
proof -
  assume "ascending xs"
  then have "map_of (rev xs) = map_of xs"
    by (subst map_of_inject_set) (simp_all add: ascending_distinct flip: rev_map)
  then show ?thesis by (simp add: om_get_of_list)
qed

lemma om_of_list_entries [simp]: "om_of_list (entries m) = m"
  by (rule om_eqI) (simp add: om_get_of_ascending om_get_entries [of m])

section \<open>Ordered sets\<close>

text \<open>A \<open>BTreeSet\<close> is a map to the unit value, as in the standard library.\<close>

type_synonym 'a oset = "('a, unit) omap"

abbreviation os_empty :: "'a::linorder oset" where
  "os_empty \<equiv> om_empty"

definition os_insert :: "'a::linorder \<Rightarrow> 'a oset \<Rightarrow> 'a oset" where
  "os_insert x s = om_insert x () s"

definition os_of_list :: "'a::linorder list \<Rightarrow> 'a oset" where
  "os_of_list xs = fold os_insert xs os_empty"

definition os_size :: "'a::linorder oset \<Rightarrow> nat" where
  "os_size s = length (om_keys s)"

definition os_elems :: "'a::linorder oset \<Rightarrow> 'a set" where
  "os_elems s = set (om_keys s)"

lemma os_elems_empty [simp]: "os_elems os_empty = {}"
  by (simp add: os_elems_def set_om_keys)

lemma os_elems_insert [simp]: "os_elems (os_insert x s) = insert x (os_elems s)"
  by (auto simp: os_elems_def os_insert_def set_om_keys)

lemma os_of_list_keys [simp]: "os_of_list (om_keys s) = s"
proof -
  have "os_insert = (\<lambda>x :: 'a. om_insert x ())"
    by (simp add: fun_eq_iff os_insert_def)
  then have "os_of_list (om_keys s) = om_of_list (map (\<lambda>k. (k, ())) (om_keys s))"
    by (simp add: os_of_list_def om_of_list_def fold_map comp_def)
  also have "map (\<lambda>k. (k, ())) (om_keys s) = entries s"
    by (auto simp: om_keys_def intro!: map_idI)
  finally show ?thesis by simp
qed

lemma os_size_eq_0 [simp]: "os_size s = 0 \<longleftrightarrow> s = os_empty"
  by (simp add: os_size_def om_keys_def)

lemma os_size_card: "os_size s = card (os_elems s)"
  using sorted_om_keys [of s] by (simp add: os_size_def os_elems_def distinct_card strict_sorted_iff)

end
