(* ===== verification/Json.thy ===== *)
theory Json
  imports Ordered_Map "HOL-Library.Word" "HOL-Library.Monad_Syntax"
begin

text \<open>
  JSON values (\<open>serde_json::Value\<close>) and the encoders and decoders that the \<open>Serialize\<close> and
  \<open>Deserialize\<close> attributes of the crate's types describe.  Text is not modelled: a document
  stands for the bytes \<open>serde_json::to_vec\<close> writes for it, and the parser of request text is a
  parameter of the model (theory \<open>Taquba\<close>).

  An object is the list of its entries in ascending key order, as \<open>serde_json::Map\<close> keeps
  them.  A number is an integer, or a float kept as its 64 bits; no record has a float.
\<close>

datatype json =
    JNull
  | JBool bool
  | JInt int
  | JFloat "64 word"
  | JString string
  | JArray "json list"
  | JObject "(string \<times> json) list"

text \<open>The object of a \<open>json!\<close> literal or of a serialized struct.\<close>

definition jobj :: "(string \<times> json) list \<Rightarrow> json" where
  "jobj fields = JObject (entries (om_of_list fields))"

text \<open>Indexing, \<open>as_str\<close> and \<open>is_object\<close> of a value.\<close>

definition jget :: "json \<Rightarrow> string \<Rightarrow> json" where
  "jget j k = (case j of JObject kvs \<Rightarrow> (case map_of kvs k of Some v \<Rightarrow> v | None \<Rightarrow> JNull) | _ \<Rightarrow> JNull)"

definition as_str :: "json \<Rightarrow> string option" where
  "as_str j = (case j of JString s \<Rightarrow> Some s | _ \<Rightarrow> None)"

definition is_object :: "json \<Rightarrow> bool" where
  "is_object j = (case j of JObject _ \<Rightarrow> True | _ \<Rightarrow> False)"

text \<open>\<open>data[k] = v\<close> on an object.\<close>

definition jset :: "json \<Rightarrow> string \<Rightarrow> json \<Rightarrow> json" where
  "jset j k v = (case j of JObject kvs \<Rightarrow> JObject (al_insert k v kvs) | _ \<Rightarrow> j)"

section \<open>Encoders\<close>

definition enc_option :: "('a \<Rightarrow> json) \<Rightarrow> 'a option \<Rightarrow> json" where
  "enc_option enc x = (case x of None \<Rightarrow> JNull | Some y \<Rightarrow> enc y)"

definition enc_list :: "('a \<Rightarrow> json) \<Rightarrow> 'a list \<Rightarrow> json" where
  "enc_list enc xs = JArray (map enc xs)"

definition enc_set :: "string oset \<Rightarrow> json" where
  "enc_set s = enc_list JString (om_keys s)"

definition enc_map :: "(string, string) omap \<Rightarrow> json" where
  "enc_map m = JObject (map (\<lambda>(k, v). (k, JString v)) (entries m))"

text \<open>A field with \<open>skip_serializing_if = "Option::is_none"\<close>.\<close>

definition skip_none :: "string \<Rightarrow> ('a \<Rightarrow> json) \<Rightarrow> 'a option \<Rightarrow> (string \<times> json) list" where
  "skip_none name enc x = (case x of None \<Rightarrow> [] | Some y \<Rightarrow> [(name, enc y)])"

section \<open>Decoders\<close>

definition dec_string :: "json \<Rightarrow> string option" where
  "dec_string j = (case j of JString s \<Rightarrow> Some s | _ \<Rightarrow> None)"

definition enc_i64 :: "i64 \<Rightarrow> json" where
  "enc_i64 x = JInt (sint x)"

definition dec_i64 :: "json \<Rightarrow> i64 option" where
  "dec_i64 j = (case j of JInt n \<Rightarrow> if in_i64 n then Some (word_of_int n) else None | _ \<Rightarrow> None)"

definition dec_value :: "json \<Rightarrow> json option" where
  "dec_value j = Some j"

definition dec_option :: "(json \<Rightarrow> 'a option) \<Rightarrow> json \<Rightarrow> 'a option option" where
  "dec_option dec j = (case j of JNull \<Rightarrow> Some None | _ \<Rightarrow> map_option Some (dec j))"

fun dec_all :: "('b \<Rightarrow> 'a option) \<Rightarrow> 'b list \<Rightarrow> 'a list option" where
  "dec_all dec [] = Some []"
| "dec_all dec (j # js) = do { x \<leftarrow> dec j; xs \<leftarrow> dec_all dec js; Some (x # xs) }"

definition dec_list :: "(json \<Rightarrow> 'a option) \<Rightarrow> json \<Rightarrow> 'a list option" where
  "dec_list dec j = (case j of JArray js \<Rightarrow> dec_all dec js | _ \<Rightarrow> None)"

definition dec_set :: "json \<Rightarrow> string oset option" where
  "dec_set j = map_option os_of_list (dec_list dec_string j)"

definition dec_entry :: "string \<times> json \<Rightarrow> (string \<times> string) option" where
  "dec_entry e = (case e of (k, j) \<Rightarrow> map_option (Pair k) (dec_string j))"

definition dec_map :: "json \<Rightarrow> (string, string) omap option" where
  "dec_map j = (case j of JObject kvs \<Rightarrow> map_option om_of_list (dec_all dec_entry kvs) | _ \<Rightarrow> None)"

text \<open>
  A unit variant of an enum with \<open>rename_all\<close>: its name, or an object with the name as its only
  key and null.
\<close>

definition dec_variant :: "json \<Rightarrow> string option" where
  "dec_variant j = (case j of JString s \<Rightarrow> Some s | JObject [(s, JNull)] \<Rightarrow> Some s | _ \<Rightarrow> None)"

text \<open>
  A derived struct is read from an object by field name, or from an array by field position,
  which may end early where the remaining fields have defaults.
\<close>

definition struct_fields :: "string list \<Rightarrow> json \<Rightarrow> (string \<Rightarrow> json option) option" where
  "struct_fields names j = (case j of
     JObject kvs \<Rightarrow> Some (map_of kvs)
   | JArray js \<Rightarrow> if length js \<le> length names then Some (map_of (zip names js)) else None
   | _ \<Rightarrow> None)"

text \<open>A struct with a flattened member is read from an object only.\<close>

definition flat_fields :: "json \<Rightarrow> (string \<Rightarrow> json option) option" where
  "flat_fields j = (case j of JObject kvs \<Rightarrow> Some (map_of kvs) | _ \<Rightarrow> None)"

text \<open>
  An enum with an internal tag is read from an object that has the tag among its fields, or from
  an array of the tag and the fields of its variant by position.
\<close>

definition tagged_fields ::
  "string \<Rightarrow> (string \<times> string list) list \<Rightarrow> json \<Rightarrow> (string \<Rightarrow> json option) option" where
  "tagged_fields tag variants j = (case j of
     JArray (JString v # js) \<Rightarrow> (case map_of variants v of
         None \<Rightarrow> None
       | Some names \<Rightarrow> map_option (\<lambda>fs. fs(tag \<mapsto> JString v)) (struct_fields names (JArray js)))
   | _ \<Rightarrow> flat_fields j)"

text \<open>
  A required field, a field with \<open>#[serde(default)]\<close>, and one with \<open>null_default\<close>
  (\<open>src/kernel.rs\<close>), which reads null as the default too.
\<close>

definition field :: "(string \<Rightarrow> json option) \<Rightarrow> string \<Rightarrow> (json \<Rightarrow> 'a option) \<Rightarrow> 'a option" where
  "field fs name dec = Option.bind (fs name) dec"

definition field_default ::
  "(string \<Rightarrow> json option) \<Rightarrow> string \<Rightarrow> (json \<Rightarrow> 'a option) \<Rightarrow> 'a \<Rightarrow> 'a option" where
  "field_default fs name dec d = (case fs name of None \<Rightarrow> Some d | Some j \<Rightarrow> dec j)"

definition null_default ::
  "(string \<Rightarrow> json option) \<Rightarrow> string \<Rightarrow> (json \<Rightarrow> 'a option) \<Rightarrow> 'a \<Rightarrow> 'a option" where
  "null_default fs name dec d =
     (case fs name of None \<Rightarrow> Some d
      | Some j \<Rightarrow> map_option (\<lambda>x. case x of None \<Rightarrow> d | Some y \<Rightarrow> y) (dec_option dec j))"

section \<open>Decoding what was encoded\<close>

text \<open>
  The contract between an encoder and its decoder, and what it gives: the encoding is
  injective, and lists and optional values of the type have the same contract.
\<close>

locale json_codec =
  fixes enc :: "'a \<Rightarrow> json" and dec :: "json \<Rightarrow> 'a option"
  assumes dec_enc: "dec (enc x) = Some x"
    and enc_not_null: "enc x \<noteq> JNull"
begin

lemma enc_inject: "enc x = enc y \<longleftrightarrow> x = y"
  by (metis dec_enc option.inject)

lemma dec_enc_list: "dec_list dec (enc_list enc xs) = Some xs"
proof -
  have "dec_all dec (map enc xs) = Some xs"
    by (induction xs) (simp_all add: dec_enc)
  then show ?thesis by (simp add: dec_list_def enc_list_def)
qed

lemma dec_option_enc: "dec_option dec (enc x) = Some (Some x)"
  using dec_enc [of x] enc_not_null [of x] by (cases "enc x") (simp_all add: dec_option_def)

lemma dec_enc_option: "dec_option dec (enc_option enc x) = Some x"
  by (cases x) (simp_all add: dec_option_def enc_option_def dec_option_enc
      [unfolded dec_option_def])

text \<open>A field that is left out when it is \<open>None\<close>, read with its default.\<close>

lemma dec_skipped:
  "case_option (Some None) (dec_option dec) (map_option enc x) = Some x"
  "case_option (Some None) (dec_option dec \<circ> enc) x = Some x"
  by (cases x; simp add: dec_option_enc)+

end

interpretation str: json_codec JString dec_string
  by unfold_locales (auto simp: dec_string_def)

interpretation i64: json_codec enc_i64 dec_i64
  by unfold_locales (auto simp: dec_i64_def enc_i64_def)

lemma dec_set_enc [codec]: "dec_set (enc_set s) = Some s"
  by (simp add: dec_set_def enc_set_def str.dec_enc_list)

lemma dec_map_enc [codec]: "dec_map (enc_map m) = Some m"
proof -
  have "dec_all dec_entry (map (\<lambda>(k, v). (k, JString v)) kvs) = Some kvs" for kvs
    by (induction kvs) (auto simp: dec_entry_def dec_string_def)
  then show ?thesis
    by (simp add: dec_map_def enc_map_def)
qed

lemma enc_not_null [simp]: "enc_map m \<noteq> JNull" "enc_set s \<noteq> JNull" "enc_list e xs \<noteq> JNull"
  by (simp_all add: enc_map_def enc_set_def enc_list_def)

interpretation tags: json_codec enc_map dec_map
  by unfold_locales (simp_all add: codec)

lemmas base_codec [codec] =
  str.dec_enc str.dec_enc_list str.dec_option_enc str.dec_enc_option str.dec_skipped
  i64.dec_enc i64.dec_option_enc i64.dec_enc_option i64.dec_skipped
  tags.dec_option_enc tags.dec_enc_option tags.dec_skipped

section \<open>Reading the fields of an object that was written\<close>

lemma flat_fields_jobj [simp]: "flat_fields (jobj kvs) = Some (map_of (rev kvs))"
  by (simp add: flat_fields_def jobj_def fun_eq_iff om_get_of_list flip: om_get_entries)

lemma tagged_fields_jobj [simp]: "tagged_fields tag variants (jobj kvs) = Some (map_of (rev kvs))"
  using flat_fields_jobj [of kvs] by (simp add: tagged_fields_def jobj_def)

lemma struct_fields_jobj [simp]: "struct_fields names (jobj kvs) = Some (map_of (rev kvs))"
  by (simp add: struct_fields_def jobj_def fun_eq_iff om_get_of_list flip: om_get_entries)

lemma jget_jobj: "jget (jobj kvs) k = (case map_of (rev kvs) k of Some v \<Rightarrow> v | None \<Rightarrow> JNull)"
  by (simp add: jget_def jobj_def om_get_of_list flip: om_get_entries)

lemma is_object_jobj [simp]: "is_object (jobj kvs)"
  by (simp add: is_object_def jobj_def)

lemma jobj_not_null [simp]: "jobj kvs \<noteq> JNull"
  by (simp add: jobj_def)

lemma dec_option_not_null: "j \<noteq> JNull \<Longrightarrow> dec_option dec j = map_option Some (dec j)"
  by (cases j) (simp_all add: dec_option_def)

lemma dec_variant_string [simp]: "dec_variant (JString s) = Some s"
  by (simp add: dec_variant_def)

lemma map_of_skip_none [simp]:
  "map_of (skip_none name enc x) k = (if k = name then map_option enc x else None)"
  by (cases x) (auto simp: skip_none_def)

lemma add_skip_none_other [simp]:
  "k \<noteq> name \<Longrightarrow> (m ++ map_of (skip_none name enc x)) k = m k"
  by (simp add: map_add_def)

lemma add_skip_none [simp]:
  "m name = None \<Longrightarrow> (m ++ map_of (skip_none name enc x)) name = map_option enc x"
  by (simp add: map_add_def split: option.split)

lemma case_option_Some [simp]: "(case x of None \<Rightarrow> None | Some y \<Rightarrow> Some y) = x"
  by (cases x) auto

lemma rev_skip_none [simp]: "rev (skip_none name enc x) = skip_none name enc x"
  by (cases x) (auto simp: skip_none_def)

end
