(* ===== verification/Rust_Strings.thy ===== *)
theory Rust_Strings
  imports Prelude
begin

text \<open>
  The operations of the standard library on strings that the crate uses, on byte strings:
  splitting and stripping, replacement, decimal and hexadecimal formatting, \<open>str::parse\<close> for
  \<open>i64\<close> and the check of \<open>str::from_utf8\<close>.  The laws the components need follow each
  operation.
\<close>

section \<open>Prefixes and separators\<close>

text \<open>\<open>strip_prefix\<close> and \<open>starts_with\<close>.\<close>

fun strip_prefix :: "string \<Rightarrow> string \<Rightarrow> string option" where
  "strip_prefix [] s = Some s"
| "strip_prefix (p # ps) [] = None"
| "strip_prefix (p # ps) (c # cs) = (if p = c then strip_prefix ps cs else None)"

definition starts_with :: "string \<Rightarrow> string \<Rightarrow> bool" where
  "starts_with s p \<longleftrightarrow> strip_prefix p s \<noteq> None"

text \<open>\<open>contains\<close> of a character, and the part before its first occurrence, if any.\<close>

definition contains :: "string \<Rightarrow> char \<Rightarrow> bool" where
  "contains s c \<longleftrightarrow> c \<in> set s"

fun split_once :: "char \<Rightarrow> string \<Rightarrow> (string \<times> string) option" where
  "split_once c [] = None"
| "split_once c (x # xs) =
     (if x = c then Some ([], xs)
      else map_option (\<lambda>(a, b). (x # a, b)) (split_once c xs))"

lemma strip_prefix_Some [simp]: "strip_prefix p s = Some r \<longleftrightarrow> s = p @ r"
  by (induction p s rule: strip_prefix.induct) auto

lemma strip_prefix_append [simp]: "strip_prefix p (p @ r) = Some r"
  by simp

lemma strip_prefix_None: "strip_prefix p s = None \<longleftrightarrow> \<not> prefix p s"
  by (metis not_Some_eq prefix_def strip_prefix_Some)

lemma starts_with_prefix [simp]: "starts_with s p \<longleftrightarrow> prefix p s"
  by (simp add: starts_with_def strip_prefix_None)

lemma split_once_None [simp]: "split_once c s = None \<longleftrightarrow> c \<notin> set s"
  by (induction s) auto

lemma split_once_Some: "split_once c s = Some (a, b) \<longleftrightarrow> s = a @ c # b \<and> c \<notin> set a"
proof (induction s arbitrary: a)
  case Nil
  then show ?case by simp
next
  case (Cons x xs)
  then show ?case by (cases a) auto
qed

section \<open>Replacement\<close>

text \<open>
  \<open>str::replace\<close>: every match of the pattern, found from left to right without overlap.  The
  code's patterns are not empty.
\<close>

function str_replace :: "string \<Rightarrow> string \<Rightarrow> string \<Rightarrow> string" where
  "str_replace pat rep s =
     (if pat = [] then s
      else case s of
        [] \<Rightarrow> []
      | c # cs \<Rightarrow> (case strip_prefix pat s of
          Some rest \<Rightarrow> rep @ str_replace pat rep rest
        | None \<Rightarrow> c # str_replace pat rep cs))"
  by pat_completeness auto
termination
  by (relation "measure (\<lambda>(pat, rep, s). length s)") (auto simp del: append.simps)

declare str_replace.simps [simp del]

lemma str_replace_absent: "\<not> sublist pat s \<Longrightarrow> str_replace pat rep s = s"
proof (induction s)
  case Nil
  then show ?case by (subst str_replace.simps) simp
next
  case (Cons c cs)
  have "strip_prefix pat (c # cs) = None" "\<not> sublist pat cs"
    using Cons.prems by (auto simp: strip_prefix_None sublist_Cons_right)
  with Cons show ?case by (subst str_replace.simps) auto
qed

section \<open>Numbers as text\<close>

definition digit_char :: "nat \<Rightarrow> char" where
  "digit_char d = char_of (48 + d)"

definition char_digit :: "char \<Rightarrow> nat option" where
  "char_digit c = (let n = of_char c :: nat in if 48 \<le> n \<and> n \<le> 57 then Some (n - 48) else None)"

fun show_nat :: "nat \<Rightarrow> string" where
  "show_nat n = (if n < 10 then [digit_char n] else show_nat (n div 10) @ [digit_char (n mod 10)])"

declare show_nat.simps [simp del]

text \<open>\<open>i64::to_string\<close>.\<close>

definition show_i64 :: "i64 \<Rightarrow> string" where
  "show_i64 x =
     (let n = sint x in if n < 0 then ''-'' @ show_nat (nat (- n)) else show_nat (nat n))"

fun parse_digits :: "nat \<Rightarrow> string \<Rightarrow> nat option" where
  "parse_digits acc [] = Some acc"
| "parse_digits acc (c # cs) =
     (case char_digit c of None \<Rightarrow> None | Some d \<Rightarrow> parse_digits (10 * acc + d) cs)"

definition parse_nat :: "string \<Rightarrow> nat option" where
  "parse_nat s = (if s = [] then None else parse_digits 0 s)"

text \<open>\<open>str::parse::<i64>\<close>: an optional sign, at least one digit, and a value in range.\<close>

definition parse_i64 :: "string \<Rightarrow> i64 option" where
  "parse_i64 s =
     (let (neg, ds) = (case s of
         [] \<Rightarrow> (False, [])
       | c # cs \<Rightarrow> if c = CHR ''-'' then (True, cs)
                   else if c = CHR ''+'' then (False, cs) else (False, c # cs))
      in case parse_nat ds of
           None \<Rightarrow> None
         | Some n \<Rightarrow> (let v = (if neg then - int n else int n) in if in_i64 v then Some (word_of_int v) else None))"

lemma char_digit_digit [simp]: "d < 10 \<Longrightarrow> char_digit (digit_char d) = Some d"
  by (simp add: char_digit_def digit_char_def Let_def)

lemma parse_digits_append:
  "parse_digits acc (xs @ ys) = Option.bind (parse_digits acc xs) (\<lambda>a. parse_digits a ys)"
  by (induction acc xs rule: parse_digits.induct) (auto split: option.splits)

lemma parse_digits_show: "parse_digits 0 (show_nat n) = Some n"
proof (induction n rule: show_nat.induct)
  case (1 n)
  then show ?case
    by (subst show_nat.simps) (auto simp: parse_digits_append)
qed

lemma show_nat_not_Nil [simp]: "show_nat n \<noteq> []"
  by (subst show_nat.simps) simp

lemma parse_show_nat [simp]: "parse_nat (show_nat n) = Some n"
  by (simp add: parse_nat_def parse_digits_show)

lemma char_digit_hd_show: "char_digit (hd (show_nat n)) \<noteq> None"
proof (induction n rule: show_nat.induct)
  case (1 n)
  show ?case
  proof (cases "n < 10")
    case True
    then show ?thesis by (subst show_nat.simps) simp
  next
    case False
    then have "show_nat n = show_nat (n div 10) @ [digit_char (n mod 10)]"
      by (subst show_nat.simps) simp
    with 1 False show ?thesis by (simp add: hd_append)
  qed
qed

lemma show_nat_no_sign: "show_nat n = c # cs \<Longrightarrow> c \<noteq> CHR ''-'' \<and> c \<noteq> CHR ''+''"
  using char_digit_hd_show [of n] by (auto simp: char_digit_def)

lemma parse_show_i64 [simp]: "parse_i64 (show_i64 x) = Some x"
proof (cases "sint x < 0")
  case True
  then show ?thesis by (simp add: parse_i64_def show_i64_def)
next
  case False
  obtain c cs where "show_nat (nat (sint x)) = c # cs"
    using show_nat_not_Nil by (meson neq_Nil_conv)
  moreover have "parse_nat (show_nat (nat (sint x))) = Some (nat (sint x))"
    by simp
  ultimately show ?thesis
    using False show_nat_no_sign [of "nat (sint x)" c cs] by (simp add: parse_i64_def show_i64_def)
qed

lemma show_i64_inject [simp]: "show_i64 x = show_i64 y \<longleftrightarrow> x = y"
  by (metis option.inject parse_show_i64)

section \<open>Hexadecimal bytes\<close>

definition hex_upper :: "nat \<Rightarrow> char" where
  "hex_upper d = (if d < 10 then char_of (48 + d) else char_of (55 + d))"

definition hex_lower :: "nat \<Rightarrow> char" where
  "hex_lower d = (if d < 10 then char_of (48 + d) else char_of (87 + d))"

text \<open>The formats \<open>{:02X}\<close> and \<open>{:02x}\<close> of a byte.\<close>

definition byte_upper :: "char \<Rightarrow> string" where
  "byte_upper c = (let n = of_char c :: nat in [hex_upper (n div 16), hex_upper (n mod 16)])"

definition byte_lower :: "char \<Rightarrow> string" where
  "byte_lower c = (let n = of_char c :: nat in [hex_lower (n div 16), hex_lower (n mod 16)])"

lemma hex_upper_inject: "d < 16 \<Longrightarrow> e < 16 \<Longrightarrow> hex_upper d = hex_upper e \<Longrightarrow> d = e"
  by (auto simp: hex_upper_def char_of_eq_iff take_bit_eq_mod split: if_splits)

lemma of_char_less_256 [simp]: "(of_char c :: nat) < 256"
  using of_char_mod_256 [of c] by (metis mod_less_divisor zero_less_numeral)

lemma byte_upper_inject: "byte_upper c = byte_upper d \<Longrightarrow> c = d"
proof -
  assume "byte_upper c = byte_upper d"
  then have "(of_char c :: nat) div 16 = of_char d div 16" "(of_char c :: nat) mod 16 = of_char d mod 16"
    by (auto simp: byte_upper_def Let_def less_mult_imp_div_less intro!: hex_upper_inject)
  then have "(of_char c :: nat) = of_char d"
    by (metis div_mult_mod_eq)
  then show ?thesis by simp
qed

lemma length_byte_upper [simp]: "length (byte_upper c) = 2"
  by (simp add: byte_upper_def Let_def)

section \<open>UTF-8\<close>

text \<open>
  \<open>str::from_utf8\<close> succeeds exactly on well-formed UTF-8 (the byte ranges of the Unicode
  standard's table of well-formed sequences, which the standard library's documentation
  refers to).
\<close>

definition tail_byte :: "nat \<Rightarrow> bool" where
  "tail_byte b \<longleftrightarrow> 128 \<le> b \<and> b \<le> 191"

fun utf8_bytes :: "nat list \<Rightarrow> bool" where
  "utf8_bytes [] = True"
| "utf8_bytes (a # bs) =
     (if a \<le> 127 then utf8_bytes bs
      else if 194 \<le> a \<and> a \<le> 223 then
        (case bs of b # bs' \<Rightarrow> tail_byte b \<and> utf8_bytes bs' | _ \<Rightarrow> False)
      else if 224 \<le> a \<and> a \<le> 239 then
        (case bs of b # c # bs' \<Rightarrow>
           (if a = 224 then 160 \<le> b \<and> b \<le> 191
            else if a = 237 then 128 \<le> b \<and> b \<le> 159 else tail_byte b)
           \<and> tail_byte c \<and> utf8_bytes bs'
         | _ \<Rightarrow> False)
      else if 240 \<le> a \<and> a \<le> 244 then
        (case bs of b # c # d # bs' \<Rightarrow>
           (if a = 240 then 144 \<le> b \<and> b \<le> 191
            else if a = 244 then 128 \<le> b \<and> b \<le> 143 else tail_byte b)
           \<and> tail_byte c \<and> tail_byte d \<and> utf8_bytes bs'
         | _ \<Rightarrow> False)
      else False)"

definition utf8 :: "string \<Rightarrow> bool" where
  "utf8 s = utf8_bytes (map of_char s)"

lemma utf8_ascii: "\<forall>c \<in> set s. (of_char c :: nat) \<le> 127 \<Longrightarrow> utf8 s"
  by (induction s) (auto simp: utf8_def)

lemma utf8_example: "utf8 ''root:1.0'' \<and> \<not> utf8 [CHR 0xC3] \<and> utf8 [CHR 0xC3, CHR 0xA9]"
  by code_simp

end
