(* ===== verification/Records.thy ===== *)
theory Records
  imports Json Rust_Strings
begin

text \<open>
  \<open>src/records.rs\<close>: the protocol's records, the tag rules that classify a promise, and the wire
  and stored forms that the \<open>serde\<close> attributes of the records describe.  An \<open>encode\<close> of a
  record is its \<open>Serialize\<close>, a \<open>decode\<close> its \<open>Deserialize\<close>; every decode undoes its encode.
\<close>

definition PROTOCOL_VERSION :: string where "PROTOCOL_VERSION = ''2026-04-01''"

definition TAG_TARGET :: string where "TAG_TARGET = ''resonate:target''"
definition TAG_TIMER :: string where "TAG_TIMER = ''resonate:timer''"
definition TAG_DELAY :: string where "TAG_DELAY = ''resonate:delay''"
definition TAG_BRANCH :: string where "TAG_BRANCH = ''resonate:branch''"
definition TAG_SCOPE :: string where "TAG_SCOPE = ''resonate:scope''"
definition TAG_EXTERNAL :: string where "TAG_EXTERNAL = ''resonate:external''"

type_synonym tags = "(string, string) omap"

section \<open>States\<close>

datatype promise_state =
  PPending | PResolved | PRejected | PRejectedCanceled | PRejectedTimedout

datatype task_state = TPending | TAcquired | TSuspended | THalted | TFulfilled

datatype settle_state = SResolved | SRejected | SRejectedCanceled

fun settled_as :: "settle_state \<Rightarrow> promise_state" where
  "settled_as SResolved = PResolved"
| "settled_as SRejected = PRejected"
| "settled_as SRejectedCanceled = PRejectedCanceled"

fun promise_state_name :: "promise_state \<Rightarrow> string" where
  "promise_state_name PPending = ''pending''"
| "promise_state_name PResolved = ''resolved''"
| "promise_state_name PRejected = ''rejected''"
| "promise_state_name PRejectedCanceled = ''rejected_canceled''"
| "promise_state_name PRejectedTimedout = ''rejected_timedout''"

fun task_state_name :: "task_state \<Rightarrow> string" where
  "task_state_name TPending = ''pending''"
| "task_state_name TAcquired = ''acquired''"
| "task_state_name TSuspended = ''suspended''"
| "task_state_name THalted = ''halted''"
| "task_state_name TFulfilled = ''fulfilled''"

fun settle_state_name :: "settle_state \<Rightarrow> string" where
  "settle_state_name SResolved = ''resolved''"
| "settle_state_name SRejected = ''rejected''"
| "settle_state_name SRejectedCanceled = ''rejected_canceled''"

text \<open>The variant with a given name, among the variants of an enum.\<close>

definition variant_named :: "('a \<Rightarrow> string) \<Rightarrow> 'a list \<Rightarrow> json \<Rightarrow> 'a option" where
  "variant_named name vs j =
     Option.bind (dec_variant j) (\<lambda>s. map_of (map (\<lambda>v. (name v, v)) vs) s)"

definition enc_promise_state :: "promise_state \<Rightarrow> json" where
  "enc_promise_state s = JString (promise_state_name s)"

definition dec_promise_state :: "json \<Rightarrow> promise_state option" where
  "dec_promise_state = variant_named promise_state_name
     [PPending, PResolved, PRejected, PRejectedCanceled, PRejectedTimedout]"

definition enc_task_state :: "task_state \<Rightarrow> json" where
  "enc_task_state s = JString (task_state_name s)"

definition dec_task_state :: "json \<Rightarrow> task_state option" where
  "dec_task_state = variant_named task_state_name
     [TPending, TAcquired, TSuspended, THalted, TFulfilled]"

definition enc_settle_state :: "settle_state \<Rightarrow> json" where
  "enc_settle_state s = JString (settle_state_name s)"

definition dec_settle_state :: "json \<Rightarrow> settle_state option" where
  "dec_settle_state = variant_named settle_state_name [SResolved, SRejected, SRejectedCanceled]"

interpretation promise_state: json_codec enc_promise_state dec_promise_state
  by unfold_locales
    (case_tac x, auto simp: enc_promise_state_def dec_promise_state_def variant_named_def)

interpretation task_state: json_codec enc_task_state dec_task_state
  by unfold_locales
    (case_tac x, auto simp: enc_task_state_def dec_task_state_def variant_named_def)

interpretation settle_state: json_codec enc_settle_state dec_settle_state
  by unfold_locales
    (case_tac x, auto simp: enc_settle_state_def dec_settle_state_def variant_named_def)

lemma settled_as_not_pending [simp]: "settled_as s \<noteq> PPending"
  by (cases s) auto

section \<open>Promises\<close>

record promise_value =
  pv_headers :: "(string, string) omap option"
  pv_data :: "string option"

definition default_value :: promise_value where
  "default_value = \<lparr>pv_headers = None, pv_data = None\<rparr>"

definition enc_promise_value :: "promise_value \<Rightarrow> json" where
  "enc_promise_value v =
     jobj (skip_none ''headers'' enc_map (pv_headers v) @ skip_none ''data'' JString (pv_data v))"

definition dec_promise_value :: "json \<Rightarrow> promise_value option" where
  "dec_promise_value j = do {
     fs \<leftarrow> struct_fields [''headers'', ''data''] j;
     h \<leftarrow> field_default fs ''headers'' (dec_option dec_map) None;
     d \<leftarrow> field_default fs ''data'' (dec_option dec_string) None;
     Some \<lparr>pv_headers = h, pv_data = d\<rparr> }"

record promise_record =
  p_id :: string
  p_state :: promise_state
  p_param :: promise_value
  p_value :: promise_value
  p_tags :: tags
  p_timeout_at :: i64
  p_created_at :: i64
  p_settled_at :: "i64 option"

definition promise_fields :: "promise_record \<Rightarrow> (string \<times> json) list" where
  "promise_fields p =
     [(''id'', JString (p_id p)),
      (''state'', enc_promise_state (p_state p)),
      (''param'', enc_promise_value (p_param p)),
      (''value'', enc_promise_value (p_value p)),
      (''tags'', enc_map (p_tags p)),
      (''timeoutAt'', enc_i64 (p_timeout_at p)),
      (''createdAt'', enc_i64 (p_created_at p))]
     @ skip_none ''settledAt'' enc_i64 (p_settled_at p)"

definition enc_promise :: "promise_record \<Rightarrow> json" where
  "enc_promise p = jobj (promise_fields p)"

definition read_promise :: "(string \<Rightarrow> json option) \<Rightarrow> promise_record option" where
  "read_promise fs = do {
     i \<leftarrow> field fs ''id'' dec_string;
     st \<leftarrow> field fs ''state'' dec_promise_state;
     pa \<leftarrow> field_default fs ''param'' dec_promise_value default_value;
     v \<leftarrow> field_default fs ''value'' dec_promise_value default_value;
     tg \<leftarrow> field_default fs ''tags'' dec_map om_empty;
     tm \<leftarrow> field fs ''timeoutAt'' dec_i64;
     cr \<leftarrow> field fs ''createdAt'' dec_i64;
     se \<leftarrow> field_default fs ''settledAt'' (dec_option dec_i64) None;
     Some \<lparr>p_id = i, p_state = st, p_param = pa, p_value = v, p_tags = tg,
       p_timeout_at = tm, p_created_at = cr, p_settled_at = se\<rparr> }"

definition dec_promise :: "json \<Rightarrow> promise_record option" where
  "dec_promise j = Option.bind (struct_fields
     [''id'', ''state'', ''param'', ''value'', ''tags'', ''timeoutAt'', ''createdAt'', ''settledAt''] j)
     read_promise"

text \<open>\<open>StoredPromise\<close>: the wire record, flattened, with the registrations against it.\<close>

record stored_promise =
  sp_record :: promise_record
  sp_callbacks :: "string list"
  sp_listeners :: "string list"

definition enc_stored_promise :: "stored_promise \<Rightarrow> json" where
  "enc_stored_promise s =
     jobj (promise_fields (sp_record s)
       @ [(''callbacks'', enc_list JString (sp_callbacks s)),
          (''listeners'', enc_list JString (sp_listeners s))])"

definition dec_stored_promise :: "json \<Rightarrow> stored_promise option" where
  "dec_stored_promise j = do {
     fs \<leftarrow> flat_fields j;
     r \<leftarrow> read_promise fs;
     c \<leftarrow> field_default fs ''callbacks'' (dec_list dec_string) [];
     l \<leftarrow> field_default fs ''listeners'' (dec_list dec_string) [];
     Some \<lparr>sp_record = r, sp_callbacks = c, sp_listeners = l\<rparr> }"

interpretation promise_value: json_codec enc_promise_value dec_promise_value
  by unfold_locales
    (auto simp: enc_promise_value_def dec_promise_value_def field_default_def codec)

lemmas field_defs = field_def field_default_def null_default_def

lemmas record_codec [codec] =
  promise_state.dec_enc task_state.dec_enc settle_state.dec_enc promise_value.dec_enc

interpretation promise: json_codec enc_promise dec_promise
  by unfold_locales
    (auto simp: enc_promise_def dec_promise_def promise_fields_def read_promise_def field_defs codec)

interpretation stored_promise: json_codec enc_stored_promise dec_stored_promise
  by unfold_locales
    (auto simp: enc_stored_promise_def dec_stored_promise_def promise_fields_def read_promise_def
      field_defs codec)

section \<open>The tag rules\<close>

definition is_pending :: "promise_record \<Rightarrow> bool" where
  "is_pending p \<longleftrightarrow> p_state p = PPending"

definition target :: "promise_record \<Rightarrow> string option" where
  "target p = om_get (p_tags p) TAG_TARGET"

definition is_timer :: "promise_record \<Rightarrow> bool" where
  "is_timer p \<longleftrightarrow> om_get (p_tags p) TAG_TIMER = Some ''true''"

definition timeout_state :: "promise_record \<Rightarrow> promise_state" where
  "timeout_state p = (if is_timer p then PResolved else PRejectedTimedout)"

definition is_external :: "promise_record \<Rightarrow> bool" where
  "is_external p \<longleftrightarrow>
     om_get (p_tags p) TAG_SCOPE = Some ''global''
     \<or> om_get (p_tags p) TAG_EXTERNAL = Some ''true''
     \<or> om_get (p_tags p) TAG_TARGET \<noteq> None
     \<or> is_timer p"

text \<open>The part of a promise id before its first colon.\<close>

definition origin_of :: "string \<Rightarrow> string" where
  "origin_of i = (case split_once CHR '':'' i of None \<Rightarrow> i | Some (origin, _) \<Rightarrow> origin)"

lemma timeout_state_not_pending [simp]: "timeout_state p \<noteq> PPending" "PPending \<noteq> timeout_state p"
  by (simp_all add: timeout_state_def)

lemma targeted_external: "target p \<noteq> None \<Longrightarrow> is_external p"
  by (simp add: target_def is_external_def)

lemma origin_no_colon: "CHR '':'' \<notin> set (origin_of i)"
  by (auto simp: origin_of_def split_once_Some split: option.split)

lemma origin_of_no_colon [simp]: "CHR '':'' \<notin> set i \<Longrightarrow> origin_of i = i"
  by (auto simp: origin_of_def split_once_Some split: option.split)

lemma origin_of_colon [simp]: "CHR '':'' \<notin> set a \<Longrightarrow> origin_of (a @ CHR '':'' # b) = a"
  using split_once_Some [of "CHR '':''" "a @ CHR '':'' # b" a b] by (simp add: origin_of_def)

section \<open>Tasks\<close>

record task_record =
  tr_id :: string
  tr_state :: task_state
  tr_version :: i64
  tr_resumes :: i64
  tr_ttl :: "i64 option"
  tr_pid :: "string option"

definition enc_task_record :: "task_record \<Rightarrow> json" where
  "enc_task_record r =
     jobj ([(''id'', JString (tr_id r)),
            (''state'', enc_task_state (tr_state r)),
            (''version'', enc_i64 (tr_version r)),
            (''resumes'', enc_i64 (tr_resumes r))]
           @ skip_none ''ttl'' enc_i64 (tr_ttl r)
           @ skip_none ''pid'' JString (tr_pid r))"

definition dec_task_record :: "json \<Rightarrow> task_record option" where
  "dec_task_record j = do {
     fs \<leftarrow> struct_fields [''id'', ''state'', ''version'', ''resumes'', ''ttl'', ''pid''] j;
     i \<leftarrow> field fs ''id'' dec_string;
     st \<leftarrow> field fs ''state'' dec_task_state;
     v \<leftarrow> field fs ''version'' dec_i64;
     re \<leftarrow> field fs ''resumes'' dec_i64;
     tt \<leftarrow> field_default fs ''ttl'' (dec_option dec_i64) None;
     pi \<leftarrow> field_default fs ''pid'' (dec_option dec_string) None;
     Some \<lparr>tr_id = i, tr_state = st, tr_version = v, tr_resumes = re, tr_ttl = tt, tr_pid = pi\<rparr> }"

record stored_task =
  t_id :: string
  t_state :: task_state
  t_version :: i64
  t_target :: string
  t_job :: "string option"
  t_pid :: "string option"
  t_ttl :: "i64 option"
  t_resumes :: "string oset"

definition enc_task :: "stored_task \<Rightarrow> json" where
  "enc_task t =
     jobj [(''id'', JString (t_id t)),
           (''state'', enc_task_state (t_state t)),
           (''version'', enc_i64 (t_version t)),
           (''target'', JString (t_target t)),
           (''job'', enc_option JString (t_job t)),
           (''pid'', enc_option JString (t_pid t)),
           (''ttl'', enc_option enc_i64 (t_ttl t)),
           (''resumes'', enc_set (t_resumes t))]"

definition dec_task :: "json \<Rightarrow> stored_task option" where
  "dec_task j = do {
     fs \<leftarrow> struct_fields
       [''id'', ''state'', ''version'', ''target'', ''job'', ''pid'', ''ttl'', ''resumes''] j;
     i \<leftarrow> field fs ''id'' dec_string;
     st \<leftarrow> field fs ''state'' dec_task_state;
     v \<leftarrow> field fs ''version'' dec_i64;
     tg \<leftarrow> field fs ''target'' dec_string;
     jb \<leftarrow> field_default fs ''job'' (dec_option dec_string) None;
     pi \<leftarrow> field_default fs ''pid'' (dec_option dec_string) None;
     tt \<leftarrow> field_default fs ''ttl'' (dec_option dec_i64) None;
     re \<leftarrow> field_default fs ''resumes'' dec_set om_empty;
     Some \<lparr>t_id = i, t_state = st, t_version = v, t_target = tg, t_job = jb, t_pid = pi,
       t_ttl = tt, t_resumes = re\<rparr> }"

interpretation task_record: json_codec enc_task_record dec_task_record
  by unfold_locales (auto simp: enc_task_record_def dec_task_record_def field_defs codec)

interpretation task: json_codec enc_task dec_task
  by unfold_locales (auto simp: enc_task_def dec_task_def field_defs codec)

definition new_task :: "string \<Rightarrow> string \<Rightarrow> task_state \<Rightarrow> stored_task" where
  "new_task i tgt st =
     \<lparr>t_id = i, t_state = st, t_version = 0, t_target = tgt, t_job = None, t_pid = None,
      t_ttl = None, t_resumes = om_empty\<rparr>"

text \<open>The wire form, with \<open>resumes.len() as i64\<close>.\<close>

definition task_wire :: "stored_task \<Rightarrow> task_record" where
  "task_wire t =
     \<lparr>tr_id = t_id t, tr_state = t_state t, tr_version = t_version t,
      tr_resumes = word_of_int (int (os_size (t_resumes t))), tr_ttl = t_ttl t, tr_pid = t_pid t\<rparr>"

definition is_acquired_at :: "stored_task \<Rightarrow> i64 \<Rightarrow> bool" where
  "is_acquired_at t v \<longleftrightarrow> t_state t = TAcquired \<and> t_version t = v"

definition transition :: "stored_task \<Rightarrow> task_state \<Rightarrow> stored_task" where
  "transition t st = t\<lparr>t_state := st, t_pid := None, t_ttl := None\<rparr>"

lemma transition_simps [simp]:
  "t_id (transition t st) = t_id t"
  "t_state (transition t st) = st"
  "t_version (transition t st) = t_version t"
  "t_target (transition t st) = t_target t"
  "t_job (transition t st) = t_job t"
  "t_pid (transition t st) = None"
  "t_ttl (transition t st) = None"
  "t_resumes (transition t st) = t_resumes t"
  by (simp_all add: transition_def)

lemma new_task_simps [simp]:
  "t_id (new_task i tgt st) = i"
  "t_state (new_task i tgt st) = st"
  "t_version (new_task i tgt st) = 0"
  "t_target (new_task i tgt st) = tgt"
  "t_job (new_task i tgt st) = None"
  "t_pid (new_task i tgt st) = None"
  "t_ttl (new_task i tgt st) = None"
  "t_resumes (new_task i tgt st) = om_empty"
  by (simp_all add: new_task_def)

section \<open>Schedules\<close>

record schedule_record =
  s_id :: string
  s_cron :: string
  s_promise_id :: string
  s_promise_timeout :: i64
  s_promise_param :: promise_value
  s_promise_tags :: tags
  s_created_at :: i64
  s_next_run_at :: i64
  s_last_run_at :: "i64 option"

definition enc_schedule :: "schedule_record \<Rightarrow> json" where
  "enc_schedule s =
     jobj ([(''id'', JString (s_id s)),
            (''cron'', JString (s_cron s)),
            (''promiseId'', JString (s_promise_id s)),
            (''promiseTimeout'', enc_i64 (s_promise_timeout s)),
            (''promiseParam'', enc_promise_value (s_promise_param s)),
            (''promiseTags'', enc_map (s_promise_tags s)),
            (''createdAt'', enc_i64 (s_created_at s)),
            (''nextRunAt'', enc_i64 (s_next_run_at s))]
           @ skip_none ''lastRunAt'' enc_i64 (s_last_run_at s))"

definition dec_schedule :: "json \<Rightarrow> schedule_record option" where
  "dec_schedule j = do {
     fs \<leftarrow> struct_fields
       [''id'', ''cron'', ''promiseId'', ''promiseTimeout'', ''promiseParam'', ''promiseTags'',
        ''createdAt'', ''nextRunAt'', ''lastRunAt''] j;
     i \<leftarrow> field fs ''id'' dec_string;
     c \<leftarrow> field fs ''cron'' dec_string;
     pi \<leftarrow> field fs ''promiseId'' dec_string;
     pt \<leftarrow> field fs ''promiseTimeout'' dec_i64;
     pp \<leftarrow> field_default fs ''promiseParam'' dec_promise_value default_value;
     tg \<leftarrow> field_default fs ''promiseTags'' dec_map om_empty;
     cr \<leftarrow> field fs ''createdAt'' dec_i64;
     nx \<leftarrow> field fs ''nextRunAt'' dec_i64;
     la \<leftarrow> field_default fs ''lastRunAt'' (dec_option dec_i64) None;
     Some \<lparr>s_id = i, s_cron = c, s_promise_id = pi, s_promise_timeout = pt, s_promise_param = pp,
       s_promise_tags = tg, s_created_at = cr, s_next_run_at = nx, s_last_run_at = la\<rparr> }"

interpretation schedule: json_codec enc_schedule dec_schedule
  by unfold_locales (auto simp: enc_schedule_def dec_schedule_def field_defs codec)

lemmas stored_codec [codec] =
  promise.dec_enc stored_promise.dec_enc task_record.dec_enc task.dec_enc schedule.dec_enc

end
