(* ===== verification/Taquba.thy ===== *)
theory Taquba
  imports Records
begin

text \<open>
  The code the crate calls and does not contain: the taquba queue, and the functions of
  \<open>url\<close>, \<open>croner\<close>, \<open>chrono\<close>, \<open>sha2\<close> and \<open>serde_json\<close> it uses.  They are the fields of a record
  \<open>env\<close> that is an argument of every definition that calls them; the queue's own state is an
  opaque type \<open>'q\<close>.  What the proofs rely on of the queue is \<open>queue_contract\<close>, a hypothesis of
  the properties that need it.
\<close>

section \<open>Values, claims and effects\<close>

text \<open>
  The bytes of an entry or a payload: a document stands for its own JSON text, anything else is
  kept as bytes.
\<close>

datatype blob = Doc json | Raw bytes

text \<open>
  A claimed job.  The code reads its queue, id and payload; \<open>c_rest\<close> stands for the rest of the
  struct, so that two claims of one job need not be equal.
\<close>

record claim =
  c_queue :: string
  c_id :: string
  c_payload :: blob
  c_rest :: nat

datatype claim_outcome = Claimed claim | NotClaimable | NotFound

text \<open>An enqueue request with the options the code sets: the job's id and its start time in
  epoch milliseconds.\<close>

record enqueue_request =
  e_queue :: string
  e_payload :: blob
  e_id :: "string option"
  e_run_at :: "nat option"

record effects =
  ef_enqueues :: "enqueue_request list"
  ef_kv_writes :: "(bytes, blob) omap"
  ef_kv_deletes :: "bytes list"

definition no_effects :: effects where
  "no_effects = \<lparr>ef_enqueues = [], ef_kv_writes = om_empty, ef_kv_deletes = []\<rparr>"

section \<open>The environment\<close>

record 'q env =
  \<comment> \<open>\<open>url::Url::parse(..).is_ok()\<close>\<close>
  x_url_parses :: "string \<Rightarrow> bool"
  \<comment> \<open>croner: whether an expression parses, and its next occurrence strictly after a time\<close>
  x_cron_parses :: "string \<Rightarrow> bool"
  x_cron_next :: "string \<Rightarrow> i64 \<Rightarrow> i64 option"
  \<comment> \<open>chrono: whether \<open>from_timestamp_millis\<close> yields a time\<close>
  x_timestamp_ok :: "i64 \<Rightarrow> bool"
  \<comment> \<open>sha2, and taquba's limit on queue names\<close>
  x_sha256 :: "bytes \<Rightarrow> bytes"
  x_max_queue_name :: nat
  \<comment> \<open>serde_json: parsing and printing text, and the message of a failed conversion to a type\<close>
  x_json_parse :: "string \<Rightarrow> string + json"
  x_json_text :: "json \<Rightarrow> string"
  x_serde_error :: "string \<Rightarrow> json \<Rightarrow> string"
  \<comment> \<open>the text of a queue error\<close>
  x_queue_error_text :: "queue_error \<Rightarrow> string"
  \<comment> \<open>the clock, the key-value namespace and the job records of the queue\<close>
  q_now_ms :: "'q \<Rightarrow> nat"
  q_kv_get :: "'q \<Rightarrow> bytes \<Rightarrow> queue_error + blob option"
  q_kv_entries :: "'q \<Rightarrow> bytes \<Rightarrow> (queue_error + bytes \<times> blob) list"
  q_job_record :: "'q \<Rightarrow> string \<Rightarrow> queue_error + blob option"
  \<comment> \<open>leases and claims\<close>
  q_next_job_id :: "'q \<Rightarrow> string \<times> 'q"
  q_lease_expiry :: "'q \<Rightarrow> string \<Rightarrow> string \<Rightarrow> nat option"
  q_renew_lease :: "'q \<Rightarrow> claim \<Rightarrow> nat \<Rightarrow> (queue_error + unit) \<times> 'q"
  q_claim_by_id :: "'q \<Rightarrow> string \<Rightarrow> nat \<Rightarrow> (queue_error + claim_outcome) \<times> 'q"
  q_claim :: "'q \<Rightarrow> string \<Rightarrow> nat \<Rightarrow> (queue_error + claim option) \<times> 'q"
  \<comment> \<open>transactions and settlements\<close>
  q_commit_effects :: "'q \<Rightarrow> effects \<Rightarrow> (queue_error + unit) \<times> 'q"
  q_ack_with :: "'q \<Rightarrow> claim \<Rightarrow> effects \<Rightarrow> (queue_error + unit) \<times> 'q"
  q_ack :: "'q \<Rightarrow> claim \<Rightarrow> (queue_error + unit) \<times> 'q"
  q_nack :: "'q \<Rightarrow> claim \<Rightarrow> string \<Rightarrow> (queue_error + unit) \<times> 'q"

section \<open>The contract of the queue\<close>

text \<open>
  \<open>kv q\<close> is the content of the key-value namespace in the queue state \<open>q\<close>.  A read that
  succeeds returns it; a stream yields the entries of a prefix in ascending key order and may
  end with an error; a settlement's effects are applied all together or not at all, and all of
  them when it reports success and none when it reports a lost claim; everything else leaves
  the namespace alone.
\<close>

type_synonym store = "bytes \<Rightarrow> blob option"

definition apply_effects :: "effects \<Rightarrow> store \<Rightarrow> store" where
  "apply_effects ef V k =
     (if k \<in> set (ef_kv_deletes ef) then None
      else case om_get (ef_kv_writes ef) k of Some v \<Rightarrow> Some v | None \<Rightarrow> V k)"

definition lists_prefix :: "store \<Rightarrow> bytes \<Rightarrow> (bytes \<times> blob) list \<Rightarrow> bool" where
  "lists_prefix V p kvs \<longleftrightarrow>
     sorted_wrt (<) (map fst kvs) \<and> (\<forall>k v. (k, v) \<in> set kvs \<longleftrightarrow> prefix p k \<and> V k = Some v)"

definition reads_ok :: "('q, 'x) env_scheme \<Rightarrow> ('q \<Rightarrow> store) \<Rightarrow> bool" where
  "reads_ok E kv \<longleftrightarrow>
     (\<forall>q k v. q_kv_get E q k = Inr v \<longrightarrow> v = kv q k)
     \<and> (\<forall>q p. \<exists>kvs. lists_prefix (kv q) p kvs \<and>
          (q_kv_entries E q p = map Inr kvs
           \<or> (\<exists>n e. q_kv_entries E q p = map Inr (take n kvs) @ [Inl e])))"

definition settles_ok :: "('q, 'x) env_scheme \<Rightarrow> ('q \<Rightarrow> store) \<Rightarrow> bool" where
  "settles_ok E kv \<longleftrightarrow>
     (\<forall>q ef q'. q_commit_effects E q ef = (Inr (), q') \<longrightarrow> kv q' = apply_effects ef (kv q))
     \<and> (\<forall>q ef e q'. q_commit_effects E q ef = (Inl e, q') \<longrightarrow>
          kv q' = kv q \<or> kv q' = apply_effects ef (kv q))
     \<and> (\<forall>q c ef q'. q_ack_with E q c ef = (Inr (), q') \<longrightarrow> kv q' = apply_effects ef (kv q))
     \<and> (\<forall>q c ef e q'. q_ack_with E q c ef = (Inl e, q') \<longrightarrow>
          kv q' = kv q \<or> e \<noteq> ClaimLost \<and> kv q' = apply_effects ef (kv q))"

definition claims_ok :: "('q, 'x) env_scheme \<Rightarrow> ('q \<Rightarrow> store) \<Rightarrow> bool" where
  "claims_ok E kv \<longleftrightarrow>
     (\<forall>q. kv (snd (q_next_job_id E q)) = kv q)
     \<and> (\<forall>q c l. kv (snd (q_renew_lease E q c l)) = kv q)
     \<and> (\<forall>q j l. kv (snd (q_claim_by_id E q j l)) = kv q)
     \<and> (\<forall>q n l. kv (snd (q_claim E q n l)) = kv q)
     \<and> (\<forall>q c. kv (snd (q_ack E q c)) = kv q)
     \<and> (\<forall>q c m. kv (snd (q_nack E q c m)) = kv q)"

definition queue_contract :: "('q, 'x) env_scheme \<Rightarrow> ('q \<Rightarrow> store) \<Rightarrow> bool" where
  "queue_contract E kv \<longleftrightarrow> reads_ok E kv \<and> settles_ok E kv \<and> claims_ok E kv"

lemma contract_get: "queue_contract E kv \<Longrightarrow> q_kv_get E q k = Inr v \<Longrightarrow> v = kv q k"
  by (simp add: queue_contract_def reads_ok_def)

lemma contract_entries:
  assumes "queue_contract E kv"
  obtains kvs where "lists_prefix (kv q) p kvs"
    and "q_kv_entries E q p = map Inr kvs \<or> (\<exists>n e. q_kv_entries E q p = map Inr (take n kvs) @ [Inl e])"
  using assms unfolding queue_contract_def reads_ok_def by blast

lemma contract_claims [simp]:
  assumes "queue_contract E kv"
  shows "q_next_job_id E q = (j, q1) \<Longrightarrow> kv q1 = kv q"
    and "q_renew_lease E q c l = (r2, q2) \<Longrightarrow> kv q2 = kv q"
    and "q_claim_by_id E q i l = (r3, q3) \<Longrightarrow> kv q3 = kv q"
    and "q_claim E q n l = (r4, q4) \<Longrightarrow> kv q4 = kv q"
    and "q_ack E q c = (r5, q5) \<Longrightarrow> kv q5 = kv q"
    and "q_nack E q c m = (r6, q6) \<Longrightarrow> kv q6 = kv q"
  using assms unfolding queue_contract_def claims_ok_def by (metis snd_conv)+

lemma contract_commit:
  assumes "queue_contract E kv" "q_commit_effects E q ef = (r, q')"
  shows "kv q' = kv q \<and> r \<noteq> Inr () \<or> kv q' = apply_effects ef (kv q)"
  using assms unfolding queue_contract_def settles_ok_def by (cases r) auto

lemma contract_ack_with:
  assumes "queue_contract E kv" "q_ack_with E q c ef = (r, q')"
  shows "kv q' = kv q \<and> r \<noteq> Inr () \<or> r \<noteq> Inl ClaimLost \<and> kv q' = apply_effects ef (kv q)"
  using assms unfolding queue_contract_def settles_ok_def by (cases r) auto

lemma lists_prefix_unique: "lists_prefix V p xs \<Longrightarrow> lists_prefix V p ys \<Longrightarrow> xs = ys"
proof -
  assume xs: "lists_prefix V p xs" and ys: "lists_prefix V p ys"
  then have "ascending xs" "ascending ys" and "set xs = set ys"
    by (auto simp: lists_prefix_def ascending_def)
  then show "xs = ys"
    by (intro ascending_unique) (auto simp: ascending_distinct map_of_inject_set)
qed

section \<open>Decoding bytes\<close>

text \<open>\<open>serde_json::from_slice\<close> at a type: the value, or the crate's \<open>Decode\<close> error.\<close>

definition from_slice ::
  "('q, 'x) env_scheme \<Rightarrow> string \<Rightarrow> (json \<Rightarrow> 'a option) \<Rightarrow> blob \<Rightarrow> error + 'a" where
  "from_slice E ty dec b =
     (case (case b of Doc j \<Rightarrow> Inr j | Raw s \<Rightarrow> x_json_parse E s) of
        Inl msg \<Rightarrow> Inl (Decode msg)
      | Inr j \<Rightarrow> (case dec j of Some x \<Rightarrow> Inr x | None \<Rightarrow> Inl (Decode (x_serde_error E ty j))))"

lemma from_slice_enc: "dec (enc x) = Some x \<Longrightarrow> from_slice E ty dec (Doc (enc x)) = Inr x"
  by (simp add: from_slice_def)

end
