(* ===== verification/Keys.thy ===== *)
theory Keys
  imports Taquba
begin

text \<open>
  \<open>src/keys.rs\<close>: the keys of the records within the queue's key-value namespace and the names
  of the queues the crate owns, with what makes them keys: they are injective, keys of
  different kinds differ, the index entries of a branch are those with the branch's prefix,
  and distinct addresses name distinct queues.
\<close>

definition PROMISE_PREFIX :: bytes where "PROMISE_PREFIX = ''resonate/p/''"
definition TASK_PREFIX :: bytes where "TASK_PREFIX = ''resonate/t/''"
definition SCHEDULE_PREFIX :: bytes where "SCHEDULE_PREFIX = ''resonate/s/''"
definition BRANCH_PREFIX :: bytes where "BRANCH_PREFIX = ''resonate/b/''"
definition TIMER_QUEUE :: string where "TIMER_QUEUE = ''resonate.timers''"

section \<open>Record keys\<close>

definition join :: "bytes \<Rightarrow> bytes \<Rightarrow> bytes" where
  "join p i = p @ i"

definition promise_key :: "string \<Rightarrow> bytes" where
  "promise_key i = join PROMISE_PREFIX i"

definition task_key :: "string \<Rightarrow> bytes" where
  "task_key i = join TASK_PREFIX i"

definition schedule_key :: "string \<Rightarrow> bytes" where
  "schedule_key i = join SCHEDULE_PREFIX i"

definition branch_prefix :: "string \<Rightarrow> bytes" where
  "branch_prefix branch = join BRANCH_PREFIX branch @ [CHR 0x00]"

definition branch_key :: "string \<Rightarrow> string \<Rightarrow> bytes" where
  "branch_key branch i = branch_prefix branch @ i"

definition branch_entry_id :: "bytes \<Rightarrow> bytes \<Rightarrow> string option" where
  "branch_entry_id p key =
     Option.bind (strip_prefix p key) (\<lambda>rest. if utf8 rest then Some rest else None)"

lemmas prefix_defs =
  PROMISE_PREFIX_def TASK_PREFIX_def SCHEDULE_PREFIX_def BRANCH_PREFIX_def join_def

lemma key_inject [simp]:
  "promise_key i = promise_key j \<longleftrightarrow> i = j"
  "task_key i = task_key j \<longleftrightarrow> i = j"
  "schedule_key i = schedule_key j \<longleftrightarrow> i = j"
  by (simp_all add: promise_key_def task_key_def schedule_key_def join_def)

lemma key_disjoint [simp]:
  "promise_key i \<noteq> task_key j" "task_key j \<noteq> promise_key i"
  "promise_key i \<noteq> schedule_key j" "schedule_key j \<noteq> promise_key i"
  "task_key i \<noteq> schedule_key j" "schedule_key j \<noteq> task_key i"
  "promise_key i \<noteq> branch_key b j" "branch_key b j \<noteq> promise_key i"
  "task_key i \<noteq> branch_key b j" "branch_key b j \<noteq> task_key i"
  "schedule_key i \<noteq> branch_key b j" "branch_key b j \<noteq> schedule_key i"
  by (simp_all add: promise_key_def task_key_def schedule_key_def branch_key_def branch_prefix_def
      prefix_defs)

text \<open>The order of the keys of one kind is the order of the ids.\<close>

lemma key_less [simp]:
  "promise_key i < promise_key j \<longleftrightarrow> i < j"
  "task_key i < task_key j \<longleftrightarrow> i < j"
  "schedule_key i < schedule_key j \<longleftrightarrow> i < j"
  by (simp_all add: promise_key_def task_key_def schedule_key_def join_def)

lemma prefix_of_key:
  "prefix PROMISE_PREFIX k \<longleftrightarrow> (\<exists>i. k = promise_key i)"
  "prefix TASK_PREFIX k \<longleftrightarrow> (\<exists>i. k = task_key i)"
  "prefix SCHEDULE_PREFIX k \<longleftrightarrow> (\<exists>i. k = schedule_key i)"
  "prefix (branch_prefix b) k \<longleftrightarrow> (\<exists>i. k = branch_key b i)"
  by (auto simp: promise_key_def task_key_def schedule_key_def branch_key_def join_def prefix_def)

lemma branch_entry_id_key [simp]:
  "branch_entry_id (branch_prefix b) (branch_key b i) = (if utf8 i then Some i else None)"
  by (simp add: branch_entry_id_def branch_key_def)

lemma branch_entry_id_Some:
  "branch_entry_id (branch_prefix b) k = Some i \<longleftrightarrow> k = branch_key b i \<and> utf8 i"
  by (auto simp: branch_entry_id_def branch_key_def bind_eq_Some_conv split: if_splits)

text \<open>A branch without null bytes is determined by its index entries.\<close>

lemma branch_key_inject:
  assumes "CHR 0x00 \<notin> set b" "CHR 0x00 \<notin> set b'"
  shows "branch_key b i = branch_key b' i' \<longleftrightarrow> b = b' \<and> i = i'"
proof
  assume "branch_key b i = branch_key b' i'"
  then have "b @ CHR 0x00 # i = b' @ CHR 0x00 # i'"
    by (simp add: branch_key_def branch_prefix_def join_def)
  then show "b = b' \<and> i = i'"
    using assms split_once_Some [of "CHR 0x00"] by (metis Pair_inject option.inject)
qed simp

section \<open>Queue names\<close>

definition ascii_alphanumeric :: "char \<Rightarrow> bool" where
  "ascii_alphanumeric c = (let n = of_char c :: nat in
     48 \<le> n \<and> n \<le> 57 \<or> 65 \<le> n \<and> n \<le> 90 \<or> 97 \<le> n \<and> n \<le> 122)"

definition escape_byte :: "char \<Rightarrow> string" where
  "escape_byte c =
     (if ascii_alphanumeric c \<or> c = CHR ''.'' \<or> c = CHR ''-'' then [c] else CHR ''_'' # byte_upper c)"

definition escaped_name :: "string \<Rightarrow> string" where
  "escaped_name address = ''resonate.a.'' @ concat (map escape_byte address)"

definition digest_name :: "('q, 'x) env_scheme \<Rightarrow> string \<Rightarrow> string" where
  "digest_name E address = ''resonate.h.'' @ concat (map byte_lower (x_sha256 E address))"

definition address_queue :: "('q, 'x) env_scheme \<Rightarrow> string \<Rightarrow> string" where
  "address_queue E address =
     (if length (escaped_name address) \<le> x_max_queue_name E then escaped_name address
      else digest_name E address)"

lemma escape_byte_not_Nil [simp]: "escape_byte c \<noteq> []"
  by (simp add: escape_byte_def)

text \<open>The escape of a byte is a prefix code, so the escape of an address can be read back.\<close>

lemma escape_byte_prefix: "escape_byte c @ s = escape_byte d @ t \<Longrightarrow> c = d \<and> s = t"
proof -
  assume eq: "escape_byte c @ s = escape_byte d @ t"
  have plain: "\<not> (ascii_alphanumeric (CHR ''_'') \<or> CHR ''_'' = CHR ''.'' \<or> CHR ''_'' = CHR ''-'')"
    by code_simp
  show ?thesis
  proof (cases "hd (escape_byte c) = CHR ''_''")
    case True
    moreover have "hd (escape_byte d) = hd (escape_byte c)"
      using eq by (metis escape_byte_not_Nil hd_append2)
    ultimately have "escape_byte c = CHR ''_'' # byte_upper c" "escape_byte d = CHR ''_'' # byte_upper d"
      using plain by (auto simp: escape_byte_def split: if_splits)
    with eq have "byte_upper c @ s = byte_upper d @ t" by simp
    then show ?thesis by (metis append_eq_append_conv byte_upper_inject length_byte_upper)
  next
    case False
    moreover have "hd (escape_byte d) = hd (escape_byte c)"
      using eq by (metis escape_byte_not_Nil hd_append2)
    ultimately have "escape_byte c = [c]" "escape_byte d = [d]"
      by (auto simp: escape_byte_def split: if_splits)
    with eq show ?thesis by simp
  qed
qed

lemma escaped_name_inject [simp]: "escaped_name a = escaped_name b \<longleftrightarrow> a = b"
proof -
  have "concat (map escape_byte a) = concat (map escape_byte b) \<Longrightarrow> a = b"
  proof (induction a arbitrary: b)
    case Nil
    then show ?case by (cases b) auto
  next
    case (Cons c cs)
    then obtain d ds where b: "b = d # ds" by (cases b) auto
    with Cons.prems have "c = d" "concat (map escape_byte cs) = concat (map escape_byte ds)"
      using escape_byte_prefix by auto
    with Cons.IH b show ?case by simp
  qed
  then show ?thesis by (auto simp: escaped_name_def)
qed

lemma names_disjoint [simp]:
  "escaped_name a \<noteq> digest_name E b" "digest_name E b \<noteq> escaped_name a"
  "escaped_name a \<noteq> TIMER_QUEUE" "digest_name E b \<noteq> TIMER_QUEUE"
  by (simp_all add: escaped_name_def digest_name_def TIMER_QUEUE_def)

lemma address_queue_not_timers [simp]: "address_queue E a \<noteq> TIMER_QUEUE"
  by (simp add: address_queue_def)

end
