(* ===== verification/Txn.thy ===== *)
theory Txn
  imports Keys
begin

text \<open>
  \<open>src/txn.rs\<close>: one request's unit of work over the queue.  The state of a transaction is the
  queue, the claims held for tasks, and what the request has produced so far: the buffered
  writes, the jobs to enqueue and the work that follows the commit.  Each operation is the
  method of the same name; the theory \<open>Txn_View\<close> says what the operations do to the records.
\<close>

section \<open>Payloads\<close>

text \<open>\<open>Delivery\<close>: the payload of a job on an address queue.\<close>

datatype delivery = Execute string | Unblock json

definition enc_delivery :: "delivery \<Rightarrow> json" where
  "enc_delivery d = (case d of
     Execute task \<Rightarrow> jobj [(''kind'', JString ''execute''), (''task'', JString task)]
   | Unblock message \<Rightarrow> jobj [(''kind'', JString ''unblock''), (''message'', message)])"

definition dec_delivery :: "json \<Rightarrow> delivery option" where
  "dec_delivery j = do {
     fs \<leftarrow> tagged_fields ''kind'' [(''execute'', [''task'']), (''unblock'', [''message''])] j;
     kind \<leftarrow> field fs ''kind'' dec_string;
     if kind = ''execute'' then map_option Execute (field fs ''task'' dec_string)
     else if kind = ''unblock'' then map_option Unblock (field fs ''message'' dec_value)
     else None }"

text \<open>\<open>Timer\<close> (\<open>src/timers.rs\<close>): the payload of a job on the timer queue.\<close>

datatype timer = PromiseTimeout string | ScheduleAt string i64

definition enc_timer :: "timer \<Rightarrow> json" where
  "enc_timer t = (case t of
     PromiseTimeout i \<Rightarrow> jobj [(''kind'', JString ''promise_timeout''), (''id'', JString i)]
   | ScheduleAt i at \<Rightarrow>
       jobj [(''kind'', JString ''schedule''), (''id'', JString i), (''at'', enc_i64 at)])"

definition dec_timer :: "json \<Rightarrow> timer option" where
  "dec_timer j = do {
     fs \<leftarrow> tagged_fields ''kind'' [(''promise_timeout'', [''id'']), (''schedule'', [''id'', ''at''])] j;
     kind \<leftarrow> field fs ''kind'' dec_string;
     if kind = ''promise_timeout'' then map_option PromiseTimeout (field fs ''id'' dec_string)
     else if kind = ''schedule'' then do {
       i \<leftarrow> field fs ''id'' dec_string; at \<leftarrow> field fs ''at'' dec_i64; Some (ScheduleAt i at) }
     else None }"

interpretation delivery: json_codec enc_delivery dec_delivery
  by unfold_locales
    (auto simp: enc_delivery_def dec_delivery_def field_def dec_value_def codec split: delivery.split)

interpretation timer: json_codec enc_timer dec_timer
  by unfold_locales (auto simp: enc_timer_def dec_timer_def field_def codec split: timer.split)

lemmas payload_codec [codec] = delivery.dec_enc timer.dec_enc

section \<open>The transaction\<close>

type_synonym held = "string \<Rightarrow> claim option"

datatype after =
    Ack claim
  | Hold string claim
  | Release string
  | Nack string
  | ClaimJob string string nat

record 'q txn =
  queue :: 'q
  held :: held
  preload_limit :: nat
  now :: i64
  writes :: "(bytes, blob option) omap"
  enqueues :: "enqueue_request list"
  after :: "after list"

definition new_txn :: "'q \<Rightarrow> held \<Rightarrow> nat \<Rightarrow> i64 \<Rightarrow> 'q txn" where
  "new_txn q h limit time =
     \<lparr>queue = q, held = h, preload_limit = limit, now = time, writes = om_empty, enqueues = [],
      after = []\<rparr>"

text \<open>A call of the queue with \<open>?\<close>: its error is a storage error.\<close>

definition storage :: "queue_error + 'a \<Rightarrow> error + 'a" where
  "storage r = (case r of Inl e \<Rightarrow> Inl (Storage e) | Inr x \<Rightarrow> Inr x)"

definition call :: "('q \<Rightarrow> (queue_error + 'a) \<times> 'q) \<Rightarrow> ('q txn, 'a) tx" where
  "call f = (\<lambda>t. case f (queue t) of (r, q') \<Rightarrow> (storage r, t\<lparr>queue := q'\<rparr>))"

section \<open>Reads and writes of the records\<close>

definition get_raw :: "('q, 'x) env_scheme \<Rightarrow> bytes \<Rightarrow> 'q txn \<Rightarrow> error + blob option" where
  "get_raw E key t =
     (case om_get (writes t) key of
        Some written \<Rightarrow> Inr written
      | None \<Rightarrow> storage (q_kv_get E (queue t) key))"

definition get_json ::
  "('q, 'x) env_scheme \<Rightarrow> string \<Rightarrow> (json \<Rightarrow> 'a option) \<Rightarrow> bytes \<Rightarrow> 'q txn \<Rightarrow> error + 'a option" where
  "get_json E ty dec key t =
     (case get_raw E key t of
        Inl e \<Rightarrow> Inl e
      | Inr None \<Rightarrow> Inr None
      | Inr (Some b) \<Rightarrow> (case from_slice E ty dec b of Inl e \<Rightarrow> Inl e | Inr x \<Rightarrow> Inr (Some x)))"

definition put_json :: "bytes \<Rightarrow> json \<Rightarrow> 'q txn \<Rightarrow> 'q txn" where
  "put_json key j t = t\<lparr>writes := om_insert key (Some (Doc j)) (writes t)\<rparr>"

definition get_promise :: "('q, 'x) env_scheme \<Rightarrow> string \<Rightarrow> ('q txn, stored_promise option) tx" where
  "get_promise E i = reads (get_json E ''StoredPromise'' dec_stored_promise (promise_key i))"

definition put_promise :: "stored_promise \<Rightarrow> ('q txn, unit) tx" where
  "put_promise p = modify (put_json (promise_key (p_id (sp_record p))) (enc_stored_promise p))"

definition index_branch :: "promise_record \<Rightarrow> ('q txn, unit) tx" where
  "index_branch p = (case om_get (p_tags p) TAG_BRANCH of
     None \<Rightarrow> ret ()
   | Some branch \<Rightarrow> modify (\<lambda>t.
       t\<lparr>writes := om_insert (branch_key branch (p_id p)) (Some (Raw [])) (writes t)\<rparr>))"

definition get_task :: "('q, 'x) env_scheme \<Rightarrow> string \<Rightarrow> ('q txn, stored_task option) tx" where
  "get_task E i = reads (get_json E ''StoredTask'' dec_task (task_key i))"

definition put_task :: "stored_task \<Rightarrow> ('q txn, unit) tx" where
  "put_task k = modify (put_json (task_key (t_id k)) (enc_task k))"

definition get_schedule :: "('q, 'x) env_scheme \<Rightarrow> string \<Rightarrow> ('q txn, schedule_record option) tx" where
  "get_schedule E i = reads (get_json E ''ScheduleRecord'' dec_schedule (schedule_key i))"

definition put_schedule :: "schedule_record \<Rightarrow> ('q txn, unit) tx" where
  "put_schedule s = modify (put_json (schedule_key (s_id s)) (enc_schedule s))"

definition delete_schedule :: "string \<Rightarrow> ('q txn, unit) tx" where
  "delete_schedule i = modify (\<lambda>t. t\<lparr>writes := om_insert (schedule_key i) None (writes t)\<rparr>)"

section \<open>Listings\<close>

text \<open>Every committed entry with a prefix, in key order; the first failed read ends the scan.\<close>

fun list_stream ::
  "('q, 'x) env_scheme \<Rightarrow> string \<Rightarrow> (json \<Rightarrow> 'a option) \<Rightarrow> (queue_error + bytes \<times> blob) list \<Rightarrow>
   error + 'a list" where
  "list_stream E ty dec [] = Inr []"
| "list_stream E ty dec (Inl e # rest) = Inl (Storage e)"
| "list_stream E ty dec (Inr (k, b) # rest) =
     (case from_slice E ty dec b of
        Inl e \<Rightarrow> Inl e
      | Inr x \<Rightarrow> (case list_stream E ty dec rest of Inl e \<Rightarrow> Inl e | Inr xs \<Rightarrow> Inr (x # xs)))"

definition list_kind ::
  "('q, 'x) env_scheme \<Rightarrow> string \<Rightarrow> (json \<Rightarrow> 'a option) \<Rightarrow> bytes \<Rightarrow> ('q txn, 'a list) tx" where
  "list_kind E ty dec p = reads (\<lambda>t. list_stream E ty dec (q_kv_entries E (queue t) p))"

definition promises :: "('q, 'x) env_scheme \<Rightarrow> ('q txn, promise_record list) tx" where
  "promises E = bnd (list_kind E ''StoredPromise'' dec_stored_promise PROMISE_PREFIX)
     (\<lambda>stored. ret (map sp_record stored))"

definition tasks :: "('q, 'x) env_scheme \<Rightarrow> ('q txn, stored_task list) tx" where
  "tasks E = list_kind E ''StoredTask'' dec_task TASK_PREFIX"

definition schedules :: "('q, 'x) env_scheme \<Rightarrow> ('q txn, schedule_record list) tx" where
  "schedules E = list_kind E ''ScheduleRecord'' dec_schedule SCHEDULE_PREFIX"

text \<open>
  \<open>preload\<close>: the scan of the committed index stops once it has more than \<open>limit\<close> ids, the
  index entries written by this request are merged in, and the ids are sorted and cut.
\<close>

fun scan_branch ::
  "bytes \<Rightarrow> string \<Rightarrow> nat \<Rightarrow> (queue_error + bytes \<times> blob) list \<Rightarrow> string list \<Rightarrow>
   error + string list" where
  "scan_branch p own limit [] ids = Inr ids"
| "scan_branch p own limit (Inl e # rest) ids = Inl (Storage e)"
| "scan_branch p own limit (Inr (key, _) # rest) ids =
     (case branch_entry_id p key of
        None \<Rightarrow> scan_branch p own limit rest ids
      | Some i \<Rightarrow>
          (let ids' = (if i \<noteq> own then ids @ [i] else ids)
           in if length ids' > limit then Inr ids' else scan_branch p own limit rest ids'))"

fun scan_writes ::
  "bytes \<Rightarrow> string \<Rightarrow> (bytes \<times> blob option) list \<Rightarrow> string list \<Rightarrow> string list" where
  "scan_writes p own [] ids = ids"
| "scan_writes p own ((key, value) # rest) ids =
     (if \<not> starts_with key p then ids
      else scan_writes p own rest
        (case value of
           None \<Rightarrow> ids
         | Some _ \<Rightarrow> (case branch_entry_id p key of
             None \<Rightarrow> ids
           | Some i \<Rightarrow> if i \<noteq> own \<and> i \<notin> set ids then ids @ [i] else ids)))"

fun load_records ::
  "('q, 'x) env_scheme \<Rightarrow> string list \<Rightarrow> ('q txn, promise_record list) tx" where
  "load_records E [] = ret []"
| "load_records E (i # rest) =
     bnd (get_promise E i) (\<lambda>sibling.
     bnd (load_records E rest) (\<lambda>records.
     ret (case sibling of None \<Rightarrow> records | Some s \<Rightarrow> sp_record s # records)))"

definition preload_ids ::
  "('q, 'x) env_scheme \<Rightarrow> string \<Rightarrow> string \<Rightarrow> 'q txn \<Rightarrow> error + string list" where
  "preload_ids E branch own t =
     (let p = branch_prefix branch in
      case scan_branch p own (preload_limit t) (q_kv_entries E (queue t) p) [] of
        Inl e \<Rightarrow> Inl e
      | Inr ids \<Rightarrow>
          Inr (take (preload_limit t) (sort
            (scan_writes p own (dropWhile (\<lambda>(k, v). k < p) (entries (writes t))) ids))))"

definition preload ::
  "('q, 'x) env_scheme \<Rightarrow> promise_record \<Rightarrow> ('q txn, promise_record list) tx" where
  "preload E p = (case om_get (p_tags p) TAG_BRANCH of
     None \<Rightarrow> ret []
   | Some branch \<Rightarrow> bnd (reads (preload_ids E branch (p_id p))) (load_records E))"

section \<open>Jobs and timers\<close>

definition enqueue :: "enqueue_request \<Rightarrow> ('q txn, unit) tx" where
  "enqueue r = modify (\<lambda>t. t\<lparr>enqueues := enqueues t @ [r]\<rparr>)"

definition send_unblock ::
  "('q, 'x) env_scheme \<Rightarrow> string \<Rightarrow> json \<Rightarrow> ('q txn, unit) tx" where
  "send_unblock E address message =
     enqueue \<lparr>e_queue = address_queue E address, e_payload = Doc (enc_delivery (Unblock message)),
       e_id = None, e_run_at = None\<rparr>"

text \<open>\<open>dispatch\<close> returns the task with its new job, which the method writes into its argument.\<close>

definition execute_request ::
  "('q, 'x) env_scheme \<Rightarrow> stored_task \<Rightarrow> string \<Rightarrow> i64 option \<Rightarrow> enqueue_request" where
  "execute_request E task job run_at =
     \<lparr>e_queue = address_queue E (t_target task), e_payload = Doc (enc_delivery (Execute (t_id task))),
      e_id = Some job, e_run_at = map_option millis run_at\<rparr>"

definition dispatch ::
  "('q, 'x) env_scheme \<Rightarrow> stored_task \<Rightarrow> i64 option \<Rightarrow> ('q txn, stored_task) tx" where
  "dispatch E task run_at =
     bnd (\<lambda>t. case q_next_job_id E (queue t) of (job, q') \<Rightarrow> (Inr job, t\<lparr>queue := q'\<rparr>)) (\<lambda>job.
     let task' = task\<lparr>t_job := Some job\<rparr> in
     andthen (put_task task') (
     andthen (enqueue (execute_request E task' job run_at)) (
     ret task')))"

definition timer_request :: "timer \<Rightarrow> i64 \<Rightarrow> enqueue_request" where
  "timer_request tm at =
     \<lparr>e_queue = TIMER_QUEUE, e_payload = Doc (enc_timer tm), e_id = None, e_run_at = Some (millis at)\<rparr>"

definition schedule_timer :: "timer \<Rightarrow> i64 \<Rightarrow> ('q txn, unit) tx" where
  "schedule_timer tm at = enqueue (timer_request tm at)"

section \<open>Held claims\<close>

definition live :: "('q, 'x) env_scheme \<Rightarrow> 'q txn \<Rightarrow> claim \<Rightarrow> bool" where
  "live E t c = (case q_lease_expiry E (queue t) (c_queue c) (c_id c) of
     None \<Rightarrow> False
   | Some expiry \<Rightarrow> lt64 (now t) (clamp_i64 expiry))"

definition drop_claim :: "string \<Rightarrow> 'q txn \<Rightarrow> 'q txn" where
  "drop_claim task t = t\<lparr>held := (held t)(task := None)\<rparr>"

definition hold_claim :: "string \<Rightarrow> claim \<Rightarrow> 'q txn \<Rightarrow> 'q txn" where
  "hold_claim task c t = t\<lparr>held := (held t)(task \<mapsto> c)\<rparr>"

definition holds :: "('q, 'x) env_scheme \<Rightarrow> string \<Rightarrow> ('q txn, bool) tx" where
  "holds E task = (\<lambda>t. case held t task of
     Some c \<Rightarrow> if live E t c then (Inr True, t) else (Inr False, drop_claim task t)
   | None \<Rightarrow> (Inr False, t))"

definition renew :: "('q, 'x) env_scheme \<Rightarrow> string \<Rightarrow> nat \<Rightarrow> ('q txn, bool) tx" where
  "renew E task lease =
     bnd (holds E task) (\<lambda>h.
     if \<not> h then ret False
     else (\<lambda>t. case held t task of
       None \<Rightarrow> (Inl (Panic ''no entry found for key''), t)
     | Some c \<Rightarrow> (case q_renew_lease E (queue t) c lease of
         (Inr _, q') \<Rightarrow> (Inr True, t\<lparr>queue := q'\<rparr>)
       | (Inl _, q') \<Rightarrow> (Inr False, drop_claim task (t\<lparr>queue := q'\<rparr>)))))"

definition claim_job :: "('q, 'x) env_scheme \<Rightarrow> string \<Rightarrow> string \<Rightarrow> nat \<Rightarrow> ('q txn, bool) tx" where
  "claim_job E task job lease =
     bnd (call (\<lambda>q. q_claim_by_id E q job lease)) (\<lambda>outcome.
     case outcome of
       Claimed c \<Rightarrow> andthen (modify (hold_claim task c)) (ret True)
     | NotClaimable \<Rightarrow> ret False
     | NotFound \<Rightarrow> ret False)"

definition job_exists :: "('q, 'x) env_scheme \<Rightarrow> string \<Rightarrow> ('q txn, bool) tx" where
  "job_exists E i =
     bnd (reads (\<lambda>t. storage (q_job_record E (queue t) i))) (\<lambda>record. ret (record \<noteq> None))"

definition add_after :: "after \<Rightarrow> ('q txn, unit) tx" where
  "add_after a = modify (\<lambda>t. t\<lparr>after := after t @ [a]\<rparr>)"

definition ack_after_commit :: "claim \<Rightarrow> ('q txn, unit) tx" where
  "ack_after_commit c = add_after (Ack c)"

definition hold_after_commit :: "string \<Rightarrow> claim \<Rightarrow> ('q txn, unit) tx" where
  "hold_after_commit task c = add_after (Hold task c)"

definition release :: "string \<Rightarrow> ('q txn, unit) tx" where
  "release task = add_after (Release task)"

definition nack_after_commit :: "string \<Rightarrow> ('q txn, unit) tx" where
  "nack_after_commit task = add_after (Nack task)"

definition claim_after_commit :: "stored_task \<Rightarrow> nat \<Rightarrow> ('q txn, unit) tx" where
  "claim_after_commit task lease =
     bnd (expect ''a dispatched task has a job'' (t_job task)) (\<lambda>job.
     add_after (ClaimJob (t_id task) job lease))"

section \<open>Commit\<close>

text \<open>The settlement effects of the buffered writes and enqueues, which are taken.\<close>

definition effects_of :: "'q txn \<Rightarrow> effects" where
  "effects_of t =
     \<lparr>ef_enqueues = enqueues t,
      ef_kv_writes = om_of_list (List.map_filter (\<lambda>(k, v). map_option (Pair k) v) (entries (writes t))),
      ef_kv_deletes = map fst (filter (\<lambda>(k, v). v = None) (entries (writes t)))\<rparr>"

definition take_effects :: "('q txn, effects) tx" where
  "take_effects = (\<lambda>t. (Inr (effects_of t), t\<lparr>writes := om_empty, enqueues := []\<rparr>))"

text \<open>A settlement that reports a lost claim has had its effect.\<close>

definition settle_claim :: "('q \<Rightarrow> (queue_error + unit) \<times> 'q) \<Rightarrow> ('q txn, unit) tx" where
  "settle_claim f = (\<lambda>t. case f (queue t) of (r, q') \<Rightarrow>
     (case r of Inl e \<Rightarrow> if e = ClaimLost then Inr () else Inl (Storage e) | Inr _ \<Rightarrow> Inr (),
      t\<lparr>queue := q'\<rparr>))"

definition take_held :: "string \<Rightarrow> ('q txn, claim option) tx" where
  "take_held task = (\<lambda>t. (Inr (held t task), drop_claim task t))"

fun finish_one :: "('q, 'x) env_scheme \<Rightarrow> after \<Rightarrow> ('q txn, unit) tx" where
  "finish_one E (Ack c) = settle_claim (\<lambda>q. q_ack E q c)"
| "finish_one E (Hold task c) = modify (hold_claim task c)"
| "finish_one E (Release task) = bnd (take_held task) (\<lambda>c. case c of
     Some c \<Rightarrow> settle_claim (\<lambda>q. q_ack E q c) | None \<Rightarrow> ret ())"
| "finish_one E (Nack task) = bnd (take_held task) (\<lambda>c. case c of
     Some c \<Rightarrow> settle_claim (\<lambda>q. q_nack E q c ''released'') | None \<Rightarrow> ret ())"
| "finish_one E (ClaimJob task job lease) =
     bnd (call (\<lambda>q. q_claim_by_id E q job lease)) (\<lambda>outcome. case outcome of
       Claimed c \<Rightarrow> modify (hold_claim task c)
     | NotClaimable \<Rightarrow> ret ()
     | NotFound \<Rightarrow> ret ())"

definition finish :: "('q, 'x) env_scheme \<Rightarrow> ('q txn, unit) tx" where
  "finish E = (\<lambda>t. for_each (finish_one E) (after t) (t\<lparr>after := []\<rparr>))"

definition commit :: "('q, 'x) env_scheme \<Rightarrow> ('q txn, unit) tx" where
  "commit E =
     bnd take_effects (\<lambda>ef.
     andthen
       (if ef_enqueues ef \<noteq> [] \<or> ef_kv_writes ef \<noteq> om_empty \<or> ef_kv_deletes ef \<noteq> []
        then call (\<lambda>q. q_commit_effects E q ef) else ret ())
       (finish E))"

definition commit_ack :: "('q, 'x) env_scheme \<Rightarrow> string \<Rightarrow> ('q txn, unit) tx" where
  "commit_ack E task =
     bnd (holds E task) (\<lambda>h.
     if \<not> h then fail (Storage ClaimLost)
     else bnd take_effects (\<lambda>ef t.
       case held t task of
         None \<Rightarrow> (Inl (Panic ''no entry found for key''), t)
       | Some c \<Rightarrow> (case q_ack_with E (queue t) c ef of
           (Inr _, q') \<Rightarrow> finish E (drop_claim task (t\<lparr>queue := q'\<rparr>))
         | (Inl e, q') \<Rightarrow>
             if e = ClaimLost then (Inl (Storage ClaimLost), drop_claim task (t\<lparr>queue := q'\<rparr>))
             else (Inl (Storage e), t\<lparr>queue := q'\<rparr>))))"

end
