(* ===== verification/Txn_View.thy ===== *)
theory Txn_View
  imports Txn
begin

text \<open>
  What a transaction's operations do to the records.  The view of a transaction is the content
  of the key-value namespace under its buffered writes: a read that succeeds returns the view,
  a put changes it at one key, and a commit makes it the content of the queue.  One locale
  states what a kind of record needs of its key and its codec; its three interpretations give
  the lemmas for promises, tasks and schedules.
\<close>

section \<open>Records in a store\<close>

definition record_at ::
  "('q, 'x) env_scheme \<Rightarrow> string \<Rightarrow> (json \<Rightarrow> 'a option) \<Rightarrow> (string \<Rightarrow> bytes) \<Rightarrow> store \<Rightarrow> string \<Rightarrow> 'a option"
  where
  "record_at E ty dec key V i = (case V (key i) of
     None \<Rightarrow> None
   | Some b \<Rightarrow> (case from_slice E ty dec b of Inl _ \<Rightarrow> None | Inr x \<Rightarrow> Some x))"

definition promise_in :: "('q, 'x) env_scheme \<Rightarrow> store \<Rightarrow> string \<Rightarrow> stored_promise option" where
  "promise_in E = record_at E ''StoredPromise'' dec_stored_promise promise_key"

definition task_in :: "('q, 'x) env_scheme \<Rightarrow> store \<Rightarrow> string \<Rightarrow> stored_task option" where
  "task_in E = record_at E ''StoredTask'' dec_task task_key"

definition schedule_in :: "('q, 'x) env_scheme \<Rightarrow> store \<Rightarrow> string \<Rightarrow> schedule_record option" where
  "schedule_in E = record_at E ''ScheduleRecord'' dec_schedule schedule_key"

text \<open>Every entry of the three kinds decodes.\<close>

definition readable :: "('q, 'x) env_scheme \<Rightarrow> store \<Rightarrow> bool" where
  "readable E V \<longleftrightarrow> (\<forall>i.
     (V (promise_key i) \<noteq> None \<longrightarrow> promise_in E V i \<noteq> None)
     \<and> (V (task_key i) \<noteq> None \<longrightarrow> task_in E V i \<noteq> None)
     \<and> (V (schedule_key i) \<noteq> None \<longrightarrow> schedule_in E V i \<noteq> None))"

definition view :: "('q \<Rightarrow> store) \<Rightarrow> 'q txn \<Rightarrow> store" where
  "view kv t k = (case om_get (writes t) k of Some w \<Rightarrow> w | None \<Rightarrow> kv (queue t) k)"

text \<open>What no operation before the commit changes.\<close>

definition same_base :: "('q \<Rightarrow> store) \<Rightarrow> 'q txn \<Rightarrow> 'q txn \<Rightarrow> bool" where
  "same_base kv t t' \<longleftrightarrow>
     kv (queue t') = kv (queue t) \<and> now t' = now t \<and> preload_limit t' = preload_limit t"

lemma same_base_refl [simp]: "same_base kv t t"
  by (simp add: same_base_def)

lemma same_base_trans [trans]: "same_base kv t u \<Longrightarrow> same_base kv u v \<Longrightarrow> same_base kv t v"
  by (simp add: same_base_def)

lemma same_base_now: "same_base kv t t' \<Longrightarrow> now t' = now t"
  by (simp add: same_base_def)

section \<open>One kind of record\<close>

text \<open>
  The contract of a kind of record: keys do not collide and what is encoded is read back.  From
  it: a put is seen by the next read of the same id and by no other, and a write at another
  kind's key is not seen at all.
\<close>

locale record_store =
  fixes key :: "string \<Rightarrow> bytes" and enc :: "'a \<Rightarrow> json" and dec :: "json \<Rightarrow> 'a option"
    and rid :: "'a \<Rightarrow> string" and ty :: string
  assumes key_injective: "key i = key j \<longleftrightarrow> i = j"
    and read_back: "dec (enc x) = Some x"
begin

lemma at_put:
  "record_at E ty dec key (V(key (rid x) := Some (Doc (enc x)))) i =
     (if i = rid x then Some x else record_at E ty dec key V i)"
  by (simp add: record_at_def key_injective from_slice_enc read_back)

lemma at_delete:
  "record_at E ty dec key (V(key j := None)) i =
     (if i = j then None else record_at E ty dec key V i)"
  by (simp add: record_at_def key_injective)

lemma at_other: "(\<And>i. k \<noteq> key i) \<Longrightarrow> record_at E ty dec key (V(k := b)) = record_at E ty dec key V"
  by (simp add: record_at_def fun_eq_iff) (metis fun_upd_apply)

text \<open>A read through the write buffer returns the record of the view, or a storage error, or a
  decoding error of an entry that does not decode.\<close>

lemma get_json_view:
  assumes "queue_contract E kv" "get_json E ty dec (key i) t = r"
  shows "(\<exists>e. r = Inl (Storage e))
    \<or> (\<exists>m. r = Inl (Decode m)) \<and> view kv t (key i) \<noteq> None \<and> record_at E ty dec key (view kv t) i = None
    \<or> r = Inr (record_at E ty dec key (view kv t) i)"
proof (cases "get_raw E (key i) t")
  case (Inl e)
  then obtain e' where "e = Storage e'"
    by (auto simp: get_raw_def storage_def split: option.splits sum.splits)
  with Inl assms(2) show ?thesis by (auto simp: get_json_def)
next
  case (Inr v)
  then have v: "v = view kv t (key i)"
    using assms(1) by (auto simp: get_raw_def view_def storage_def contract_get split: option.splits sum.splits)
  show ?thesis
  proof (cases v)
    case None
    with Inr v assms(2) show ?thesis by (auto simp: get_json_def record_at_def)
  next
    case (Some b)
    with Inr v assms(2) show ?thesis
      by (auto simp: get_json_def record_at_def from_slice_def split: sum.splits option.splits)
  qed
qed

end

interpretation promise_store:
  record_store promise_key enc_stored_promise dec_stored_promise "\<lambda>p. p_id (sp_record p)"
    "''StoredPromise''"
  by unfold_locales (simp_all add: codec)

interpretation task_store: record_store task_key enc_task dec_task t_id "''StoredTask''"
  by unfold_locales (simp_all add: codec)

interpretation schedule_store:
  record_store schedule_key enc_schedule dec_schedule s_id "''ScheduleRecord''"
  by unfold_locales (simp_all add: codec)

text \<open>A store with one record written, or one schedule deleted.\<close>

definition put_p :: "stored_promise \<Rightarrow> store \<Rightarrow> store" where
  "put_p p V = V(promise_key (p_id (sp_record p)) := Some (Doc (enc_stored_promise p)))"

definition put_t :: "stored_task \<Rightarrow> store \<Rightarrow> store" where
  "put_t k V = V(task_key (t_id k) := Some (Doc (enc_task k)))"

definition put_s :: "schedule_record \<Rightarrow> store \<Rightarrow> store" where
  "put_s s V = V(schedule_key (s_id s) := Some (Doc (enc_schedule s)))"

definition del_s :: "string \<Rightarrow> store \<Rightarrow> store" where
  "del_s i V = V(schedule_key i := None)"

lemmas put_defs = put_p_def put_t_def put_s_def del_s_def
lemmas in_defs = promise_in_def task_in_def schedule_in_def

lemma record_in_put [simp]:
  "promise_in E (put_p p V) i = (if i = p_id (sp_record p) then Some p else promise_in E V i)"
  "task_in E (put_t k V) i = (if i = t_id k then Some k else task_in E V i)"
  "schedule_in E (put_s s V) i = (if i = s_id s then Some s else schedule_in E V i)"
  "schedule_in E (del_s j V) i = (if i = j then None else schedule_in E V i)"
  by (simp_all add: in_defs put_defs promise_store.at_put task_store.at_put schedule_store.at_put
      schedule_store.at_delete)

lemma record_in_other [simp]:
  "promise_in E (put_t k V) = promise_in E V"
  "promise_in E (put_s s V) = promise_in E V"
  "promise_in E (del_s i V) = promise_in E V"
  "promise_in E (V(branch_key x i := b)) = promise_in E V"
  "task_in E (put_p p V) = task_in E V"
  "task_in E (put_s s V) = task_in E V"
  "task_in E (del_s i V) = task_in E V"
  "task_in E (V(branch_key x i := b)) = task_in E V"
  "schedule_in E (put_p p V) = schedule_in E V"
  "schedule_in E (put_t k V) = schedule_in E V"
  "schedule_in E (V(branch_key x i := b)) = schedule_in E V"
  by (simp_all add: in_defs put_defs promise_store.at_other task_store.at_other schedule_store.at_other)

lemma put_at_key [simp]:
  "put_p p V (promise_key i) = (if i = p_id (sp_record p) then Some (Doc (enc_stored_promise p)) else V (promise_key i))"
  "put_p p V (task_key i) = V (task_key i)" "put_p p V (schedule_key i) = V (schedule_key i)"
  "put_t k V (task_key i) = (if i = t_id k then Some (Doc (enc_task k)) else V (task_key i))"
  "put_t k V (promise_key i) = V (promise_key i)" "put_t k V (schedule_key i) = V (schedule_key i)"
  "put_s s V (schedule_key i) = (if i = s_id s then Some (Doc (enc_schedule s)) else V (schedule_key i))"
  "put_s s V (promise_key i) = V (promise_key i)" "put_s s V (task_key i) = V (task_key i)"
  "del_s j V (schedule_key i) = (if i = j then None else V (schedule_key i))"
  "del_s j V (promise_key i) = V (promise_key i)" "del_s j V (task_key i) = V (task_key i)"
  by (simp_all add: put_defs)

lemma readable_put [simp]:
  assumes "readable E V"
  shows "readable E (put_p p V)" "readable E (put_t k V)" "readable E (put_s s V)"
    "readable E (V(branch_key x i := b))" "readable E (del_s j V)"
  using assms by (auto simp: readable_def)

section \<open>Reads\<close>

text \<open>
  In a readable view a read of a record either fails with a storage error or returns the view.
\<close>

lemma wp_get_promise:
  assumes "queue_contract E kv" "readable E (view kv t)"
    and "\<And>e. Q (Inl (Storage e)) t"
    and "Q (Inr (promise_in E (view kv t) i)) t"
  shows "wp (get_promise E i) Q t"
  using promise_store.get_json_view [OF assms(1) refl, of i t] assms(2-)
  by (auto simp: get_promise_def promise_in_def readable_def)

lemma wp_get_task:
  assumes "queue_contract E kv" "readable E (view kv t)"
    and "\<And>e. Q (Inl (Storage e)) t"
    and "Q (Inr (task_in E (view kv t) i)) t"
  shows "wp (get_task E i) Q t"
  using task_store.get_json_view [OF assms(1) refl, of i t] assms(2-)
  by (auto simp: get_task_def task_in_def readable_def)

lemma wp_get_schedule:
  assumes "queue_contract E kv" "readable E (view kv t)"
    and "\<And>e. Q (Inl (Storage e)) t"
    and "Q (Inr (schedule_in E (view kv t) i)) t"
  shows "wp (get_schedule E i) Q t"
  using schedule_store.get_json_view [OF assms(1) refl, of i t] assms(2-)
  by (auto simp: get_schedule_def schedule_in_def readable_def)

section \<open>Writes\<close>

lemma view_insert [simp]:
  "view kv (t\<lparr>writes := om_insert k w (writes t)\<rparr>) = (view kv t)(k := w)"
  by (auto simp: view_def fun_eq_iff split: option.split)

lemma view_put_json [simp]: "view kv (put_json k j t) = (view kv t)(k := Some (Doc j))"
  by (simp add: put_json_def)

lemma put_json_base [simp]:
  "queue (put_json k j t) = queue t" "held (put_json k j t) = held t" "now (put_json k j t) = now t"
  "preload_limit (put_json k j t) = preload_limit t" "enqueues (put_json k j t) = enqueues t"
  "after (put_json k j t) = after t"
  by (simp_all add: put_json_def)

text \<open>The view depends on the buffered writes and the content of the queue only.\<close>

lemma view_cong:
  "writes t = writes t' \<Longrightarrow> kv (queue t) = kv (queue t') \<Longrightarrow> view kv t = view kv t'"
  by (rule ext) (simp add: view_def split: option.split)

lemma view_fields [simp]:
  "view kv (t\<lparr>enqueues := x\<rparr>) = view kv t"
  "view kv (t\<lparr>after := y\<rparr>) = view kv t"
  "view kv (t\<lparr>held := h\<rparr>) = view kv t"
  by (rule view_cong; simp)+

lemma view_queue [simp]: "kv q' = kv (queue t) \<Longrightarrow> view kv (t\<lparr>queue := q'\<rparr>) = view kv t"
  by (rule view_cong) simp_all

lemma same_base_fields [simp]:
  "same_base kv t (t\<lparr>enqueues := x\<rparr>)"
  "same_base kv t (t\<lparr>after := y\<rparr>)"
  "same_base kv t (t\<lparr>held := h\<rparr>)"
  "same_base kv t (t\<lparr>writes := w\<rparr>)"
  "same_base kv t (put_json k j t)"
  by (simp_all add: same_base_def)

text \<open>
  One rule per operation that changes the transaction, in terms of the view and of what the
  operation leaves alone.
\<close>

lemma wp_put_promise:
  "(\<And>t'. same_base kv t t' \<Longrightarrow> view kv t' = put_p p (view kv t) \<Longrightarrow> Q (Inr ()) t') \<Longrightarrow>
   wp (put_promise p) Q t"
  by (simp add: put_promise_def put_defs)

lemma wp_put_task:
  "(\<And>t'. same_base kv t t' \<Longrightarrow> view kv t' = put_t k (view kv t) \<Longrightarrow> Q (Inr ()) t') \<Longrightarrow>
   wp (put_task k) Q t"
  by (simp add: put_task_def put_defs)

lemma wp_put_schedule:
  "(\<And>t'. same_base kv t t' \<Longrightarrow> view kv t' = put_s s (view kv t) \<Longrightarrow> Q (Inr ()) t') \<Longrightarrow>
   wp (put_schedule s) Q t"
  by (simp add: put_schedule_def put_defs)

lemma wp_delete_schedule:
  "(\<And>t'. same_base kv t t' \<Longrightarrow> view kv t' = del_s i (view kv t) \<Longrightarrow> Q (Inr ()) t') \<Longrightarrow>
   wp (delete_schedule i) Q t"
  by (simp add: delete_schedule_def put_defs)

text \<open>An index entry is not a record.\<close>

definition same_records :: "('q, 'x) env_scheme \<Rightarrow> store \<Rightarrow> store \<Rightarrow> bool" where
  "same_records E V W \<longleftrightarrow>
     promise_in E W = promise_in E V \<and> task_in E W = task_in E V \<and> schedule_in E W = schedule_in E V
     \<and> (readable E V \<longrightarrow> readable E W)"

lemma same_records_refl [simp]: "same_records E V V"
  by (simp add: same_records_def)

lemma wp_index_branch:
  "(\<And>t'. same_base kv t t' \<Longrightarrow> same_records E (view kv t) (view kv t') \<Longrightarrow> Q (Inr ()) t') \<Longrightarrow>
   wp (index_branch p) Q t"
  by (simp add: index_branch_def same_records_def split: option.split)

lemma wp_enqueue:
  "(\<And>t'. same_base kv t t' \<Longrightarrow> view kv t' = view kv t \<Longrightarrow> Q (Inr ()) t') \<Longrightarrow> wp (enqueue r) Q t"
  by (simp add: enqueue_def)

lemma wp_send_unblock:
  "(\<And>t'. same_base kv t t' \<Longrightarrow> view kv t' = view kv t \<Longrightarrow> Q (Inr ()) t') \<Longrightarrow>
   wp (send_unblock E a m) Q t"
  unfolding send_unblock_def by (rule wp_enqueue)

lemma wp_schedule_timer:
  "(\<And>t'. same_base kv t t' \<Longrightarrow> view kv t' = view kv t \<Longrightarrow> Q (Inr ()) t') \<Longrightarrow>
   wp (schedule_timer tm at) Q t"
  unfolding schedule_timer_def by (rule wp_enqueue)

lemma wp_add_after:
  "(\<And>t'. same_base kv t t' \<Longrightarrow> view kv t' = view kv t \<Longrightarrow> Q (Inr ()) t') \<Longrightarrow> wp (add_after a) Q t"
  by (simp add: add_after_def)

lemmas wp_release = wp_add_after [of _ _ _ "Release task" for task, folded release_def]
lemmas wp_nack_after = wp_add_after [of _ _ _ "Nack task" for task, folded nack_after_commit_def]
lemmas wp_ack_after = wp_add_after [of _ _ _ "Ack c" for c, folded ack_after_commit_def]
lemmas wp_hold_after = wp_add_after [of _ _ _ "Hold task c" for task c, folded hold_after_commit_def]

lemma wp_claim_after:
  assumes "t_job k \<noteq> None"
    and "\<And>t'. same_base kv t t' \<Longrightarrow> view kv t' = view kv t \<Longrightarrow> Q (Inr ()) t'"
  shows "wp (claim_after_commit k lease) Q t"
  using assms by (auto simp: claim_after_commit_def add_after_def intro!: wp_bnd wp_expect)

lemma wp_dispatch:
  assumes "queue_contract E kv"
    and "\<And>t' job. same_base kv t t' \<Longrightarrow> view kv t' = put_t (k\<lparr>t_job := Some job\<rparr>) (view kv t) \<Longrightarrow>
      Q (Inr (k\<lparr>t_job := Some job\<rparr>)) t'"
  shows "wp (dispatch E k run_at) Q t"
proof -
  obtain job q' where q': "q_next_job_id E (queue t) = (job, q')"
    by (cases "q_next_job_id E (queue t)")
  with assms(1) have "kv q' = kv (queue t)" by simp
  then show ?thesis
    using q' assms(2) unfolding wp_def
    by (simp add: dispatch_def run_bnd run_andthen put_task_def enqueue_def run_ret Let_def same_base_def
        put_defs)
qed

section \<open>Claims\<close>

lemma wp_holds:
  "(\<And>b t'. same_base kv t t' \<Longrightarrow> view kv t' = view kv t \<Longrightarrow> Q (Inr b) t') \<Longrightarrow> wp (holds E i) Q t"
  by (auto simp: wp_def holds_def drop_claim_def split: option.split)

lemma holds_found: "holds E i t = (Inr True, t') \<Longrightarrow> t' = t \<and> (\<exists>c. held t i = Some c \<and> live E t c)"
  by (auto simp: holds_def split: option.splits if_splits)

lemma wp_renew:
  assumes "queue_contract E kv"
    and "\<And>b t'. same_base kv t t' \<Longrightarrow> view kv t' = view kv t \<Longrightarrow> Q (Inr b) t'"
  shows "wp (renew E i lease) Q t"
proof -
  have "kv q' = kv (queue t)" if "q_renew_lease E (queue t) c lease = (r, q')" for c r q'
    using that assms(1) by simp
  then show ?thesis
    using assms(2) unfolding wp_def renew_def
    by (auto simp: run_bnd run_ret drop_claim_def same_base_def holds_def
        split: prod.splits sum.splits option.splits if_splits)
qed

lemma wp_claim_job:
  assumes "queue_contract E kv"
    and "\<And>e t'. same_base kv t t' \<Longrightarrow> view kv t' = view kv t \<Longrightarrow> Q (Inl (Storage e)) t'"
    and "\<And>b t'. same_base kv t t' \<Longrightarrow> view kv t' = view kv t \<Longrightarrow> Q (Inr b) t'"
  shows "wp (claim_job E i job lease) Q t"
proof -
  have "kv q' = kv (queue t)" if "q_claim_by_id E (queue t) job lease = (r, q')" for r q'
    using that assms(1) by simp
  then show ?thesis
    using assms(2,3) unfolding wp_def claim_job_def
    by (auto simp: run_bnd run_andthen run_ret call_def storage_def hold_claim_def same_base_def
        split: prod.splits sum.splits claim_outcome.splits)
qed

lemma wp_job_exists:
  "(\<And>e. Q (Inl (Storage e)) t) \<Longrightarrow> (\<And>b. Q (Inr b) t) \<Longrightarrow> wp (job_exists E i) Q t"
  by (auto simp: job_exists_def storage_def intro!: wp_bnd split: sum.split)

section \<open>Commit\<close>

text \<open>The work that follows a commit leaves the records alone.\<close>

lemma wp_finish_one:
  assumes "queue_contract E kv"
  shows "wp (finish_one E a) (\<lambda>r t'. kv (queue t') = kv (queue t) \<and>
    (\<forall>e. r = Inl e \<longrightarrow> (\<exists>x. e = Storage x))) t"
proof -
  note c = contract_claims [OF assms]
  show ?thesis
    unfolding wp_def
    by (cases a) (auto simp: run_bnd run_ret settle_claim_def take_held_def call_def storage_def
        drop_claim_def hold_claim_def dest: c split: prod.splits sum.splits option.splits claim_outcome.splits)
qed

lemma wp_finish:
  assumes "queue_contract E kv"
  shows "wp (finish E) (\<lambda>r t'. kv (queue t') = kv (queue t) \<and>
    (\<forall>e. r = Inl e \<longrightarrow> (\<exists>x. e = Storage x))) t"
proof -
  have "wp (for_each (finish_one E) xs) (\<lambda>r t'. kv (queue t') = kv (queue u) \<and>
    (\<forall>e. r = Inl e \<longrightarrow> (\<exists>x. e = Storage x))) u" for xs u
  proof (induction xs arbitrary: u)
    case Nil
    show ?case by simp
  next
    case (Cons a xs)
    have "wp (for_each (finish_one E) xs) (\<lambda>r t'. kv (queue t') = kv (queue u) \<and>
      (\<forall>e. r = Inl e \<longrightarrow> (\<exists>x. e = Storage x))) u'" if "kv (queue u') = kv (queue u)" for u'
      using Cons.IH [of u'] that by simp
    then show ?case
      by (auto intro!: wp_andthenI [OF wp_finish_one [OF assms]])
  qed
  from this [of "after t" "t\<lparr>after := []\<rparr>"] show ?thesis
    by (simp add: finish_def wp_def)
qed

lemma apply_effects_of: "apply_effects (effects_of t) (kv (queue t)) = view kv t"
proof
  fix k
  let ?w = "entries (writes t)"
  have "map_of (List.map_filter (\<lambda>(k, v). map_option (Pair k) v) xs) k = Option.bind (map_of xs k) id"
    if "distinct (map fst xs)" for xs :: "(bytes \<times> blob option) list"
    using that
  proof (induction xs)
    case (Cons x xs)
    moreover have "fst x = k \<Longrightarrow> map_of xs k = None"
      using Cons.prems by (simp add: map_of_eq_None_iff)
    ultimately show ?case
      by (cases x) (auto simp: List.map_filter_simps split: option.split)
  qed (simp add: List.map_filter_simps)
  moreover have "distinct (map fst ?w)"
    by (simp add: ascending_distinct)
  moreover have asc: "ascending (List.map_filter (\<lambda>(k, v). map_option (Pair k) v) xs)"
    if "ascending xs" for xs :: "(bytes \<times> blob option) list"
    using that
    by (induction xs)
      (auto simp: List.map_filter_simps List.map_filter_def split: option.split, force)
  ultimately have "om_get (ef_kv_writes (effects_of t)) k = Option.bind (om_get (writes t) k) id"
    by (simp add: effects_of_def om_get_of_ascending om_get_entries [of "writes t"])
  moreover have "k \<in> set (ef_kv_deletes (effects_of t)) \<longleftrightarrow> om_get (writes t) k = Some None"
    by (force simp: effects_of_def in_entries [symmetric])
  ultimately show "apply_effects (effects_of t) (kv (queue t)) k = view kv t k"
    by (auto simp: apply_effects_def view_def split: option.splits)
qed

text \<open>
  A commit either writes the view to the queue or, when it fails, may leave the queue as it
  was; the errors are storage errors.
\<close>

definition committed :: "('q \<Rightarrow> store) \<Rightarrow> 'q txn \<Rightarrow> error + 'a \<Rightarrow> 'q txn \<Rightarrow> bool" where
  "committed kv t r t' \<longleftrightarrow>
     (kv (queue t') = view kv t \<or> kv (queue t') = kv (queue t) \<and> (\<exists>e. r = Inl e))
     \<and> (\<forall>e. r = Inl e \<longrightarrow> (\<exists>x. e = Storage x))"

lemma no_effects_view:
  assumes "ef_kv_writes (effects_of t) = om_empty" "ef_kv_deletes (effects_of t) = []"
  shows "view kv t = kv (queue t)"
  using assms by (simp add: apply_effects_of [symmetric] apply_effects_def fun_eq_iff)

lemma wp_commit:
  assumes "queue_contract E kv"
  shows "wp (commit E) (committed kv t) t"
proof -
  let ?ef = "effects_of t" and ?t = "t\<lparr>writes := om_empty, enqueues := []\<rparr>"
  show ?thesis
  proof (cases "ef_enqueues ?ef \<noteq> [] \<or> ef_kv_writes ?ef \<noteq> om_empty \<or> ef_kv_deletes ?ef \<noteq> []")
    case False
    have "wp (finish E) (committed kv t) ?t"
      by (rule wp_mono [OF wp_finish [OF assms]]) (use False no_effects_view [of t kv] in \<open>auto simp: committed_def\<close>)
    moreover have "commit E t = finish E ?t"
      using False by (simp add: commit_def take_effects_def run_bnd run_andthen run_ret)
    ultimately show ?thesis by (simp add: wp_def)
  next
    case True
    obtain r q' where q': "q_commit_effects E (queue t) ?ef = (r, q')"
      by (cases "q_commit_effects E (queue t) ?ef")
    note q = contract_commit [OF assms q', unfolded apply_effects_of]
    show ?thesis
    proof (cases r)
      case (Inl e)
      then have "commit E t = (Inl (Storage e), ?t\<lparr>queue := q'\<rparr>)"
        using True q' by (simp add: commit_def take_effects_def run_bnd run_andthen call_def storage_def)
      then show ?thesis
        using Inl q by (auto simp: wp_def committed_def)
    next
      case (Inr u)
      then have "commit E t = finish E (?t\<lparr>queue := q'\<rparr>)"
        using True q' by (simp add: commit_def take_effects_def run_bnd run_andthen call_def storage_def)
      moreover have "wp (finish E) (committed kv t) (?t\<lparr>queue := q'\<rparr>)"
        by (rule wp_mono [OF wp_finish [OF assms]]) (use Inr q in \<open>auto simp: committed_def\<close>)
      ultimately show ?thesis by (simp add: wp_def)
    qed
  qed
qed

text \<open>A settlement commits like a commit.\<close>

lemma run_commit_ack:
  "commit_ack E i t =
     (case held t i of
        None \<Rightarrow> (Inl (Storage ClaimLost), t)
      | Some c \<Rightarrow>
          if \<not> live E t c then (Inl (Storage ClaimLost), drop_claim i t)
          else (case q_ack_with E (queue t) c (effects_of t) of
             (Inr _, q') \<Rightarrow> finish E (drop_claim i (t\<lparr>writes := om_empty, enqueues := [], queue := q'\<rparr>))
           | (Inl e, q') \<Rightarrow>
               (Inl (Storage e),
                (if e = ClaimLost then drop_claim i else id)
                  (t\<lparr>writes := om_empty, enqueues := [], queue := q'\<rparr>))))"
  by (auto simp: commit_ack_def holds_def run_bnd run_fail take_effects_def
      split: option.split prod.split sum.split)

lemma wp_commit_ack:
  assumes "queue_contract E kv"
  shows "wp (commit_ack E i) (committed kv t) t"
proof (cases "\<exists>c. held t i = Some c \<and> live E t c")
  case False
  then show ?thesis
    by (auto simp: wp_def run_commit_ack committed_def drop_claim_def split: option.split)
next
  case True
  then obtain c where c: "held t i = Some c" "live E t c" by blast
  obtain r q' where q': "q_ack_with E (queue t) c (effects_of t) = (r, q')"
    by (cases "q_ack_with E (queue t) c (effects_of t)")
  note q = contract_ack_with [OF assms q', unfolded apply_effects_of]
  show ?thesis
  proof (cases r)
    case (Inl e)
    then show ?thesis
      using c q' q by (auto simp: wp_def run_commit_ack committed_def drop_claim_def)
  next
    case (Inr u)
    let ?t = "drop_claim i (t\<lparr>writes := om_empty, enqueues := [], queue := q'\<rparr>)"
    have "wp (finish E) (committed kv t) ?t"
      by (rule wp_mono [OF wp_finish [OF assms]])
        (use Inr q in \<open>simp add: committed_def drop_claim_def\<close>)
    then show ?thesis
      using Inr c q' by (simp add: wp_def run_commit_ack)
  qed
qed

end
