(* ===== verification/Envelope.thy ===== *)
theory Envelope
  imports Taquba
begin

text \<open>
  \<open>src/envelope.rs\<close>: the request and response envelopes of the protocol.
\<close>

record request_head =
  hd_corr_id :: string
  hd_version :: "string option"

record request =
  rq_kind :: string
  rq_head :: request_head
  rq_data :: json

definition default_head :: request_head where
  "default_head = \<lparr>hd_corr_id = [], hd_version = None\<rparr>"

definition dec_request_head :: "json \<Rightarrow> request_head option" where
  "dec_request_head j = do {
     fs \<leftarrow> struct_fields [''corrId'', ''version''] j;
     c \<leftarrow> field_default fs ''corrId'' dec_string [];
     v \<leftarrow> field_default fs ''version'' (dec_option dec_string) None;
     Some \<lparr>hd_corr_id = c, hd_version = v\<rparr> }"

definition dec_request :: "json \<Rightarrow> request option" where
  "dec_request j = do {
     fs \<leftarrow> struct_fields [''kind'', ''head'', ''data''] j;
     k \<leftarrow> field fs ''kind'' dec_string;
     h \<leftarrow> field_default fs ''head'' dec_request_head default_head;
     d \<leftarrow> field_default fs ''data'' dec_value JNull;
     Some \<lparr>rq_kind = k, rq_head = h, rq_data = d\<rparr> }"

text \<open>The outcome of one request: a status with data, or with the text of an error.\<close>

datatype reply = ROk nat json | RErr nat string

definition ok :: "json \<Rightarrow> reply" where
  "ok data = ROk 200 data"

definition err :: "nat \<Rightarrow> string \<Rightarrow> reply" where
  "err status message = RErr status message"

fun status :: "reply \<Rightarrow> nat" where
  "status (ROk s d) = s"
| "status (RErr s m) = s"

fun into_data :: "reply \<Rightarrow> json" where
  "into_data (ROk s d) = d"
| "into_data (RErr s m) = JString m"

lemma reply_simps [simp]:
  "status (ok d) = 200" "status (err s m) = s"
  "into_data (ok d) = d" "into_data (err s m) = JString m"
  by (simp_all add: ok_def err_def)

definition str_or_default :: "json \<Rightarrow> string" where
  "str_or_default j = (case as_str j of Some s \<Rightarrow> s | None \<Rightarrow> [])"

definition invalid_request :: "string \<Rightarrow> reply" where
  "invalid_request e = err 400 (''Invalid request: '' @ e)"

text \<open>
  \<open>parse_request\<close>: the request, or the kind and the correlation id of the envelope, where
  present, with a 400 reply.
\<close>

definition parse_request ::
  "('q, 'x) env_scheme \<Rightarrow> string \<Rightarrow> (string \<times> string \<times> reply) + request" where
  "parse_request E raw =
     (case x_json_parse E raw of
        Inl e \<Rightarrow> Inl ([], [], invalid_request e)
      | Inr value \<Rightarrow>
          (let kind = str_or_default (jget value ''kind'');
               corr_id = str_or_default (jget (jget value ''head'') ''corrId'')
           in case dec_request value of
                None \<Rightarrow> Inl (kind, corr_id, invalid_request (x_serde_error E ''Request'' value))
              | Some request \<Rightarrow>
                  if rq_kind request = [] then
                    Inl (kind, corr_id, err 400 ''Request kind is required'')
                  else (case hd_version (rq_head request) of
                      Some version \<Rightarrow>
                        if version \<noteq> PROTOCOL_VERSION then
                          Inl (kind, corr_id, err 400 (''Unsupported protocol version: '' @ version))
                        else if \<not> is_object (rq_data request) then
                          Inl (kind, corr_id, err 400 ''Request data must be an object'')
                        else Inr request
                    | None \<Rightarrow>
                        if \<not> is_object (rq_data request) then
                          Inl (kind, corr_id, err 400 ''Request data must be an object'')
                        else Inr request)))"

definition response :: "string \<Rightarrow> string \<Rightarrow> reply \<Rightarrow> json" where
  "response kind corr_id reply =
     jobj [(''kind'', JString kind),
           (''head'', jobj [(''corrId'', JString corr_id),
                            (''status'', JInt (int (status reply))),
                            (''version'', JString PROTOCOL_VERSION)]),
           (''data'', into_data reply)]"

lemma jget_response [simp]:
  "jget (response kind corr_id reply) ''kind'' = JString kind"
  "jget (response kind corr_id reply) ''data'' = into_data reply"
  "jget (jget (response kind corr_id reply) ''head'') ''corrId'' = JString corr_id"
  "jget (jget (response kind corr_id reply) ''head'') ''status'' = JInt (int (status reply))"
  "jget (jget (response kind corr_id reply) ''head'') ''version'' = JString PROTOCOL_VERSION"
  by (simp_all add: response_def jget_jobj)

lemma parse_request_error: "parse_request E raw = Inl (kind, corr, reply) \<Longrightarrow> status reply = 400"
  by (auto simp: parse_request_def invalid_request_def Let_def
      split: sum.splits option.splits if_splits)

lemma parse_request_ok:
  "parse_request E raw = Inr request \<longleftrightarrow>
     (\<exists>value. x_json_parse E raw = Inr value \<and> dec_request value = Some request)
     \<and> rq_kind request \<noteq> [] \<and> is_object (rq_data request)
     \<and> (hd_version (rq_head request) = None \<or> hd_version (rq_head request) = Some PROTOCOL_VERSION)"
  by (auto simp: parse_request_def Let_def split: sum.splits option.splits if_splits)

end
