(* ===== verification/Requests.thy ===== *)
theory Requests
  imports Envelope
begin

text \<open>
  The first part of \<open>src/kernel.rs\<close>: the data of each request with its decoder, the validation
  that precedes every read of the store, and the paging of the searches; and \<open>src/cron.rs\<close>.
\<close>

section \<open>Request data\<close>

definition DEFAULT_SEARCH_LIMIT :: nat where "DEFAULT_SEARCH_LIMIT = 100"
definition DEFAULT_SCHEDULE_SEARCH_LIMIT :: nat where "DEFAULT_SCHEDULE_SEARCH_LIMIT = 10"
definition MAX_SEARCH_LIMIT :: nat where "MAX_SEARCH_LIMIT = 1000"

definition dec_id_data :: "json \<Rightarrow> string option" where
  "dec_id_data j = do { fs \<leftarrow> struct_fields [''id''] j; field fs ''id'' dec_string }"

record promise_create_data =
  pc_id :: string
  pc_timeout_at :: i64
  pc_param :: promise_value
  pc_tags :: tags

definition dec_promise_create :: "json \<Rightarrow> promise_create_data option" where
  "dec_promise_create j = do {
     fs \<leftarrow> struct_fields [''id'', ''timeoutAt'', ''param'', ''tags''] j;
     i \<leftarrow> field fs ''id'' dec_string;
     tm \<leftarrow> field fs ''timeoutAt'' dec_i64;
     p \<leftarrow> null_default fs ''param'' dec_promise_value default_value;
     tg \<leftarrow> null_default fs ''tags'' dec_map om_empty;
     Some \<lparr>pc_id = i, pc_timeout_at = tm, pc_param = p, pc_tags = tg\<rparr> }"

record promise_settle_data =
  ps_id :: string
  ps_state :: settle_state
  ps_value :: promise_value

definition dec_promise_settle :: "json \<Rightarrow> promise_settle_data option" where
  "dec_promise_settle j = do {
     fs \<leftarrow> struct_fields [''id'', ''state'', ''value''] j;
     i \<leftarrow> field fs ''id'' dec_string;
     st \<leftarrow> field fs ''state'' dec_settle_state;
     v \<leftarrow> null_default fs ''value'' dec_promise_value default_value;
     Some \<lparr>ps_id = i, ps_state = st, ps_value = v\<rparr> }"

record callback_data =
  cb_awaited :: string
  cb_awaiter :: string

definition dec_callback :: "json \<Rightarrow> callback_data option" where
  "dec_callback j = do {
     fs \<leftarrow> struct_fields [''awaited'', ''awaiter''] j;
     a \<leftarrow> field fs ''awaited'' dec_string;
     b \<leftarrow> field fs ''awaiter'' dec_string;
     Some \<lparr>cb_awaited = a, cb_awaiter = b\<rparr> }"

record listener_data =
  li_awaited :: string
  li_address :: string

definition dec_listener :: "json \<Rightarrow> listener_data option" where
  "dec_listener j = do {
     fs \<leftarrow> struct_fields [''awaited'', ''address''] j;
     a \<leftarrow> field fs ''awaited'' dec_string;
     b \<leftarrow> field fs ''address'' dec_string;
     Some \<lparr>li_awaited = a, li_address = b\<rparr> }"

text \<open>An absent filter, limit or cursor is \<open>None\<close>, and so is a null one.\<close>

definition optional :: "(string \<Rightarrow> json option) \<Rightarrow> string \<Rightarrow> (json \<Rightarrow> 'a option) \<Rightarrow> 'a option option" where
  "optional fs name dec = field_default fs name (dec_option dec) None"

record promise_search_data =
  sq_state :: "promise_state option"
  sq_tags :: "tags option"
  sq_limit :: "i64 option"
  sq_cursor :: "string option"

definition dec_promise_search :: "json \<Rightarrow> promise_search_data option" where
  "dec_promise_search j = do {
     fs \<leftarrow> struct_fields [''state'', ''tags'', ''limit'', ''cursor''] j;
     st \<leftarrow> optional fs ''state'' dec_promise_state;
     tg \<leftarrow> optional fs ''tags'' dec_map;
     l \<leftarrow> optional fs ''limit'' dec_i64;
     c \<leftarrow> optional fs ''cursor'' dec_string;
     Some \<lparr>sq_state = st, sq_tags = tg, sq_limit = l, sq_cursor = c\<rparr> }"

text \<open>\<open>Action<T>\<close>: a request nested in a task request.\<close>

record 'a action =
  ac_kind :: string
  ac_data :: 'a

definition dec_action :: "(json \<Rightarrow> 'a option) \<Rightarrow> json \<Rightarrow> 'a action option" where
  "dec_action dec j = do {
     fs \<leftarrow> struct_fields [''kind'', ''data''] j;
     k \<leftarrow> field fs ''kind'' dec_string;
     d \<leftarrow> field fs ''data'' dec;
     Some \<lparr>ac_kind = k, ac_data = d\<rparr> }"

record task_create_data =
  tc_pid :: string
  tc_ttl :: i64
  tc_action :: "promise_create_data action"

definition dec_task_create :: "json \<Rightarrow> task_create_data option" where
  "dec_task_create j = do {
     fs \<leftarrow> struct_fields [''pid'', ''ttl'', ''action''] j;
     p \<leftarrow> field fs ''pid'' dec_string;
     t \<leftarrow> field fs ''ttl'' dec_i64;
     a \<leftarrow> field fs ''action'' (dec_action dec_promise_create);
     Some \<lparr>tc_pid = p, tc_ttl = t, tc_action = a\<rparr> }"

record task_acquire_data =
  ta_id :: string
  ta_version :: i64
  ta_pid :: string
  ta_ttl :: i64

definition dec_task_acquire :: "json \<Rightarrow> task_acquire_data option" where
  "dec_task_acquire j = do {
     fs \<leftarrow> struct_fields [''id'', ''version'', ''pid'', ''ttl''] j;
     i \<leftarrow> field fs ''id'' dec_string;
     v \<leftarrow> field fs ''version'' dec_i64;
     p \<leftarrow> field fs ''pid'' dec_string;
     t \<leftarrow> field fs ''ttl'' dec_i64;
     Some \<lparr>ta_id = i, ta_version = v, ta_pid = p, ta_ttl = t\<rparr> }"

record task_version_data =
  tv_id :: string
  tv_version :: i64

definition dec_task_version :: "json \<Rightarrow> task_version_data option" where
  "dec_task_version j = do {
     fs \<leftarrow> struct_fields [''id'', ''version''] j;
     i \<leftarrow> field fs ''id'' dec_string;
     v \<leftarrow> field fs ''version'' dec_i64;
     Some \<lparr>tv_id = i, tv_version = v\<rparr> }"

record task_suspend_data =
  ts_id :: string
  ts_version :: i64
  ts_actions :: "callback_data action list"

definition dec_task_suspend :: "json \<Rightarrow> task_suspend_data option" where
  "dec_task_suspend j = do {
     fs \<leftarrow> struct_fields [''id'', ''version'', ''actions''] j;
     i \<leftarrow> field fs ''id'' dec_string;
     v \<leftarrow> field fs ''version'' dec_i64;
     a \<leftarrow> field_default fs ''actions'' (dec_list (dec_action dec_callback)) [];
     Some \<lparr>ts_id = i, ts_version = v, ts_actions = a\<rparr> }"

record task_fulfill_data =
  tf_id :: string
  tf_version :: i64
  tf_action :: "promise_settle_data action"

definition dec_task_fulfill :: "json \<Rightarrow> task_fulfill_data option" where
  "dec_task_fulfill j = do {
     fs \<leftarrow> struct_fields [''id'', ''version'', ''action''] j;
     i \<leftarrow> field fs ''id'' dec_string;
     v \<leftarrow> field fs ''version'' dec_i64;
     a \<leftarrow> field fs ''action'' (dec_action dec_promise_settle);
     Some \<lparr>tf_id = i, tf_version = v, tf_action = a\<rparr> }"

record task_fence_data =
  fe_id :: string
  fe_version :: i64
  fe_action :: "json action"

definition dec_task_fence :: "json \<Rightarrow> task_fence_data option" where
  "dec_task_fence j = do {
     fs \<leftarrow> struct_fields [''id'', ''version'', ''action''] j;
     i \<leftarrow> field fs ''id'' dec_string;
     v \<leftarrow> field fs ''version'' dec_i64;
     a \<leftarrow> field fs ''action'' (dec_action dec_value);
     Some \<lparr>fe_id = i, fe_version = v, fe_action = a\<rparr> }"

record task_heartbeat_data =
  hb_pid :: string
  hb_tasks :: "task_version_data list"

definition dec_task_heartbeat :: "json \<Rightarrow> task_heartbeat_data option" where
  "dec_task_heartbeat j = do {
     fs \<leftarrow> struct_fields [''pid'', ''tasks''] j;
     p \<leftarrow> field fs ''pid'' dec_string;
     ts \<leftarrow> field_default fs ''tasks'' (dec_list dec_task_version) [];
     Some \<lparr>hb_pid = p, hb_tasks = ts\<rparr> }"

record task_search_data =
  tq_state :: "task_state option"
  tq_limit :: "i64 option"
  tq_cursor :: "string option"

definition dec_task_search :: "json \<Rightarrow> task_search_data option" where
  "dec_task_search j = do {
     fs \<leftarrow> struct_fields [''state'', ''limit'', ''cursor''] j;
     st \<leftarrow> optional fs ''state'' dec_task_state;
     l \<leftarrow> optional fs ''limit'' dec_i64;
     c \<leftarrow> optional fs ''cursor'' dec_string;
     Some \<lparr>tq_state = st, tq_limit = l, tq_cursor = c\<rparr> }"

record schedule_create_data =
  sd_id :: string
  sd_cron :: string
  sd_promise_id :: string
  sd_promise_timeout :: i64
  sd_promise_param :: promise_value
  sd_promise_tags :: tags

definition dec_schedule_create :: "json \<Rightarrow> schedule_create_data option" where
  "dec_schedule_create j = do {
     fs \<leftarrow> struct_fields
       [''id'', ''cron'', ''promiseId'', ''promiseTimeout'', ''promiseParam'', ''promiseTags''] j;
     i \<leftarrow> field fs ''id'' dec_string;
     c \<leftarrow> field fs ''cron'' dec_string;
     p \<leftarrow> field fs ''promiseId'' dec_string;
     t \<leftarrow> field fs ''promiseTimeout'' dec_i64;
     v \<leftarrow> null_default fs ''promiseParam'' dec_promise_value default_value;
     tg \<leftarrow> null_default fs ''promiseTags'' dec_map om_empty;
     Some \<lparr>sd_id = i, sd_cron = c, sd_promise_id = p, sd_promise_timeout = t,
       sd_promise_param = v, sd_promise_tags = tg\<rparr> }"

record schedule_search_data =
  hq_tags :: "tags option"
  hq_limit :: "i64 option"
  hq_cursor :: "string option"

definition dec_schedule_search :: "json \<Rightarrow> schedule_search_data option" where
  "dec_schedule_search j = do {
     fs \<leftarrow> struct_fields [''tags'', ''limit'', ''cursor''] j;
     tg \<leftarrow> optional fs ''tags'' dec_map;
     l \<leftarrow> optional fs ''limit'' dec_i64;
     c \<leftarrow> optional fs ''cursor'' dec_string;
     Some \<lparr>hq_tags = tg, hq_limit = l, hq_cursor = c\<rparr> }"

section \<open>Cron expressions\<close>

text \<open>\<open>next_after\<close> of \<open>src/cron.rs\<close>.\<close>

definition next_after :: "('q, 'x) env_scheme \<Rightarrow> string \<Rightarrow> i64 \<Rightarrow> i64 option" where
  "next_after E expression aft =
     (if \<not> x_cron_parses E expression then None
      else if \<not> x_timestamp_ok E aft then None
      else x_cron_next E expression aft)"

section \<open>Validation\<close>

definition is_url :: "('q, 'x) env_scheme \<Rightarrow> string \<Rightarrow> bool" where
  "is_url E address = x_url_parses E address"

text \<open>The lease of a task with a \<open>ttl\<close> of milliseconds.\<close>

definition lease_of :: "i64 \<Rightarrow> nat" where
  "lease_of ttl = millis ttl"

definition is_ancestor :: "string \<Rightarrow> string \<Rightarrow> bool" where
  "is_ancestor ancestor i =
     (if ancestor = i then True
      else (let separator = (if contains ancestor CHR '':'' then CHR ''.'' else CHR '':'')
            in case strip_prefix ancestor i of
                 None \<Rightarrow> False
               | Some rest \<Rightarrow> starts_with rest [separator]))"

definition delay_valid :: "promise_create_data \<Rightarrow> string \<Rightarrow> bool" where
  "delay_valid data delay \<longleftrightarrow>
     (case parse_i64 delay of None \<Rightarrow> False | Some d \<Rightarrow> le64 0 d \<and> lt64 d (pc_timeout_at data))
     \<and> om_get (pc_tags data) TAG_TARGET \<noteq> None"

text \<open>One check of \<open>validate_create\<close> after the other; the first that fails gives the reply.\<close>

definition bad_tag :: "promise_create_data \<Rightarrow> string \<Rightarrow> (string \<Rightarrow> bool) \<Rightarrow> bool" where
  "bad_tag data tag bad = (case om_get (pc_tags data) tag of None \<Rightarrow> False | Some v \<Rightarrow> bad v)"

definition validate_create :: "('q, 'x) env_scheme \<Rightarrow> promise_create_data \<Rightarrow> reply option" where
  "validate_create E data =
     (if pc_id data = [] then Some (err 400 ''Promise ID is required'')
      else if contains (pc_id data) CHR 0x00 then
        Some (err 400 ''Promise ID must not contain null bytes'')
      else if lt64 (pc_timeout_at data) 0 then
        Some (err 400 ''Promise timeout must not be negative'')
      else if bad_tag data TAG_TARGET (\<lambda>target. \<not> is_url E target) then
        Some (err 400 ''Invalid resonate:target address'')
      else if bad_tag data ''resonate:origin''
          (\<lambda>origin. contains origin CHR '':'' \<or> origin_of (pc_id data) \<noteq> origin) then
        Some (err 400 ''Invalid resonate:origin tag'')
      else if bad_tag data ''resonate:branch'' (\<lambda>ancestor. \<not> is_ancestor ancestor (pc_id data)) then
        Some (err 400 ''Invalid resonate:branch tag'')
      else if bad_tag data ''resonate:parent'' (\<lambda>ancestor. \<not> is_ancestor ancestor (pc_id data)) then
        Some (err 400 ''Invalid resonate:parent tag'')
      else if bad_tag data ''resonate:prefix'' (\<lambda>pre. contains pre CHR '':'') then
        Some (err 400 ''Invalid resonate:prefix tag'')
      else if bad_tag data TAG_DELAY (\<lambda>delay. \<not> delay_valid data delay) then
        Some (err 400 ''Invalid resonate:delay tag'')
      else None)"

definition validate_callback :: "string \<Rightarrow> string \<Rightarrow> reply option" where
  "validate_callback awaited awaiter =
     (if awaited = [] \<or> awaiter = [] then
        Some (err 400 ''Awaited and awaiter promise IDs are required'')
      else if awaited = awaiter then Some (err 400 ''Awaited and awaiter must differ'')
      else if origin_of awaited \<noteq> origin_of awaiter then
        Some (err 400 ''Awaited and awaiter must share an origin'')
      else None)"

section \<open>Paging\<close>

definition search_limit :: "i64 option \<Rightarrow> nat \<Rightarrow> reply + nat" where
  "search_limit limit preset =
     (case limit of
        None \<Rightarrow> Inr preset
      | Some l \<Rightarrow>
          if 1 \<le> sint l \<and> sint l \<le> int MAX_SEARCH_LIMIT then Inr (nat (sint l))
          else Inl (err 400 (''Invalid 'limit': must be between 1 and '' @ show_nat MAX_SEARCH_LIMIT)))"

text \<open>
  One page of items in id order: the items after the cursor, at most \<open>limit\<close> of them, and the
  cursor of the next page when more remain.  The \<open>expect\<close> fails on a limit of zero.
\<close>

definition page ::
  "'a list \<Rightarrow> ('a \<Rightarrow> string) \<Rightarrow> string option \<Rightarrow> nat \<Rightarrow> error + ('a list \<times> string option)" where
  "page items id_of cursor limit =
     (let found = take (limit + 1)
            (filter (\<lambda>item. case cursor of None \<Rightarrow> True | Some c \<Rightarrow> c < id_of item) items)
      in if length found > limit then
           (case take limit found of
              [] \<Rightarrow> Inl (Panic ''a full page has a last item'')
            | kept \<Rightarrow> Inr (kept, Some (id_of (last kept))))
         else Inr (found, None))"

definition tags_match :: "tags \<Rightarrow> tags option \<Rightarrow> bool" where
  "tags_match tags wanted =
     (case wanted of
        None \<Rightarrow> True
      | Some f \<Rightarrow> list_all (\<lambda>(key, value). om_get tags key = Some value) (entries f))"

definition with_cursor :: "json \<Rightarrow> string option \<Rightarrow> json" where
  "with_cursor data cursor = (case cursor of None \<Rightarrow> data | Some c \<Rightarrow> jset data ''cursor'' (JString c))"

section \<open>What validation gives\<close>

lemma contains_set [simp]: "contains s c \<longleftrightarrow> c \<in> set s"
  by (simp add: contains_def)

lemma is_ancestor_iff:
  "is_ancestor a i \<longleftrightarrow>
     i = a \<or> (\<exists>rest. i = a @ (if CHR '':'' \<in> set a then CHR ''.'' else CHR '':'') # rest)"
  by (auto simp: is_ancestor_def Let_def prefix_def split: option.split)

lemma is_ancestor_refl: "is_ancestor a a"
  by (simp add: is_ancestor_def)

lemma is_ancestor_prefix: "is_ancestor a i \<Longrightarrow> prefix a i"
  by (auto simp: is_ancestor_iff prefix_def)

lemma is_ancestor_trans: "is_ancestor a b \<Longrightarrow> is_ancestor b c \<Longrightarrow> is_ancestor a c"
  unfolding is_ancestor_iff by (auto split: if_splits)

lemma is_ancestor_antisym: "is_ancestor a b \<Longrightarrow> is_ancestor b a \<Longrightarrow> a = b"
  by (meson is_ancestor_prefix prefix_order.antisym)

lemma is_ancestor_origin: "is_ancestor a b \<Longrightarrow> origin_of a = origin_of b"
proof -
  assume "is_ancestor a b"
  then consider "b = a" | rest where "CHR '':'' \<in> set a" "b = a @ rest"
    | rest where "CHR '':'' \<notin> set a" "b = a @ CHR '':'' # rest"
    by (auto simp: is_ancestor_iff split: if_splits)
  then show ?thesis
  proof cases
    case 2
    then obtain x y where "a = x @ CHR '':'' # y" "CHR '':'' \<notin> set x"
      by (meson split_list_first)
    with 2 show ?thesis by simp
  qed simp_all
qed

lemma bad_tag_iff: "bad_tag data tag bad \<longleftrightarrow> (\<exists>v. om_get (pc_tags data) tag = Some v \<and> bad v)"
  by (simp add: bad_tag_def split: option.split)

lemma unless_None: "(if c then Some x else y) = None \<longleftrightarrow> \<not> c \<and> y = None"
  by simp

lemma origin_tag_iff: "CHR '':'' \<in> set u \<or> origin_of i \<noteq> u \<longleftrightarrow> u \<noteq> origin_of i"
  using origin_no_colon [of i] by auto

lemma validate_create_None:
  "validate_create E data = None \<longleftrightarrow>
     pc_id data \<noteq> [] \<and> CHR 0x00 \<notin> set (pc_id data) \<and> le64 0 (pc_timeout_at data)
     \<and> (\<forall>u. om_get (pc_tags data) TAG_TARGET = Some u \<longrightarrow> x_url_parses E u)
     \<and> (\<forall>u. om_get (pc_tags data) ''resonate:origin'' = Some u \<longrightarrow> u = origin_of (pc_id data))
     \<and> (\<forall>u. om_get (pc_tags data) ''resonate:branch'' = Some u \<longrightarrow> is_ancestor u (pc_id data))
     \<and> (\<forall>u. om_get (pc_tags data) ''resonate:parent'' = Some u \<longrightarrow> is_ancestor u (pc_id data))
     \<and> (\<forall>u. om_get (pc_tags data) ''resonate:prefix'' = Some u \<longrightarrow> CHR '':'' \<notin> set u)
     \<and> (\<forall>u. om_get (pc_tags data) TAG_DELAY = Some u \<longrightarrow>
          (\<exists>d. parse_i64 u = Some d \<and> le64 0 d \<and> lt64 d (pc_timeout_at data))
          \<and> om_get (pc_tags data) TAG_TARGET \<noteq> None)"
proof -
  have valid: "delay_valid data u \<longleftrightarrow> (\<exists>d. parse_i64 u = Some d \<and> le64 0 d \<and> lt64 d (pc_timeout_at data))
      \<and> om_get (pc_tags data) TAG_TARGET \<noteq> None" for u
    by (simp add: delay_valid_def split: option.split)
  show ?thesis
    unfolding validate_create_def bad_tag_iff unless_None contains_set is_url_def origin_tag_iff valid
    unfolding not_less by blast
qed

lemma validate_create_400: "validate_create E data = Some r \<Longrightarrow> status r = 400"
  by (auto simp: validate_create_def split: if_splits)

lemma search_limit_bounds:
  "search_limit l d = Inr n \<Longrightarrow> 1 \<le> d \<Longrightarrow> d \<le> MAX_SEARCH_LIMIT \<Longrightarrow> 1 \<le> n \<and> n \<le> MAX_SEARCH_LIMIT"
  by (auto simp: search_limit_def split: option.splits if_splits)

end
