(* ===== verification/Kernel.thy ===== *)
theory Kernel
  imports Txn Requests
begin

text \<open>
  The state machine of \<open>src/kernel.rs\<close> below the request handlers: deadlines, settlement and
  its consequences, the wake-up of awaiters, acquisition, creation, schedule firing and the
  delivery of a claimed job; and \<open>fire\<close> of \<open>src/timers.rs\<close>.  A function that writes into its
  \<open>&mut\<close> argument returns the new value.
\<close>

section \<open>Settlement\<close>

text \<open>How a settled awaited promise reached an awaiter.\<close>

datatype wake = Fanout | Registration

definition resume_awaiter ::
  "('q, 'x) env_scheme \<Rightarrow> string \<Rightarrow> string \<Rightarrow> wake \<Rightarrow> ('q txn, unit) tx" where
  "resume_awaiter E awaiter awaited wake =
     bnd (get_task E awaiter) (\<lambda>found. case found of
       None \<Rightarrow> ret ()
     | Some task \<Rightarrow> (case t_state task of
         TSuspended \<Rightarrow>
           bnd (dispatch E ((transition task TPending)\<lparr>t_resumes := os_of_list [awaited]\<rparr>) None)
             (\<lambda>_. ret ())
       | TPending \<Rightarrow> put_task (task\<lparr>t_resumes := os_insert awaited (t_resumes task)\<rparr>)
       | TAcquired \<Rightarrow> put_task (task\<lparr>t_resumes := os_insert awaited (t_resumes task)\<rparr>)
       | THalted \<Rightarrow>
           if wake = Fanout then put_task (task\<lparr>t_resumes := os_insert awaited (t_resumes task)\<rparr>)
           else ret ()
       | TFulfilled \<Rightarrow> ret ()))"

definition unblock_message :: "promise_record \<Rightarrow> json" where
  "unblock_message p =
     jobj [(''kind'', JString ''unblock''), (''head'', jobj []),
           (''data'', jobj [(''promise'', enc_promise p)])]"

text \<open>The promise's own task is fulfilled and its held claim released after the commit.\<close>

definition fulfil_own_task :: "('q, 'x) env_scheme \<Rightarrow> string \<Rightarrow> ('q txn, unit) tx" where
  "fulfil_own_task E i =
     bnd (get_task E i) (\<lambda>found. case found of
       None \<Rightarrow> ret ()
     | Some task \<Rightarrow>
         if t_state task \<noteq> TFulfilled then
           andthen (put_task ((transition task TFulfilled)\<lparr>t_resumes := om_empty\<rparr>))
             (release (t_id task))
         else ret ())"

text \<open>One round of the loop over the registered awaiters.\<close>

definition wake_awaiter :: "('q, 'x) env_scheme \<Rightarrow> string \<Rightarrow> string \<Rightarrow> ('q txn, unit) tx" where
  "wake_awaiter E awaited awaiter =
     bnd (get_promise E awaiter) (\<lambda>found. bnd (asks now) (\<lambda>time. case found of
       None \<Rightarrow> ret ()
     | Some awaiting \<Rightarrow>
         if is_pending (sp_record awaiting) \<and> lt64 time (p_timeout_at (sp_record awaiting))
         then resume_awaiter E awaiter awaited Fanout else ret ()))"

definition settle_chain ::
  "('q, 'x) env_scheme \<Rightarrow> stored_promise \<Rightarrow> ('q txn, stored_promise) tx" where
  "settle_chain E promise =
     (let callbacks = sp_callbacks promise;
          listeners = sp_listeners promise;
          promise' = promise\<lparr>sp_callbacks := [], sp_listeners := []\<rparr>;
          i = p_id (sp_record promise)
      in andthen (fulfil_own_task E i) (
         andthen (put_promise promise') (
         andthen (for_each (wake_awaiter E i) callbacks) (
         andthen (for_each (\<lambda>address. send_unblock E address (unblock_message (sp_record promise')))
           listeners) (
         ret promise')))))"

definition expired_record :: "promise_record \<Rightarrow> promise_record" where
  "expired_record p = p\<lparr>p_state := timeout_state p, p_settled_at := Some (p_timeout_at p)\<rparr>"

definition expire_promise ::
  "('q, 'x) env_scheme \<Rightarrow> stored_promise \<Rightarrow> ('q txn, stored_promise) tx" where
  "expire_promise E promise = settle_chain E (promise\<lparr>sp_record := expired_record (sp_record promise)\<rparr>)"

definition settled_record :: "i64 \<Rightarrow> settle_state \<Rightarrow> promise_value \<Rightarrow> promise_record \<Rightarrow> promise_record"
  where
  "settled_record time state value p =
     p\<lparr>p_state := settled_as state, p_value := value, p_settled_at := Some time\<rparr>"

definition settle ::
  "('q, 'x) env_scheme \<Rightarrow> stored_promise \<Rightarrow> settle_state \<Rightarrow> promise_value \<Rightarrow>
   ('q txn, stored_promise) tx" where
  "settle E promise state value =
     bnd (asks now) (\<lambda>time.
     settle_chain E (promise\<lparr>sp_record := settled_record time state value (sp_record promise)\<rparr>))"

text \<open>Settle a named promise whose deadline has passed, and every one of several.\<close>

definition expired :: "i64 \<Rightarrow> promise_record \<Rightarrow> bool" where
  "expired time p \<longleftrightarrow> is_pending p \<and> le64 (p_timeout_at p) time"

definition timeout_one :: "('q, 'x) env_scheme \<Rightarrow> string \<Rightarrow> ('q txn, unit) tx" where
  "timeout_one E i =
     bnd (get_promise E i) (\<lambda>found. bnd (asks now) (\<lambda>time. case found of
       None \<Rightarrow> ret ()
     | Some promise \<Rightarrow>
         if expired time (sp_record promise) then bnd (expire_promise E promise) (\<lambda>_. ret ())
         else ret ()))"

definition try_timeout :: "('q, 'x) env_scheme \<Rightarrow> string list \<Rightarrow> ('q txn, unit) tx" where
  "try_timeout E ids = for_each (timeout_one E) ids"

section \<open>Acquisition\<close>

definition acquired :: "stored_task \<Rightarrow> string \<Rightarrow> i64 \<Rightarrow> stored_task" where
  "acquired task pid ttl =
     task\<lparr>t_state := TAcquired, t_version := t_version task + 1, t_pid := Some pid,
       t_ttl := Some ttl, t_resumes := om_empty\<rparr>"

text \<open>The acquired task, or \<open>None\<close> when its claim is not held or its lease has ended.\<close>

definition acquire ::
  "('q, 'x) env_scheme \<Rightarrow> stored_task \<Rightarrow> string \<Rightarrow> i64 \<Rightarrow> ('q txn, stored_task option) tx" where
  "acquire E task pid ttl =
     bnd (renew E (t_id task) (lease_of ttl)) (\<lambda>renewed.
     if \<not> renewed then ret None
     else andthen (put_task (acquired task pid ttl)) (ret (Some (acquired task pid ttl))))"

section \<open>Creation\<close>

datatype create_mode = Dispatch | Acquire string i64

definition created_record :: "i64 \<Rightarrow> promise_create_data \<Rightarrow> i64 option \<Rightarrow> promise_record" where
  "created_record time data created_at =
     (let already = le64 (pc_timeout_at data) time;
          base = \<lparr>p_id = pc_id data, p_state = PPending, p_param = pc_param data,
            p_value = default_value, p_tags = pc_tags data, p_timeout_at = pc_timeout_at data,
            p_created_at = (if already then pc_timeout_at data
                            else case created_at of None \<Rightarrow> time | Some at \<Rightarrow> at),
            p_settled_at = None\<rparr>
      in if already then base\<lparr>p_state := timeout_state base, p_settled_at := Some (pc_timeout_at data)\<rparr>
         else base)"

text \<open>The time of the \<open>resonate:delay\<close> tag, when it is in the future.\<close>

definition start_delay :: "i64 \<Rightarrow> promise_record \<Rightarrow> i64 option" where
  "start_delay time p =
     (case Option.bind (om_get (p_tags p) TAG_DELAY) parse_i64 of
        None \<Rightarrow> None
      | Some delay \<Rightarrow> if lt64 time delay then Some delay else None)"

definition create_task ::
  "('q, 'x) env_scheme \<Rightarrow> promise_record \<Rightarrow> string \<Rightarrow> create_mode \<Rightarrow> ('q txn, unit) tx" where
  "create_task E p tgt mode =
     bnd (asks now) (\<lambda>time.
     let task = new_task (p_id p) tgt TPending in
     if le64 (p_timeout_at p) time then put_task (task\<lparr>t_state := TFulfilled\<rparr>)
     else (case mode of
       Acquire pid ttl \<Rightarrow>
         bnd (dispatch E (task\<lparr>t_state := TAcquired, t_version := 1, t_pid := Some pid,
             t_ttl := Some ttl\<rparr>) (Some (sat_add time ttl)))
           (\<lambda>task'. claim_after_commit task' (lease_of ttl))
     | Dispatch \<Rightarrow> bnd (dispatch E task (start_delay time p)) (\<lambda>_. ret ())))"

definition create_promise ::
  "('q, 'x) env_scheme \<Rightarrow> promise_create_data \<Rightarrow> i64 option \<Rightarrow> create_mode \<Rightarrow>
   ('q txn, stored_promise) tx" where
  "create_promise E data created_at mode =
     bnd (asks now) (\<lambda>time.
     let promise = \<lparr>sp_record = created_record time data created_at, sp_callbacks = [],
           sp_listeners = []\<rparr>;
         p = sp_record promise
     in andthen (index_branch p) (
        andthen (put_promise promise) (
        andthen (case target p of None \<Rightarrow> ret () | Some tgt \<Rightarrow> create_task E p tgt mode) (
        andthen (if is_pending p \<and> is_external p
                 then schedule_timer (PromiseTimeout (p_id p)) (p_timeout_at p) else ret ()) (
        ret promise)))))"

section \<open>Schedules\<close>

text \<open>The promise a schedule creates when it fires at its \<open>nextRunAt\<close>.\<close>

definition schedule_promise_id :: "schedule_record \<Rightarrow> string" where
  "schedule_promise_id s =
     str_replace ''{{.timestamp}}'' (show_i64 (s_next_run_at s))
       (str_replace ''{{.id}}'' (s_id s) (s_promise_id s))"

definition schedule_promise_data :: "schedule_record \<Rightarrow> promise_create_data" where
  "schedule_promise_data s =
     (let i = schedule_promise_id s in
      \<lparr>pc_id = i,
       pc_timeout_at = sat_add (s_next_run_at s) (s_promise_timeout s),
       pc_param = s_promise_param s,
       pc_tags = fold (\<lambda>key. om_insert key i)
         [''resonate:origin'', ''resonate:branch'', ''resonate:parent'', ''resonate:prefix'']
         (om_insert ''resonate:schedule'' (s_id s) (s_promise_tags s))\<rparr>)"

definition fire_schedule :: "('q, 'x) env_scheme \<Rightarrow> schedule_record \<Rightarrow> ('q txn, unit) tx" where
  "fire_schedule E s =
     (let fired_at = s_next_run_at s in
      bnd (get_promise E (schedule_promise_id s)) (\<lambda>existing.
      andthen (case existing of
          None \<Rightarrow> bnd (create_promise E (schedule_promise_data s) (Some fired_at) Dispatch) (\<lambda>_. ret ())
        | Some _ \<Rightarrow> ret ()) (
      case next_after E (s_cron s) fired_at of
        Some nxt \<Rightarrow>
          andthen (schedule_timer (ScheduleAt (s_id s) nxt) nxt)
            (put_schedule (s\<lparr>s_last_run_at := Some fired_at, s_next_run_at := nxt\<rparr>))
      | None \<Rightarrow> put_schedule (s\<lparr>s_last_run_at := Some fired_at\<rparr>))))"

section \<open>Timers\<close>

text \<open>\<open>fire\<close> of \<open>src/timers.rs\<close>: an outdated timer ends without a commit.\<close>

definition fire :: "('q, 'x) env_scheme \<Rightarrow> timer \<Rightarrow> ('q txn, unit) tx" where
  "fire E tm = (case tm of
     PromiseTimeout i \<Rightarrow>
       bnd (get_promise E i) (\<lambda>found. case found of
         None \<Rightarrow> ret ()
       | Some promise \<Rightarrow>
           if \<not> is_pending (sp_record promise) then ret ()
           else bnd (expire_promise E promise) (\<lambda>_. commit E))
   | ScheduleAt i at \<Rightarrow>
       bnd (get_schedule E i) (\<lambda>found. case found of
         None \<Rightarrow> ret ()
       | Some s \<Rightarrow>
           if s_next_run_at s \<noteq> at then ret ()
           else andthen (fire_schedule E s) (commit E)))"

section \<open>Delivery\<close>

definition execute_message :: "string \<Rightarrow> i64 \<Rightarrow> json" where
  "execute_message i version =
     jobj [(''kind'', JString ''execute''), (''head'', jobj []),
           (''data'', jobj [(''task'', jobj [(''id'', JString i), (''version'', enc_i64 version)])])]"

definition deliver :: "('q, 'x) env_scheme \<Rightarrow> claim \<Rightarrow> ('q txn, json option) tx" where
  "deliver E claim =
     bnd (reads (\<lambda>_. from_slice E ''Delivery'' dec_delivery (c_payload claim))) (\<lambda>delivery.
     case delivery of
       Unblock message \<Rightarrow>
         andthen (ack_after_commit claim) (andthen (commit E) (ret (Some message)))
     | Execute i \<Rightarrow>
         andthen (try_timeout E [i]) (
         bnd (get_task E i) (\<lambda>found.
         let stale = andthen (ack_after_commit claim) (andthen (commit E) (ret None));
             send = (\<lambda>version. andthen (hold_after_commit i claim)
               (andthen (commit E) (ret (Some (execute_message i version)))))
         in case found of
              None \<Rightarrow> stale
            | Some task \<Rightarrow> (case t_state task of
                TAcquired \<Rightarrow>
                  andthen (put_task (transition task TPending)) (send (t_version task))
              | TPending \<Rightarrow> send (t_version task)
              | TSuspended \<Rightarrow> stale
              | THalted \<Rightarrow> stale
              | TFulfilled \<Rightarrow> stale))))"

end
