(* ===== verification/Protocol.thy ===== *)
theory Protocol
  imports Txn_View Kernel
begin

text \<open>
  The abstract protocol: what the crate promises about promises and tasks, as a state machine
  over the wire records and the states and versions of the tasks; the invariant of the stored
  records; and the lemmas that relate one write of a record to one step of the machine.
\<close>

section \<open>The abstract machine\<close>

record protocol =
  a_promise :: "string \<Rightarrow> promise_record option"
  a_task :: "string \<Rightarrow> (task_state \<times> i64) option"

text \<open>
  A promise begins pending, or in its timeout state when its deadline has passed.  A client
  settles it before its deadline; a deadline settles it to its timeout state, at the deadline
  and with its value unchanged.
\<close>

definition begins :: "promise_record \<Rightarrow> bool" where
  "begins p \<longleftrightarrow> p_value p = default_value \<and>
     (is_pending p \<and> p_settled_at p = None
      \<or> p_state p = timeout_state p \<and> p_settled_at p = Some (p_timeout_at p)
        \<and> p_created_at p = p_timeout_at p)"

inductive settles :: "promise_record \<Rightarrow> promise_record \<Rightarrow> bool" where
  by_client: "lt64 time (p_timeout_at p) \<Longrightarrow> settles p (settled_record time st v p)"
| by_deadline: "settles p (expired_record p)"

text \<open>The states and versions a task begins with, for a pending and for a settled promise.\<close>

inductive task_begins :: "bool \<Rightarrow> task_state \<times> i64 \<Rightarrow> bool" where
  begins_pending: "task_begins True (TPending, 0)"
| begins_acquired: "task_begins True (TAcquired, 1)"
| begins_fulfilled: "task_begins False (TFulfilled, 0)"

text \<open>The moves of a task whose promise is pending.  Only an acquisition changes the version.\<close>

inductive task_moves :: "task_state \<times> i64 \<Rightarrow> task_state \<times> i64 \<Rightarrow> bool" where
  acquires: "task_moves (TPending, v) (TAcquired, v + 1)"
| requeues: "task_moves (TAcquired, v) (TPending, v)"
| suspends: "task_moves (TAcquired, v) (TSuspended, v)"
| resumes: "task_moves (TSuspended, v) (TPending, v)"
| halts: "st \<in> {TPending, TAcquired, TSuspended} \<Longrightarrow> task_moves (st, v) (THalted, v)"
| continues: "task_moves (THalted, v) (TPending, v)"

definition fulfil_task :: "(task_state \<times> i64) option \<Rightarrow> (task_state \<times> i64) option" where
  "fulfil_task x = map_option (\<lambda>(st, v). (TFulfilled, v)) x"

inductive protocol_step :: "protocol \<Rightarrow> protocol \<Rightarrow> bool" where
  create: "a_promise s i = None \<Longrightarrow> a_task s i = None \<Longrightarrow> p_id p = i \<Longrightarrow> begins p \<Longrightarrow>
     target p = None \<Longrightarrow>
     protocol_step s (s\<lparr>a_promise := (a_promise s)(i \<mapsto> p)\<rparr>)"
| create_targeted: "a_promise s i = None \<Longrightarrow> a_task s i = None \<Longrightarrow> p_id p = i \<Longrightarrow> begins p \<Longrightarrow>
     target p \<noteq> None \<Longrightarrow> task_begins (is_pending p) k \<Longrightarrow>
     protocol_step s (s\<lparr>a_promise := (a_promise s)(i \<mapsto> p), a_task := (a_task s)(i \<mapsto> k)\<rparr>)"
| settle: "a_promise s i = Some p \<Longrightarrow> is_pending p \<Longrightarrow> settles p p' \<Longrightarrow>
     protocol_step s (s\<lparr>a_promise := (a_promise s)(i \<mapsto> p'),
       a_task := (a_task s)(i := fulfil_task (a_task s i))\<rparr>)"
| move: "a_promise s i = Some p \<Longrightarrow> is_pending p \<Longrightarrow> a_task s i = Some k \<Longrightarrow> task_moves k k' \<Longrightarrow>
     protocol_step s (s\<lparr>a_task := (a_task s)(i \<mapsto> k')\<rparr>)"

abbreviation protocol_steps :: "protocol \<Rightarrow> protocol \<Rightarrow> bool" where
  "protocol_steps \<equiv> protocol_step\<^sup>*\<^sup>*"

inductive_simps task_moves_simps: "task_moves (st, v) (st', v')"
inductive_cases protocol_stepE: "protocol_step s s'"

definition abs_store :: "('q, 'x) env_scheme \<Rightarrow> store \<Rightarrow> protocol" where
  "abs_store E V =
     \<lparr>a_promise = (\<lambda>i. map_option sp_record (promise_in E V i)),
      a_task = (\<lambda>i. map_option (\<lambda>k. (t_state k, t_version k)) (task_in E V i))\<rparr>"

lemma abs_store_simps [simp]:
  "a_promise (abs_store E V) i = map_option sp_record (promise_in E V i)"
  "a_task (abs_store E V) i = map_option (\<lambda>k. (t_state k, t_version k)) (task_in E V i)"
  by (simp_all add: abs_store_def)

lemma settles_frame:
  "settles p p' \<Longrightarrow> p_id p' = p_id p \<and> p_param p' = p_param p \<and> p_tags p' = p_tags p
     \<and> p_timeout_at p' = p_timeout_at p \<and> p_created_at p' = p_created_at p
     \<and> \<not> is_pending p' \<and> p_settled_at p' \<noteq> None"
  by (induction rule: settles.induct) (auto simp: settled_record_def expired_record_def is_pending_def)

lemma settles_target: "settles p p' \<Longrightarrow> target p' = target p \<and> is_external p' = is_external p"
  by (auto dest!: settles_frame simp: target_def is_external_def is_timer_def)

section \<open>The invariant of the stored records\<close>

definition promise_ok :: "string \<Rightarrow> stored_promise \<Rightarrow> bool" where
  "promise_ok i p \<longleftrightarrow>
     p_id (sp_record p) = i
     \<and> (p_settled_at (sp_record p) = None \<longleftrightarrow> is_pending (sp_record p))
     \<and> (\<not> is_pending (sp_record p) \<longrightarrow> sp_callbacks p = [] \<and> sp_listeners p = [])
     \<and> distinct (sp_callbacks p) \<and> distinct (sp_listeners p) \<and> i \<notin> set (sp_callbacks p)
     \<and> (sp_callbacks p \<noteq> [] \<or> sp_listeners p \<noteq> [] \<longrightarrow> is_external (sp_record p))"

definition task_ok :: "string \<Rightarrow> stored_task \<Rightarrow> bool" where
  "task_ok i k \<longleftrightarrow>
     t_id k = i
     \<and> (t_pid k \<noteq> None \<longleftrightarrow> t_state k = TAcquired) \<and> (t_ttl k \<noteq> None \<longleftrightarrow> t_state k = TAcquired)
     \<and> (t_state k = TSuspended \<or> t_state k = TFulfilled \<longrightarrow> t_resumes k = om_empty)
     \<and> (t_state k \<noteq> TFulfilled \<longrightarrow> t_job k \<noteq> None)"

text \<open>
  A promise has a task exactly when it is targeted, with the same target, and the task is
  fulfilled exactly when the promise is settled.
\<close>

definition pair_ok :: "stored_promise option \<Rightarrow> stored_task option \<Rightarrow> bool" where
  "pair_ok p k = (case (p, k) of
     (None, None) \<Rightarrow> True
   | (None, Some k) \<Rightarrow> False
   | (Some p, None) \<Rightarrow> target (sp_record p) = None
   | (Some p, Some k) \<Rightarrow> target (sp_record p) = Some (t_target k)
       \<and> (t_state k = TFulfilled \<longleftrightarrow> \<not> is_pending (sp_record p)))"

definition schedule_ok :: "string \<Rightarrow> schedule_record \<Rightarrow> bool" where
  "schedule_ok i s \<longleftrightarrow>
     s_id s = i \<and> le64 0 (s_promise_timeout s) \<and> om_get (s_promise_tags s) TAG_TARGET \<noteq> None"

definition good :: "('q, 'x) env_scheme \<Rightarrow> store \<Rightarrow> bool" where
  "good E V \<longleftrightarrow> readable E V
     \<and> (\<forall>i p. promise_in E V i = Some p \<longrightarrow> promise_ok i p)
     \<and> (\<forall>i k. task_in E V i = Some k \<longrightarrow> task_ok i k)
     \<and> (\<forall>i. pair_ok (promise_in E V i) (task_in E V i))
     \<and> (\<forall>i p c. promise_in E V i = Some p \<longrightarrow> c \<in> set (sp_callbacks p) \<longrightarrow> task_in E V c \<noteq> None)
     \<and> (\<forall>i s. schedule_in E V i = Some s \<longrightarrow> schedule_ok i s)"

lemma goodD:
  assumes "good E V"
  shows "readable E V"
    and "promise_in E V i = Some p \<Longrightarrow> promise_ok i p"
    and "task_in E V i = Some k \<Longrightarrow> task_ok i k"
    and "pair_ok (promise_in E V i) (task_in E V i)"
    and "promise_in E V i = Some p \<Longrightarrow> c \<in> set (sp_callbacks p) \<Longrightarrow> task_in E V c \<noteq> None"
    and "schedule_in E V i = Some s \<Longrightarrow> schedule_ok i s"
  using assms by (auto simp: good_def)

lemma pair_ok_simps [simp]:
  "pair_ok None None"
  "\<not> pair_ok None (Some k)"
  "pair_ok (Some p) None \<longleftrightarrow> target (sp_record p) = None"
  "pair_ok (Some p) (Some k) \<longleftrightarrow> target (sp_record p) = Some (t_target k)
     \<and> (t_state k = TFulfilled \<longleftrightarrow> \<not> is_pending (sp_record p))"
  by (simp_all add: pair_ok_def)

text \<open>What a task or a targeted promise says about its counterpart.\<close>

lemma good_task_promise:
  assumes "good E V" "task_in E V i = Some k"
  obtains p where "promise_in E V i = Some p" "target (sp_record p) = Some (t_target k)"
    "t_state k = TFulfilled \<longleftrightarrow> \<not> is_pending (sp_record p)"
  using goodD(4) [OF assms(1), of i] assms(2) by (cases "promise_in E V i") auto

lemma good_target_task:
  assumes "good E V" "promise_in E V i = Some p" "target (sp_record p) \<noteq> None"
  obtains k where "task_in E V i = Some k" "t_target k = the (target (sp_record p))"
    "t_state k = TFulfilled \<longleftrightarrow> \<not> is_pending (sp_record p)"
  using goodD(4) [OF assms(1), of i] assms(2,3) by (cases "task_in E V i") auto

lemma good_no_promise: "good E V \<Longrightarrow> promise_in E V i = None \<Longrightarrow> task_in E V i = None"
  using goodD(4) [of E V i] by (cases "task_in E V i") auto

lemma good_same_records:
  assumes "same_records E V W" "good E V"
  shows "good E W" "abs_store E W = abs_store E V"
  using assms by (simp_all add: same_records_def good_def abs_store_def)

section \<open>One write, one step\<close>

text \<open>
  A task is rewritten: its state moves, or only what the abstract machine does not see changes.
\<close>

lemma put_task_good:
  assumes "good E V" "task_in E V i = Some k" "task_ok i k'" "t_target k' = t_target k"
    and "t_state k' = TFulfilled \<longleftrightarrow> t_state k = TFulfilled"
  shows "good E (put_t k' V)"
proof -
  have [simp]: "t_id k' = i" using assms(3) by (simp add: task_ok_def)
  have "pair_ok (promise_in E V i) (Some k')"
    using goodD(4) [OF assms(1), of i] assms(2,4,5) by (cases "promise_in E V i") auto
  then show ?thesis
    using assms(1,3) by (auto simp: good_def)
qed

lemma put_task_steps:
  assumes "good E V" "task_in E V i = Some k" "t_id k' = i" "t_state k \<noteq> TFulfilled"
    and "task_moves (t_state k, t_version k) (t_state k', t_version k')
      \<or> (t_state k', t_version k') = (t_state k, t_version k)"
  shows "protocol_steps (abs_store E V) (abs_store E (put_t k' V))"
proof -
  obtain p where p: "promise_in E V i = Some p" "is_pending (sp_record p)"
    using good_task_promise [OF assms(1,2)] assms(4) by metis
  have eq: "abs_store E (put_t k' V) =
      (abs_store E V)\<lparr>a_task := (a_task (abs_store E V))(i \<mapsto> (t_state k', t_version k'))\<rparr>"
    using assms(3) by (auto simp: abs_store_def fun_eq_iff)
  from assms(5) show ?thesis
  proof
    assume "task_moves (t_state k, t_version k) (t_state k', t_version k')"
    then have "protocol_step (abs_store E V) (abs_store E (put_t k' V))"
      unfolding eq by (intro protocol_step.move [where p = "sp_record p"]) (use p assms(2) in auto)
    then show ?thesis by blast
  next
    assume "(t_state k', t_version k') = (t_state k, t_version k)"
    then have "abs_store E (put_t k' V) = abs_store E V"
      using assms(2,3) by (auto simp: abs_store_def fun_eq_iff)
    then show ?thesis by simp
  qed
qed

text \<open>The registrations of a pending promise change.\<close>

lemma put_registrations_good:
  assumes "good E V" "promise_in E V i = Some p" "promise_ok i p'" "sp_record p' = sp_record p"
    and "\<forall>c \<in> set (sp_callbacks p'). task_in E V c \<noteq> None"
  shows "good E (put_p p' V)" "abs_store E (put_p p' V) = abs_store E V"
proof -
  have i: "p_id (sp_record p) = i" using assms(3,4) by (simp add: promise_ok_def)
  have "pair_ok (Some p') (task_in E V i)"
    using goodD(4) [OF assms(1), of i] assms(2,4) by (cases "task_in E V i") auto
  then show "good E (put_p p' V)"
    using assms i by (auto simp: good_def)
  show "abs_store E (put_p p' V) = abs_store E V"
    using assms i by (auto simp: abs_store_def fun_eq_iff)
qed

text \<open>A promise is settled and its task fulfilled.\<close>

definition fulfilled_task :: "stored_task \<Rightarrow> stored_task" where
  "fulfilled_task k = (transition k TFulfilled)\<lparr>t_resumes := om_empty\<rparr>"

definition settle_store ::
  "('q, 'x) env_scheme \<Rightarrow> string \<Rightarrow> stored_promise \<Rightarrow> store \<Rightarrow> store" where
  "settle_store E i p V = put_p p (case task_in E V i of
     Some k \<Rightarrow> if t_state k \<noteq> TFulfilled then put_t (fulfilled_task k) V else V
   | None \<Rightarrow> V)"

lemma fulfilled_task_simps [simp]:
  "t_id (fulfilled_task k) = t_id k" "t_state (fulfilled_task k) = TFulfilled"
  "t_version (fulfilled_task k) = t_version k" "t_target (fulfilled_task k) = t_target k"
  "t_job (fulfilled_task k) = t_job k" "t_pid (fulfilled_task k) = None"
  "t_ttl (fulfilled_task k) = None" "t_resumes (fulfilled_task k) = om_empty"
  by (simp_all add: fulfilled_task_def)

lemma fulfilled_task_ok: "t_id k = i \<Longrightarrow> task_ok i (fulfilled_task k)"
  by (simp add: task_ok_def)

lemma settle_store_tasks:
  assumes "good E V"
  shows "task_in E (settle_store E i p V) j =
    (if j = i then map_option (\<lambda>k. if t_state k \<noteq> TFulfilled then fulfilled_task k else k) (task_in E V i)
     else task_in E V j)"
  using goodD(3) [OF assms, of i] by (auto simp: settle_store_def task_ok_def split: option.split)

lemma settle_store_good:
  assumes good: "good E V" and p: "promise_in E V i = Some p" "is_pending (sp_record p)"
    and p': "settles (sp_record p) (sp_record p')" "sp_callbacks p' = []" "sp_listeners p' = []"
  shows "good E (settle_store E i p' V)"
    and "protocol_steps (abs_store E V) (abs_store E (settle_store E i p' V))"
    and "promise_in E (settle_store E i p' V) j = (if j = i then Some p' else promise_in E V j)"
proof -
  have i: "p_id (sp_record p') = i"
    using settles_frame [OF p'(1)] goodD(2) [OF good p(1)] by (simp add: promise_ok_def)
  show promise: "promise_in E (settle_store E i p' V) j = (if j = i then Some p' else promise_in E V j)"
    for j
    using i by (auto simp: settle_store_def split: option.split)
  have sched: "schedule_in E (settle_store E i p' V) = schedule_in E V"
    by (auto simp: settle_store_def split: option.split)
  have tasks: "task_in E (settle_store E i p' V) j = (if j = i then map_option fulfilled_task (task_in E V i)
      else task_in E V j)" for j
    unfolding settle_store_tasks [OF good]
    using goodD(4) [OF good, of i] p by (cases "task_in E V i") auto
  have "readable E (settle_store E i p' V)"
    using goodD(1) [OF good] by (auto simp: settle_store_def split: option.split)
  moreover have "promise_ok i p'"
    using p' i settles_frame [OF p'(1)] by (simp add: promise_ok_def)
  moreover have "task_ok i (fulfilled_task k)" if "task_in E V i = Some k" for k
    using goodD(3) [OF good that] by (intro fulfilled_task_ok) (simp add: task_ok_def)
  moreover have "pair_ok (Some p') (map_option fulfilled_task (task_in E V i))"
    using goodD(4) [OF good, of i] p settles_target [OF p'(1)] settles_frame [OF p'(1)]
    by (cases "task_in E V i") auto
  ultimately show "good E (settle_store E i p' V)"
    using good p'(2) by (auto simp: good_def promise tasks sched)
  have "abs_store E (settle_store E i p' V) =
      (abs_store E V)\<lparr>a_promise := (a_promise (abs_store E V))(i \<mapsto> sp_record p'),
        a_task := (a_task (abs_store E V))(i := fulfil_task (a_task (abs_store E V) i))\<rparr>"
    by (auto simp: abs_store_def promise tasks fulfil_task_def fun_eq_iff option.map_comp comp_def)
  moreover have "protocol_step (abs_store E V) \<dots>"
    using p p' by (intro protocol_step.settle [where p = "sp_record p"]) auto
  ultimately show "protocol_steps (abs_store E V) (abs_store E (settle_store E i p' V))"
    by simp
qed

text \<open>A promise is created, and its task with it when it is targeted.\<close>

lemma create_store_good:
  assumes good: "good E V" and none: "promise_in E V i = None"
    and p: "p_id p = i" "begins p" "target p = None"
  shows "good E (put_p \<lparr>sp_record = p, sp_callbacks = [], sp_listeners = []\<rparr> V)"
    and "protocol_steps (abs_store E V)
      (abs_store E (put_p \<lparr>sp_record = p, sp_callbacks = [], sp_listeners = []\<rparr> V))"
proof -
  let ?p = "\<lparr>sp_record = p, sp_callbacks = [], sp_listeners = []\<rparr>"
  have task: "task_in E V i = None"
    using good_no_promise [OF good none] .
  have "promise_ok i ?p"
    using p(1,2) by (auto simp: promise_ok_def begins_def is_pending_def)
  then show "good E (put_p ?p V)"
    using good p task by (auto simp: good_def)
  have "abs_store E (put_p ?p V) =
      (abs_store E V)\<lparr>a_promise := (a_promise (abs_store E V))(i \<mapsto> p)\<rparr>"
    using p by (auto simp: abs_store_def fun_eq_iff)
  moreover have "protocol_step (abs_store E V) \<dots>"
    using none task p by (intro protocol_step.create) auto
  ultimately show "protocol_steps (abs_store E V) (abs_store E (put_p ?p V))"
    by simp
qed

lemma create_targeted_good:
  assumes good: "good E V" and none: "promise_in E V i = None"
    and p: "p_id p = i" "begins p" "target p = Some (t_target k)"
    and k: "task_ok i k" "task_begins (is_pending p) (t_state k, t_version k)"
  shows "good E (put_t k (put_p \<lparr>sp_record = p, sp_callbacks = [], sp_listeners = []\<rparr> V))"
    and "protocol_steps (abs_store E V)
      (abs_store E (put_t k (put_p \<lparr>sp_record = p, sp_callbacks = [], sp_listeners = []\<rparr> V)))"
proof -
  let ?p = "\<lparr>sp_record = p, sp_callbacks = [], sp_listeners = []\<rparr>"
  have task: "task_in E V i = None"
    using good_no_promise [OF good none] .
  have k_id: "t_id k = i"
    using k(1) by (simp add: task_ok_def)
  have "promise_ok i ?p"
    using p(1,2) by (auto simp: promise_ok_def begins_def is_pending_def)
  moreover have "t_state k = TFulfilled \<longleftrightarrow> \<not> is_pending p"
    using k(2) by (auto elim: task_begins.cases)
  ultimately show "good E (put_t k (put_p ?p V))"
    using good p k k_id by (auto simp: good_def)
  have "abs_store E (put_t k (put_p ?p V)) =
      (abs_store E V)\<lparr>a_promise := (a_promise (abs_store E V))(i \<mapsto> p),
        a_task := (a_task (abs_store E V))(i \<mapsto> (t_state k, t_version k))\<rparr>"
    using p k_id by (auto simp: abs_store_def fun_eq_iff)
  moreover have "protocol_step (abs_store E V) \<dots>"
    using none task p k by (intro protocol_step.create_targeted) auto
  ultimately show "protocol_steps (abs_store E V) (abs_store E (put_t k (put_p ?p V)))"
    by simp
qed

text \<open>Schedules are not part of the abstract machine.\<close>

lemma put_schedule_good:
  assumes "good E V" "schedule_ok i s"
  shows "good E (put_s s V)" "abs_store E (put_s s V) = abs_store E V"
  using assms by (auto simp: good_def schedule_ok_def abs_store_def)

lemma delete_schedule_good:
  assumes "good E V"
  shows "good E (del_s i V)" "abs_store E (del_s i V) = abs_store E V"
  using assms by (auto simp: good_def abs_store_def)

section \<open>What the abstract machine never undoes\<close>

lemma protocol_step_frame:
  assumes "protocol_step s s'" "a_promise s i = Some p"
  obtains p' where "a_promise s' i = Some p'" "p' = p \<or> is_pending p \<and> settles p p'"
proof -
  have "\<exists>p'. a_promise s' i = Some p' \<and> (p' = p \<or> is_pending p \<and> settles p p')"
    using assms by (cases rule: protocol_step.cases) auto
  with that show ?thesis by blast
qed

lemma protocol_steps_settled:
  "protocol_steps s s' \<Longrightarrow> a_promise s i = Some p \<Longrightarrow> \<not> is_pending p \<Longrightarrow> a_promise s' i = Some p"
proof (induction rule: rtranclp_induct)
  case base
  then show ?case by simp
next
  case (step t u)
  then show ?case by (metis protocol_step_frame)
qed

lemma protocol_steps_promise:
  assumes "protocol_steps s s'" "a_promise s i = Some p"
  obtains p' where "a_promise s' i = Some p'" "p' = p \<or> is_pending p \<and> settles p p'"
proof -
  have "\<exists>p'. a_promise s' i = Some p' \<and> (p' = p \<or> is_pending p \<and> settles p p')"
    using assms
  proof (induction rule: rtranclp_induct)
    case base
    then show ?case by simp
  next
    case (step t u)
    then obtain p1 where p1: "a_promise t i = Some p1" "p1 = p \<or> is_pending p \<and> settles p p1"
      by blast
    from step.hyps(2) p1(1) obtain p2
      where "a_promise u i = Some p2" "p2 = p1 \<or> is_pending p1 \<and> settles p1 p2"
      by (rule protocol_step_frame)
    with p1 show ?case using settles_frame by metis
  qed
  with that show ?thesis by blast
qed

end
