(* ===== verification/Kernel_Steps.thy ===== *)
theory Kernel_Steps
  imports Protocol
begin

text \<open>
  The operations of \<open>Kernel\<close> keep the invariant of the stored records and refine the abstract
  protocol: each is specified by a weakest-precondition lemma that also says what it does to
  the records it names.  The errors they can return are storage errors.
\<close>

section \<open>The invariant of a transaction\<close>

text \<open>
  \<open>tx_inv E kv t0 t\<close>: the transaction that began as \<open>t0\<close> is now \<open>t\<close>; the queue's records are as
  they were, the view is good, and it was reached by steps of the abstract protocol.
\<close>

definition tx_inv ::
  "('q, 'x) env_scheme \<Rightarrow> ('q \<Rightarrow> store) \<Rightarrow> 'q txn \<Rightarrow> 'q txn \<Rightarrow> bool" where
  "tx_inv E kv t0 t \<longleftrightarrow> same_base kv t0 t \<and> good E (view kv t)
     \<and> protocol_steps (abs_store E (view kv t0)) (abs_store E (view kv t))"

definition keeps ::
  "('q, 'x) env_scheme \<Rightarrow> ('q \<Rightarrow> store) \<Rightarrow> 'q txn \<Rightarrow> ('a \<Rightarrow> 'q txn \<Rightarrow> bool) \<Rightarrow>
   error + 'a \<Rightarrow> 'q txn \<Rightarrow> bool" where
  "keeps E kv t0 P r t \<longleftrightarrow> tx_inv E kv t0 t
     \<and> (case r of Inl e \<Rightarrow> \<exists>x. e = Storage x | Inr x \<Rightarrow> P x t)"

lemma keeps_simps [simp]:
  "keeps E kv t0 P (Inr x) t \<longleftrightarrow> tx_inv E kv t0 t \<and> P x t"
  "keeps E kv t0 P (Inl (Storage x')) t \<longleftrightarrow> tx_inv E kv t0 t"
  by (simp_all add: keeps_def)

lemma keeps_error: "keeps E kv t0 P (Inl e) t \<Longrightarrow> keeps E kv t0 Q (Inl e) t"
  by (simp add: keeps_def)

lemma tx_inv_start: "good E (view kv t) \<Longrightarrow> tx_inv E kv t t"
  by (simp add: tx_inv_def)

lemma tx_invD:
  assumes "tx_inv E kv t0 t"
  shows "good E (view kv t)" "readable E (view kv t)" "same_base kv t0 t" "now t = now t0"
  using assms by (auto simp: tx_inv_def goodD same_base_def)

lemma tx_inv_step:
  assumes "tx_inv E kv t0 t" "same_base kv t t'" "good E (view kv t')"
    and "protocol_steps (abs_store E (view kv t)) (abs_store E (view kv t'))"
  shows "tx_inv E kv t0 t'"
  using assms by (auto simp: tx_inv_def intro: same_base_trans rtranclp_trans)

lemma tx_inv_view:
  assumes "tx_inv E kv t0 t" "same_base kv t t'" "view kv t' = view kv t"
  shows "tx_inv E kv t0 t'"
  using assms by (auto simp: tx_inv_def intro: same_base_trans)

text \<open>Sequencing of specifications, and reads inside a specified computation.\<close>

lemma keeps_bnd:
  assumes "wp m (keeps E kv t0 P) t"
    and "\<And>x t'. tx_inv E kv t0 t' \<Longrightarrow> P x t' \<Longrightarrow> wp (f x) (keeps E kv t0 Q) t'"
  shows "wp (bnd m f) (keeps E kv t0 Q) t"
  by (rule wp_bndI [OF assms(1)]) (auto intro: keeps_error assms(2))

lemma keeps_andthen:
  assumes "wp m (keeps E kv t0 P) t"
    and "\<And>x t'. tx_inv E kv t0 t' \<Longrightarrow> P x t' \<Longrightarrow> wp n (keeps E kv t0 Q) t'"
  shows "wp (andthen m n) (keeps E kv t0 Q) t"
  by (rule wp_andthenI [OF assms(1)]) (auto intro: keeps_error assms(2))

lemma keeps_mono:
  assumes "wp m (keeps E kv t0 P) t" "\<And>x t'. tx_inv E kv t0 t' \<Longrightarrow> P x t' \<Longrightarrow> Q x t'"
  shows "wp m (keeps E kv t0 Q) t"
  by (rule wp_mono [OF assms(1)]) (auto simp: keeps_def assms(2) split: sum.splits)

lemma keeps_get_promise:
  assumes "queue_contract E kv" "tx_inv E kv t0 t"
    and "wp (f (promise_in E (view kv t) i)) (keeps E kv t0 Q) t"
  shows "wp (bnd (get_promise E i) f) (keeps E kv t0 Q) t"
  using assms by (intro wp_bnd wp_get_promise [where kv = kv]) (auto simp: tx_invD)

lemma keeps_get_task:
  assumes "queue_contract E kv" "tx_inv E kv t0 t"
    and "wp (f (task_in E (view kv t) i)) (keeps E kv t0 Q) t"
  shows "wp (bnd (get_task E i) f) (keeps E kv t0 Q) t"
  using assms by (intro wp_bnd wp_get_task [where kv = kv]) (auto simp: tx_invD)

lemma keeps_get_schedule:
  assumes "queue_contract E kv" "tx_inv E kv t0 t"
    and "wp (f (schedule_in E (view kv t) i)) (keeps E kv t0 Q) t"
  shows "wp (bnd (get_schedule E i) f) (keeps E kv t0 Q) t"
  using assms by (intro wp_bnd wp_get_schedule [where kv = kv]) (auto simp: tx_invD)

lemma keeps_asks: "wp (f (h t)) Q t \<Longrightarrow> wp (bnd (asks h) f) Q t"
  by (rule wp_bnd) simp

text \<open>Operations that leave the view alone.\<close>

lemma keeps_silent:
  assumes "tx_inv E kv t0 t"
    and "\<And>Q'. (\<And>t'. same_base kv t t' \<Longrightarrow> view kv t' = view kv t \<Longrightarrow> Q' (Inr ()) t') \<Longrightarrow> wp m Q' t"
  shows "wp m (keeps E kv t0 (\<lambda>_ t'. view kv t' = view kv t)) t"
  by (rule assms(2)) (auto intro: tx_inv_view [OF assms(1)])

section \<open>A write of a task\<close>

text \<open>
  The writes of a task the kernel makes, as one rule: the task keeps its id, its target and
  whether it is fulfilled, and its state moves or stays.
\<close>

definition task_write :: "stored_task \<Rightarrow> stored_task \<Rightarrow> bool" where
  "task_write k k' \<longleftrightarrow> t_target k' = t_target k \<and> t_state k \<noteq> TFulfilled \<and> t_state k' \<noteq> TFulfilled
     \<and> (task_moves (t_state k, t_version k) (t_state k', t_version k')
        \<or> (t_state k', t_version k') = (t_state k, t_version k))"

lemma tx_inv_put_task:
  assumes "tx_inv E kv t0 t" "task_in E (view kv t) i = Some k" "task_ok i k'" "task_write k k'"
    and "same_base kv t t'" "view kv t' = put_t k' (view kv t)"
  shows "tx_inv E kv t0 t'"
proof (rule tx_inv_step [OF assms(1,5)])
  show "good E (view kv t')"
    unfolding assms(6) using assms(1-4)
    by (intro put_task_good) (auto simp: task_write_def tx_invD)
  show "protocol_steps (abs_store E (view kv t)) (abs_store E (view kv t'))"
    unfolding assms(6) using assms(1-4)
    by (intro put_task_steps) (auto simp: task_write_def task_ok_def tx_invD)
qed

lemma keeps_put_task:
  assumes "tx_inv E kv t0 t" "task_in E (view kv t) i = Some k" "task_ok i k'" "task_write k k'"
  shows "wp (put_task k') (keeps E kv t0 (\<lambda>_ t'. view kv t' = put_t k' (view kv t))) t"
  by (rule wp_put_task) (auto intro: tx_inv_put_task assms)

lemma keeps_dispatch:
  assumes "queue_contract E kv" "tx_inv E kv t0 t" "task_in E (view kv t) i = Some k"
    and "\<And>job. task_ok i (k'\<lparr>t_job := Some job\<rparr>)" "task_write k k'"
  shows "wp (dispatch E k' at) (keeps E kv t0 (\<lambda>x t'. \<exists>job. x = k'\<lparr>t_job := Some job\<rparr> \<and>
    view kv t' = put_t (k'\<lparr>t_job := Some job\<rparr>) (view kv t))) t"
proof (rule wp_dispatch [OF assms(1)])
  fix t' job
  assume "same_base kv t t'" "view kv t' = put_t (k'\<lparr>t_job := Some job\<rparr>) (view kv t)"
  moreover have "task_write k (k'\<lparr>t_job := Some job\<rparr>)"
    using assms(5) by (simp add: task_write_def)
  ultimately show "keeps E kv t0 (\<lambda>x t'. \<exists>job. x = k'\<lparr>t_job := Some job\<rparr> \<and>
    view kv t' = put_t (k'\<lparr>t_job := Some job\<rparr>) (view kv t)) (Inr (k'\<lparr>t_job := Some job\<rparr>)) t'"
    using assms by (auto intro: tx_inv_put_task)
qed

section \<open>Waking an awaiter\<close>

text \<open>What a settled awaited promise does to its awaiter's task.\<close>

definition resumed :: "wake \<Rightarrow> string \<Rightarrow> stored_task \<Rightarrow> stored_task \<Rightarrow> bool" where
  "resumed w awaited k k' \<longleftrightarrow> (case t_state k of
     TSuspended \<Rightarrow> \<exists>job. k' = (transition k TPending)
       \<lparr>t_resumes := os_of_list [awaited], t_job := Some job\<rparr>
   | TPending \<Rightarrow> k' = k\<lparr>t_resumes := os_insert awaited (t_resumes k)\<rparr>
   | TAcquired \<Rightarrow> k' = k\<lparr>t_resumes := os_insert awaited (t_resumes k)\<rparr>
   | THalted \<Rightarrow> k' = (if w = Fanout then k\<lparr>t_resumes := os_insert awaited (t_resumes k)\<rparr> else k)
   | TFulfilled \<Rightarrow> k' = k)"

text \<open>Only tasks change, and only at one id.\<close>

definition task_change ::
  "('q, 'x) env_scheme \<Rightarrow> string \<Rightarrow> (stored_task \<Rightarrow> stored_task \<Rightarrow> bool) \<Rightarrow> store \<Rightarrow> store \<Rightarrow> bool" where
  "task_change E i R V W \<longleftrightarrow>
     promise_in E W = promise_in E V \<and> schedule_in E W = schedule_in E V
     \<and> (\<forall>j. j \<noteq> i \<longrightarrow> task_in E W j = task_in E V j)
     \<and> (case task_in E V i of
          None \<Rightarrow> task_in E W i = None
        | Some k \<Rightarrow> \<exists>k'. task_in E W i = Some k' \<and> R k k')"

lemma task_change_put:
  "task_in E V i = Some k \<Longrightarrow> t_id k' = i \<Longrightarrow> R k k' \<Longrightarrow> task_change E i R V (put_t k' V)"
  by (auto simp: task_change_def fun_eq_iff)

lemma task_change_refl: "(\<And>k. task_in E V i = Some k \<Longrightarrow> R k k) \<Longrightarrow> task_change E i R V V"
  by (auto simp: task_change_def split: option.split)

lemma resume_awaiter_spec:
  assumes c: "queue_contract E kv" and inv: "tx_inv E kv t0 t"
  shows "wp (resume_awaiter E i awaited w)
    (keeps E kv t0 (\<lambda>_ t'. task_change E i (resumed w awaited) (view kv t) (view kv t'))) t"
    (is "wp _ ?Q t")
  unfolding resume_awaiter_def
proof (rule keeps_get_task [OF c inv])
  show "wp (case task_in E (view kv t) i of
       None \<Rightarrow> ret ()
     | Some task \<Rightarrow> (case t_state task of
         TSuspended \<Rightarrow>
           bnd (dispatch E ((transition task TPending)\<lparr>t_resumes := os_of_list [awaited]\<rparr>) None)
             (\<lambda>_. ret ())
       | TPending \<Rightarrow> put_task (task\<lparr>t_resumes := os_insert awaited (t_resumes task)\<rparr>)
       | TAcquired \<Rightarrow> put_task (task\<lparr>t_resumes := os_insert awaited (t_resumes task)\<rparr>)
       | THalted \<Rightarrow>
           if w = Fanout then put_task (task\<lparr>t_resumes := os_insert awaited (t_resumes task)\<rparr>)
           else ret ()
       | TFulfilled \<Rightarrow> ret ())) ?Q t"
  proof (cases "task_in E (view kv t) i")
    case None
    then show ?thesis using inv by (auto intro: task_change_refl)
  next
    case (Some k)
    have ok: "task_ok i k" using goodD(3) [OF tx_invD(1) [OF inv] Some] .
    have noted: "wp (put_task (k\<lparr>t_resumes := os_insert awaited (t_resumes k)\<rparr>)) ?Q t"
      if "t_state k \<in> {TPending, TAcquired, THalted}"
        "resumed w awaited k (k\<lparr>t_resumes := os_insert awaited (t_resumes k)\<rparr>)"
      by (rule keeps_mono [OF keeps_put_task [OF inv Some]])
        (use ok that Some in \<open>auto simp: task_ok_def task_write_def intro!: task_change_put\<close>)
    show ?thesis
    proof (cases "t_state k")
      case TSuspended
      let ?k = "(transition k TPending)\<lparr>t_resumes := os_of_list [awaited]\<rparr>"
      have "wp (dispatch E ?k None) (keeps E kv t0 (\<lambda>x t'. \<exists>job. x = ?k\<lparr>t_job := Some job\<rparr> \<and>
          view kv t' = put_t (?k\<lparr>t_job := Some job\<rparr>) (view kv t))) t"
        by (rule keeps_dispatch [OF c inv Some])
          (use ok TSuspended in \<open>auto simp: task_ok_def task_write_def task_moves_simps\<close>)
      then have "wp (bnd (dispatch E ?k None) (\<lambda>_. ret ())) ?Q t"
      proof (rule keeps_bnd)
        fix x t'
        assume t': "tx_inv E kv t0 t'" and "\<exists>job. x = ?k\<lparr>t_job := Some job\<rparr> \<and>
          view kv t' = put_t (?k\<lparr>t_job := Some job\<rparr>) (view kv t)"
        then obtain job where "view kv t' = put_t (?k\<lparr>t_job := Some job\<rparr>) (view kv t)" by blast
        moreover have "resumed w awaited k (?k\<lparr>t_job := Some job\<rparr>)"
          using TSuspended by (auto simp: resumed_def)
        ultimately have "task_change E i (resumed w awaited) (view kv t) (view kv t')"
          using ok Some by (auto simp: task_ok_def intro!: task_change_put)
        with t' show "wp (ret ()) ?Q t'" by simp
      qed
      with Some TSuspended show ?thesis by simp
    next
      case THalted
      show ?thesis
      proof (cases "w = Fanout")
        case True
        with THalted noted Some show ?thesis by (simp add: resumed_def)
      next
        case False
        with THalted Some inv show ?thesis by (auto simp: resumed_def intro: task_change_refl)
      qed
    next
      case TFulfilled
      with Some inv show ?thesis by (auto simp: resumed_def intro: task_change_refl)
    qed (use noted Some in \<open>simp_all add: resumed_def\<close>)
  qed
qed


section \<open>Settlement\<close>

text \<open>An awaiter is woken when its promise is pending and its deadline has not passed.\<close>

definition wakes ::
  "('q, 'x) env_scheme \<Rightarrow> store \<Rightarrow> i64 \<Rightarrow> string \<Rightarrow> bool" where
  "wakes E V time i \<longleftrightarrow> (case promise_in E V i of
     None \<Rightarrow> False
   | Some p \<Rightarrow> is_pending (sp_record p) \<and> lt64 time (p_timeout_at (sp_record p)))"

definition woken ::
  "('q, 'x) env_scheme \<Rightarrow> store \<Rightarrow> i64 \<Rightarrow> string \<Rightarrow> string \<Rightarrow> stored_task \<Rightarrow> stored_task \<Rightarrow> bool" where
  "woken E V time awaited i k k' \<longleftrightarrow>
     (if wakes E V time i then resumed Fanout awaited k k' else k' = k)"

lemma wake_awaiter_spec:
  assumes c: "queue_contract E kv" and inv: "tx_inv E kv t0 t"
  shows "wp (wake_awaiter E awaited i)
    (keeps E kv t0 (\<lambda>_ t'. task_change E i (woken E (view kv t) (now t0) awaited i)
      (view kv t) (view kv t'))) t" (is "wp _ ?Q t")
  unfolding wake_awaiter_def
proof (rule keeps_get_promise [OF c inv], rule keeps_asks)
  show "wp (case promise_in E (view kv t) i of
       None \<Rightarrow> ret ()
     | Some awaiting \<Rightarrow>
         if is_pending (sp_record awaiting) \<and> lt64 (now t) (p_timeout_at (sp_record awaiting))
         then resume_awaiter E i awaited Fanout else ret ()) ?Q t"
  proof (cases "wakes E (view kv t) (now t0) i")
    case True
    then have "wp (resume_awaiter E i awaited Fanout) ?Q t"
      using keeps_mono [OF resume_awaiter_spec [OF c inv]] by (simp add: woken_def [abs_def])
    with True show ?thesis
      by (auto simp: wakes_def tx_invD(4) [OF inv] split: option.splits)
  next
    case False
    then have "task_change E i (woken E (view kv t) (now t0) awaited i) (view kv t) (view kv t)"
      by (auto simp: woken_def intro: task_change_refl)
    with False inv show ?thesis
      by (auto simp: wakes_def tx_invD(4) [OF inv] split: option.splits)
  qed
qed

text \<open>The effect of waking every registered awaiter, in terms of the store before the loop.\<close>

definition all_woken ::
  "('q, 'x) env_scheme \<Rightarrow> i64 \<Rightarrow> string \<Rightarrow> string set \<Rightarrow> store \<Rightarrow> store \<Rightarrow> bool" where
  "all_woken E time awaited cs V W \<longleftrightarrow>
     promise_in E W = promise_in E V \<and> schedule_in E W = schedule_in E V
     \<and> (\<forall>j. case task_in E V j of
          None \<Rightarrow> task_in E W j = None
        | Some k \<Rightarrow> \<exists>k'. task_in E W j = Some k'
            \<and> (if j \<in> cs then woken E V time awaited j k k' else k' = k))"

lemma all_woken_empty: "all_woken E time a {} V V"
  by (auto simp: all_woken_def split: option.split)

lemma all_woken_step:
  assumes "task_change E i (woken E V time a i) V W" "all_woken E time a cs W X" "i \<notin> cs"
  shows "all_woken E time a (insert i cs) V X"
proof -
  have "wakes E W time j = wakes E V time j" for j
    using assms(1) by (simp add: wakes_def task_change_def)
  then have woken: "woken E W time a j = woken E V time a j" for j
    by (simp add: woken_def fun_eq_iff)
  have "case task_in E V j of
      None \<Rightarrow> task_in E X j = None
    | Some k \<Rightarrow> \<exists>k'. task_in E X j = Some k'
        \<and> (if j \<in> insert i cs then woken E V time a j k k' else k' = k)" for j
  proof (cases "j = i")
    case True
    then show ?thesis
      using assms unfolding task_change_def all_woken_def woken
      by (auto split: option.splits elim!: allE [where x = i])
  next
    case False
    then have "task_in E W j = task_in E V j"
      using assms(1) by (simp add: task_change_def)
    with False assms(2) show ?thesis
      unfolding all_woken_def woken
      by (cases "j \<in> cs") (auto split: option.splits elim!: allE [where x = j])
  qed
  then show ?thesis
    using assms(1,2) unfolding all_woken_def task_change_def by metis
qed

lemma wake_all_spec:
  assumes c: "queue_contract E kv" and "tx_inv E kv t0 t" "distinct cs"
  shows "wp (for_each (wake_awaiter E awaited) cs)
    (keeps E kv t0 (\<lambda>_ t'. all_woken E (now t0) awaited (set cs) (view kv t) (view kv t'))) t"
  using assms(2,3)
proof (induction cs arbitrary: t)
  case Nil
  then show ?case by (simp add: all_woken_empty)
next
  case (Cons i cs)
  show ?case
    unfolding for_each.simps
  proof (rule keeps_andthen [OF wake_awaiter_spec [OF c Cons.prems(1)]])
    fix x t'
    assume inv: "tx_inv E kv t0 t'"
      and change: "task_change E i (woken E (view kv t) (now t0) awaited i) (view kv t) (view kv t')"
    show "wp (for_each (wake_awaiter E awaited) cs) (keeps E kv t0 (\<lambda>_ t'.
        all_woken E (now t0) awaited (set (i # cs)) (view kv t) (view kv t'))) t'"
      by (rule keeps_mono [OF Cons.IH [OF inv]])
        (use Cons.prems(2) all_woken_step [OF change] in auto)
  qed
qed

text \<open>
  A settlement of a pending promise: the promise has its new record and no registrations, its
  task is fulfilled, every registered awaiter is woken, and nothing else changes.
\<close>

definition settled_store ::
  "('q, 'x) env_scheme \<Rightarrow> i64 \<Rightarrow> string \<Rightarrow> stored_promise \<Rightarrow> promise_record \<Rightarrow> store \<Rightarrow> store \<Rightarrow> bool" where
  "settled_store E time i p r V W \<longleftrightarrow>
     (let p' = \<lparr>sp_record = r, sp_callbacks = [], sp_listeners = []\<rparr>
      in all_woken E time i (set (sp_callbacks p)) (settle_store E i p' V) W)"

lemma fulfil_and_put:
  assumes c: "queue_contract E kv" and inv: "tx_inv E kv t0 t" and i: "i = p_id (sp_record p')"
    and p: "promise_in E (view kv t) i = Some p" "is_pending (sp_record p)"
    and p': "settles (sp_record p) (sp_record p')" "sp_callbacks p' = []" "sp_listeners p' = []"
    and rest: "\<And>t'. tx_inv E kv t0 t' \<Longrightarrow> view kv t' = settle_store E i p' (view kv t) \<Longrightarrow>
      wp m (keeps E kv t0 P) t'"
  shows "wp (andthen (fulfil_own_task E i) (andthen (put_promise p') m)) (keeps E kv t0 P) t"
proof -
  let ?W = "case task_in E (view kv t) i of
     Some k \<Rightarrow> if t_state k \<noteq> TFulfilled then put_t (fulfilled_task k) (view kv t) else view kv t
   | None \<Rightarrow> view kv t"
  have store: "settle_store E i p' (view kv t) = put_p p' ?W"
    by (simp add: settle_store_def)
  have put: "wp (andthen (put_promise p') m) (keeps E kv t0 P) t'"
    if "same_base kv t t'" "view kv t' = ?W" for t'
  proof (intro wp_andthen wp_put_promise, simp only: sum.case, rule rest)
    fix u assume u: "same_base kv t' u" "view kv u = put_p p' (view kv t')"
    show "view kv u = settle_store E i p' (view kv t)"
      by (simp add: store u(2) that(2))
    then show "tx_inv E kv t0 u"
      using settle_store_good(1,2) [OF tx_invD(1) [OF inv] p p'] that(1) u(1)
      by (intro tx_inv_step [OF inv]) (auto intro: same_base_trans)
  qed
  show ?thesis
    unfolding fulfil_own_task_def fulfilled_task_def [symmetric]
  proof (rule wp_andthen, rule wp_bnd, rule wp_get_task [OF c tx_invD(2) [OF inv]])
    show "case (Inr (task_in E (view kv t) i) :: error + stored_task option) of
        Inl e \<Rightarrow> (case (Inl e :: error + unit) of Inl e \<Rightarrow> keeps E kv t0 P (Inl e) t
          | Inr x \<Rightarrow> wp (andthen (put_promise p') m) (keeps E kv t0 P) t)
      | Inr found \<Rightarrow> wp (case found of None \<Rightarrow> ret ()
          | Some task \<Rightarrow> if t_state task \<noteq> TFulfilled
              then andthen (put_task (fulfilled_task task)) (release (t_id task)) else ret ())
        (\<lambda>r s'. case r of Inl e \<Rightarrow> keeps E kv t0 P (Inl e) s'
          | Inr x \<Rightarrow> wp (andthen (put_promise p') m) (keeps E kv t0 P) s') t"
    proof (cases "task_in E (view kv t) i")
      case None
      then show ?thesis using put [of t] by simp
    next
      case (Some k)
      show ?thesis
      proof (cases "t_state k = TFulfilled")
        case True
        with Some show ?thesis using put [of t] by simp
      next
        case False
        have "wp (andthen (put_task (fulfilled_task k)) (release (t_id k)))
          (\<lambda>r s'. case r of Inl e \<Rightarrow> keeps E kv t0 P (Inl e) s'
            | Inr x \<Rightarrow> wp (andthen (put_promise p') m) (keeps E kv t0 P) s') t"
        proof (intro wp_andthen wp_put_task, simp only: sum.case, rule wp_release, simp only: sum.case, rule put)
          fix u v assume "same_base kv t u" "view kv u = put_t (fulfilled_task k) (view kv t)"
            "same_base kv u v" "view kv v = view kv u"
          then show "same_base kv t v" "view kv v = ?W"
            using Some False by (auto intro: same_base_trans)
        qed
        with Some False show ?thesis by simp
      qed
    qed
  qed (use inv in simp)
qed

lemma keeps_loop_silent:
  assumes "tx_inv E kv t0 t"
    and "\<And>x t Q. (\<And>t'. same_base kv t t' \<Longrightarrow> view kv t' = view kv t \<Longrightarrow> Q (Inr ()) t') \<Longrightarrow> wp (f x) Q t"
  shows "wp (for_each f xs) (keeps E kv t0 (\<lambda>_ t'. view kv t' = view kv t)) t"
  using assms(1)
proof (induction xs arbitrary: t)
  case Nil
  then show ?case by simp
next
  case (Cons x xs)
  show ?case
    unfolding for_each.simps
  proof (rule keeps_andthen [OF keeps_silent [OF Cons.prems assms(2)]])
    fix u t'
    assume "tx_inv E kv t0 t'" "view kv t' = view kv t"
    then show "wp (for_each f xs) (keeps E kv t0 (\<lambda>_ t'. view kv t' = view kv t)) t'"
      using keeps_mono [OF Cons.IH] by simp
  qed
qed

lemma settle_chain_spec:
  assumes c: "queue_contract E kv" and inv: "tx_inv E kv t0 t"
    and p: "promise_in E (view kv t) i = Some p" "is_pending (sp_record p)"
    and r: "settles (sp_record p) r"
  shows "wp (settle_chain E (p\<lparr>sp_record := r\<rparr>)) (keeps E kv t0 (\<lambda>p' t'.
    p' = \<lparr>sp_record = r, sp_callbacks = [], sp_listeners = []\<rparr>
    \<and> settled_store E (now t0) i p r (view kv t) (view kv t'))) t"
proof -
  let ?p = "\<lparr>sp_record = r, sp_callbacks = [], sp_listeners = []\<rparr>"
  have ok: "promise_ok i p" using goodD(2) [OF tx_invD(1) [OF inv] p(1)] .
  have i: "i = p_id r" using settles_frame [OF r] ok by (simp add: promise_ok_def)
  have eq: "(p\<lparr>sp_record := r\<rparr>)\<lparr>sp_callbacks := [], sp_listeners := []\<rparr> = ?p" by simp
  show ?thesis
    unfolding settle_chain_def Let_def eq
    apply (simp add: i [symmetric])
  proof (rule fulfil_and_put [OF c inv _ p])
    fix t1
    assume t1: "tx_inv E kv t0 t1" "view kv t1 = settle_store E i ?p (view kv t)"
    have d: "distinct (sp_callbacks p)" using ok by (simp add: promise_ok_def)
    show "wp (andthen (for_each (wake_awaiter E i) (sp_callbacks p))
        (andthen (for_each (\<lambda>address. send_unblock E address (unblock_message r)) (sp_listeners p))
          (ret ?p))) (keeps E kv t0 (\<lambda>p' t'. p' = ?p \<and>
        settled_store E (now t0) i p r (view kv t) (view kv t'))) t1"
    proof (rule keeps_andthen [OF wake_all_spec [OF c t1(1) d]])
      fix x t2
      assume t2: "tx_inv E kv t0 t2"
        "all_woken E (now t0) i (set (sp_callbacks p)) (view kv t1) (view kv t2)"
      show "wp (andthen (for_each (\<lambda>address. send_unblock E address (unblock_message r)) (sp_listeners p))
          (ret ?p)) (keeps E kv t0 (\<lambda>p' t'. p' = ?p \<and>
        settled_store E (now t0) i p r (view kv t) (view kv t'))) t2"
        by (rule keeps_andthen [OF keeps_loop_silent [OF t2(1) wp_send_unblock]])
          (use t1(2) t2(2) in \<open>auto simp: settled_store_def\<close>)
    qed
  qed (use i r in simp_all)
qed

end
