(* ===== verification/Kernel_Specs.thy ===== *)
theory Kernel_Specs
  imports Kernel_Steps
begin

text \<open>
  Specifications of the rest of \<open>Kernel\<close>: settlement by a client and by a deadline, the
  deadlines of the promises a request names, acquisition, creation and the firing of a schedule.
\<close>

section \<open>Settlement\<close>

abbreviation bare :: "promise_record \<Rightarrow> stored_promise" where
  "bare r \<equiv> \<lparr>sp_record = r, sp_callbacks = [], sp_listeners = []\<rparr>"

lemma settled_store_promises:
  assumes "good E V" "promise_in E V i = Some p" "is_pending (sp_record p)"
    and "settles (sp_record p) r" "settled_store E time i p r V W"
  shows "promise_in E W = (promise_in E V)(i \<mapsto> bare r)" "schedule_in E W = schedule_in E V"
  using assms settle_store_good(3) [OF assms(1-3), of "bare r"]
  by (auto simp: settled_store_def all_woken_def Let_def fun_eq_iff settle_store_def split: option.splits)

lemma settled_store_own_task:
  assumes "good E V" "promise_in E V i = Some p" "settled_store E time i p r V W"
  shows "task_in E W i = map_option (\<lambda>k. if t_state k \<noteq> TFulfilled then fulfilled_task k else k)
    (task_in E V i)"
proof -
  have "i \<notin> set (sp_callbacks p)"
    using goodD(2) [OF assms(1,2)] by (simp add: promise_ok_def)
  then show ?thesis
    using assms settle_store_tasks [OF assms(1), of i "bare r" i]
    by (cases "task_in E V i")
      (auto simp: settled_store_def all_woken_def Let_def split: option.splits elim!: allE [where x = i])
qed

text \<open>A task that is neither the promise's own nor registered is left alone.\<close>

lemma settled_store_other_task:
  assumes "good E V" "settled_store E time i p r V W" "j \<noteq> i" "j \<notin> set (sp_callbacks p)"
  shows "task_in E W j = task_in E V j"
  using assms settle_store_tasks [OF assms(1), of i "bare r" j]
  by (auto simp: settled_store_def all_woken_def Let_def split: option.splits elim!: allE [where x = j])

text \<open>A registered awaiter is woken when its own promise is pending before its deadline.\<close>

lemma settled_store_awaiter:
  assumes "good E V" "promise_in E V i = Some p" "is_pending (sp_record p)"
    and "settles (sp_record p) r" "settled_store E time i p r V W"
    and "j \<in> set (sp_callbacks p)" "task_in E V j = Some k"
  obtains k' where "task_in E W j = Some k'"
    "if wakes E V time j then resumed Fanout i k k' else k' = k"
proof -
  have j: "j \<noteq> i"
    using goodD(2) [OF assms(1,2)] assms(6) by (auto simp: promise_ok_def)
  have "p_id r = i"
    using settles_frame [OF assms(4)] goodD(2) [OF assms(1,2)] by (simp add: promise_ok_def)
  then have "wakes E (settle_store E i (bare r) V) time j = wakes E V time j"
    using settle_store_good(3) [OF assms(1-3), of "bare r" j] assms(4) j
    by (simp add: wakes_def)
  then show ?thesis
    using assms j settle_store_tasks [OF assms(1), of i "bare r" j] that
    by (auto simp: settled_store_def all_woken_def Let_def woken_def split: option.splits
        elim!: allE [where x = j])
qed

lemma expire_promise_spec:
  assumes "queue_contract E kv" "tx_inv E kv t0 t"
    and "promise_in E (view kv t) i = Some p" "is_pending (sp_record p)"
  shows "wp (expire_promise E p) (keeps E kv t0 (\<lambda>p' t'.
    p' = bare (expired_record (sp_record p))
    \<and> settled_store E (now t0) i p (expired_record (sp_record p)) (view kv t) (view kv t'))) t"
  unfolding expire_promise_def by (rule settle_chain_spec [OF assms by_deadline])

lemma settle_spec:
  assumes "queue_contract E kv" "tx_inv E kv t0 t"
    and "promise_in E (view kv t) i = Some p" "is_pending (sp_record p)"
    and "lt64 (now t0) (p_timeout_at (sp_record p))"
  shows "wp (settle E p st v) (keeps E kv t0 (\<lambda>p' t'.
    p' = bare (settled_record (now t0) st v (sp_record p))
    \<and> settled_store E (now t0) i p (settled_record (now t0) st v (sp_record p)) (view kv t)
        (view kv t'))) t"
  unfolding settle_def
  by (rule keeps_asks)
    (simp add: tx_invD(4) [OF assms(2)] settle_chain_spec [OF assms(1-4) by_client [OF assms(5)]])

section \<open>Waiting tasks\<close>

text \<open>
  A suspended task waits: it is registered on a pending promise, whose settlement wakes it, or
  the deadline of its own promise has passed, whose timer settles it.
\<close>

definition registered :: "('q, 'x) env_scheme \<Rightarrow> store \<Rightarrow> string \<Rightarrow> bool" where
  "registered E V i \<longleftrightarrow>
     (\<exists>j p. promise_in E V j = Some p \<and> is_pending (sp_record p) \<and> i \<in> set (sp_callbacks p))"

definition overdue :: "('q, 'x) env_scheme \<Rightarrow> i64 \<Rightarrow> store \<Rightarrow> string \<Rightarrow> bool" where
  "overdue E time V i \<longleftrightarrow> (\<exists>p. promise_in E V i = Some p \<and> le64 (p_timeout_at (sp_record p)) time)"

definition waiting :: "('q, 'x) env_scheme \<Rightarrow> i64 \<Rightarrow> store \<Rightarrow> bool" where
  "waiting E time V \<longleftrightarrow> (\<forall>i k. task_in E V i = Some k \<longrightarrow> t_state k = TSuspended \<longrightarrow>
     registered E V i \<or> overdue E time V i)"

lemma waiting_later: "waiting E time V \<Longrightarrow> le64 time time' \<Longrightarrow> waiting E time' V"
  by (fastforce simp: waiting_def overdue_def)

lemma settled_store_waiting:
  assumes good: "good E V" and p: "promise_in E V i = Some p" "is_pending (sp_record p)"
    and r: "settles (sp_record p) r" and s: "settled_store E time i p r V W" and w: "waiting E time V"
  shows "waiting E time W"
  unfolding waiting_def
proof (intro allI impI)
  fix j k' assume k': "task_in E W j = Some k'" "t_state k' = TSuspended"
  note promises = settled_store_promises [OF good p r s]
  have own: "j \<noteq> i"
    using settled_store_own_task [OF good p(1) s] k'
    by (cases "task_in E V i") (auto simp: fulfilled_task_def split: if_splits)
  show "registered E W j \<or> overdue E time W j"
  proof (cases "j \<in> set (sp_callbacks p)")
    case False
    then have "task_in E V j = Some k'"
      using settled_store_other_task [OF good s own] k'(1) by simp
    then consider "registered E V j" | "overdue E time V j" using w k'(2) by (auto simp: waiting_def)
    then show ?thesis
    proof cases
      case 1
      then obtain m q where q: "promise_in E V m = Some q" "is_pending (sp_record q)" "j \<in> set (sp_callbacks q)"
        by (auto simp: registered_def)
      with False p(1) have "m \<noteq> i" by auto
      with q have "registered E W j" by (auto simp: registered_def promises(1))
      then show ?thesis ..
    next
      case 2
      with own show ?thesis by (simp add: overdue_def promises(1))
    qed
  next
    case True
    then obtain k where k: "task_in E V j = Some k" using goodD(5) [OF good p(1)] by blast
    obtain k2 where k2: "task_in E W j = Some k2"
      "if wakes E V time j then resumed Fanout i k k2 else k2 = k"
      using settled_store_awaiter [OF good p r s True k] .
    have "\<not> wakes E V time j"
      using k2 k' by (auto simp: resumed_def split: task_state.splits if_splits)
    then have "k = k'" using k2 k'(1) by simp
    then obtain q where "promise_in E V j = Some q" "is_pending (sp_record q)"
      using good_task_promise [OF good k] k'(2) by (metis task_state.distinct(17))
    with \<open>\<not> wakes E V time j\<close> own have "overdue E time W j"
      by (auto simp: wakes_def overdue_def promises(1))
    then show ?thesis ..
  qed
qed

section \<open>Versions\<close>

text \<open>
  No task is acquired: every task keeps its version, an acquired one stays acquired or is
  fulfilled, and a fulfilled one stays so.
\<close>

definition kept_version :: "stored_task \<Rightarrow> stored_task \<Rightarrow> bool" where
  "kept_version k k' \<longleftrightarrow> t_version k' = t_version k
     \<and> (t_state k' = TAcquired \<longrightarrow> t_state k = TAcquired)
     \<and> (t_state k = TAcquired \<longrightarrow> t_state k' = TAcquired \<or> t_state k' = TFulfilled)
     \<and> (t_state k = TFulfilled \<longrightarrow> t_state k' = TFulfilled)"

definition unclaimed :: "('q, 'x) env_scheme \<Rightarrow> store \<Rightarrow> store \<Rightarrow> bool" where
  "unclaimed E V W \<longleftrightarrow> (\<forall>i k. task_in E V i = Some k \<longrightarrow> (\<exists>k'. task_in E W i = Some k' \<and> kept_version k k'))"

lemma kept_version_refl [simp]: "kept_version k k"
  by (simp add: kept_version_def)

lemma kept_version_fulfilled: "kept_version k (fulfilled_task k)"
  by (simp add: kept_version_def fulfilled_task_def)

lemma kept_version_resumed: "resumed w j k k' \<Longrightarrow> kept_version k k'"
  by (auto simp: resumed_def kept_version_def split: task_state.splits if_splits)

lemma unclaimed_refl [simp]: "unclaimed E V V"
  by (simp add: unclaimed_def)

lemma unclaimed_trans: "unclaimed E V W \<Longrightarrow> unclaimed E W X \<Longrightarrow> unclaimed E V X"
  unfolding unclaimed_def kept_version_def by (metis (no_types, lifting))

lemma settled_store_unclaimed:
  assumes good: "good E V" and p: "promise_in E V i = Some p" "is_pending (sp_record p)"
    and r: "settles (sp_record p) r" and s: "settled_store E time i p r V W"
  shows "unclaimed E V W"
  unfolding unclaimed_def
proof (intro allI impI)
  fix j k assume k: "task_in E V j = Some k"
  consider "j = i" | "j \<noteq> i" "j \<notin> set (sp_callbacks p)" | "j \<in> set (sp_callbacks p)" by blast
  then show "\<exists>k'. task_in E W j = Some k' \<and> kept_version k k'"
  proof cases
    case 1
    then show ?thesis
      using settled_store_own_task [OF good p(1) s] k by (simp add: kept_version_fulfilled)
  next
    case 2
    then show ?thesis using settled_store_other_task [OF good s] k by simp
  next
    case 3
    obtain k' where "task_in E W j = Some k'" "if wakes E V time j then resumed Fanout i k k' else k' = k"
      using settled_store_awaiter [OF good p r s 3 k] .
    then show ?thesis by (auto split: if_splits intro: kept_version_resumed)
  qed
qed

section \<open>Deadlines\<close>

text \<open>
  Applying the deadlines of the promises named by \<open>ids\<close>: each of them that is expired is
  settled to its timeout state and loses its registrations, and no other promise changes.
\<close>

definition at_deadline :: "i64 \<Rightarrow> bool \<Rightarrow> stored_promise \<Rightarrow> stored_promise" where
  "at_deadline time named p =
     (if named \<and> expired time (sp_record p) then bare (expired_record (sp_record p)) else p)"

definition deadlines ::
  "('q, 'x) env_scheme \<Rightarrow> i64 \<Rightarrow> string set \<Rightarrow> store \<Rightarrow> store \<Rightarrow> bool" where
  "deadlines E time ids V W \<longleftrightarrow>
     schedule_in E W = schedule_in E V
     \<and> (\<forall>j. promise_in E W j = map_option (at_deadline time (j \<in> ids)) (promise_in E V j))
     \<and> (\<forall>j. task_in E W j = None \<longleftrightarrow> task_in E V j = None)
     \<and> ((\<forall>i \<in> ids. \<forall>p. promise_in E V i = Some p \<longrightarrow> \<not> expired time (sp_record p)) \<longrightarrow> task_in E W = task_in E V)
     \<and> unclaimed E V W \<and> (waiting E time V \<longrightarrow> waiting E time W)"

lemma not_expired_after [simp]:
  "\<not> expired time (expired_record p)"
  by (simp add: expired_def is_pending_def expired_record_def)

lemma at_deadline_settled: "\<not> expired time (sp_record (at_deadline time True p))"
  by (simp add: at_deadline_def)

lemma deadlines_not_expired:
  "deadlines E time ids V W \<Longrightarrow> i \<in> ids \<Longrightarrow> promise_in E W i = Some p \<Longrightarrow> \<not> expired time (sp_record p)"
  using at_deadline_settled by (auto simp: deadlines_def)

lemma deadlines_live:
  assumes "deadlines E time ids V W" "i \<in> ids" "promise_in E W i = Some p" "is_pending (sp_record p)"
  shows "lt64 time (p_timeout_at (sp_record p))" "promise_in E V i = Some p"
  using deadlines_not_expired [OF assms(1-3)] assms
  by (auto simp: expired_def deadlines_def at_deadline_def is_pending_def expired_record_def
      split: if_splits)

lemma at_deadline_unnamed [simp]: "at_deadline time False = (\<lambda>p. p)"
  by (simp add: at_deadline_def fun_eq_iff)

lemma deadlines_empty: "deadlines E time {} V V"
  by (simp add: deadlines_def at_deadline_def option.map_ident)

lemma deadlines_insert:
  assumes "deadlines E time {i} V W" "deadlines E time ids W X"
  shows "deadlines E time (insert i ids) V X"
proof -
  have "at_deadline time (j \<in> ids) (at_deadline time (j = i) p) = at_deadline time (j \<in> insert i ids) p"
    for j p
    by (auto simp: at_deadline_def)
  then have promise: "promise_in E X j = map_option (at_deadline time (j \<in> insert i ids)) (promise_in E V j)" for j
    using assms by (simp add: deadlines_def option.map_comp comp_def)
  moreover have "task_in E X = task_in E V"
    if none: "\<forall>j \<in> insert i ids. \<forall>p. promise_in E V j = Some p \<longrightarrow> \<not> expired time (sp_record p)"
  proof -
    have "promise_in E W = promise_in E V"
      using assms(1) none
      by (auto simp: deadlines_def at_deadline_def fun_eq_iff option.map_ident
          intro!: option.map_ident_strong)
    then show ?thesis
      using assms none by (auto simp: deadlines_def)
  qed
  moreover have "unclaimed E V X"
    using assms unclaimed_trans by (auto simp: deadlines_def)
  ultimately show ?thesis
    using assms by (auto simp: deadlines_def)
qed

lemma settled_store_task_none:
  assumes "good E V" "settled_store E time i p r V W"
  shows "task_in E W j = None \<longleftrightarrow> task_in E V j = None"
  using assms settle_store_tasks [OF assms(1), of i "bare r" j]
  by (cases "task_in E V j"; cases "j = i")
    (auto simp: settled_store_def all_woken_def Let_def split: option.splits elim!: allE [where x = j])

lemma timeout_one_spec:
  assumes c: "queue_contract E kv" and inv: "tx_inv E kv t0 t"
  shows "wp (timeout_one E i)
    (keeps E kv t0 (\<lambda>_ t'. deadlines E (now t0) {i} (view kv t) (view kv t'))) t" (is "wp _ ?Q t")
  unfolding timeout_one_def
proof (rule keeps_get_promise [OF c inv], rule keeps_asks)
  have time: "now t = now t0" using inv by (rule tx_invD)
  show "wp (case promise_in E (view kv t) i of
       None \<Rightarrow> ret ()
     | Some promise \<Rightarrow>
         if expired (now t) (sp_record promise) then bnd (expire_promise E promise) (\<lambda>_. ret ())
         else ret ()) ?Q t"
  proof (cases "\<exists>p. promise_in E (view kv t) i = Some p \<and> expired (now t0) (sp_record p)")
    case False
    then have "deadlines E (now t0) {i} (view kv t) (view kv t)"
      by (auto simp: deadlines_def at_deadline_def option.map_ident intro!: option.map_ident_strong [symmetric])
    with False inv show ?thesis
      by (auto simp: time split: option.split)
  next
    case True
    then obtain p where p: "promise_in E (view kv t) i = Some p" "expired (now t0) (sp_record p)"
      by blast
    then have pending: "is_pending (sp_record p)" by (simp add: expired_def)
    have "wp (bnd (expire_promise E p) (\<lambda>_. ret ())) ?Q t"
    proof (rule keeps_bnd [OF expire_promise_spec [OF c inv p(1) pending]])
      fix x t'
      assume t': "tx_inv E kv t0 t'" and "x = bare (expired_record (sp_record p))
        \<and> settled_store E (now t0) i p (expired_record (sp_record p)) (view kv t) (view kv t')"
      then have s: "settled_store E (now t0) i p (expired_record (sp_record p)) (view kv t) (view kv t')"
        by blast
      note good = tx_invD(1) [OF inv]
      have "deadlines E (now t0) {i} (view kv t) (view kv t')"
        using settled_store_promises [OF good p(1) pending by_deadline s]
          settled_store_task_none [OF good s] settled_store_waiting [OF good p(1) pending by_deadline s]
          settled_store_unclaimed [OF good p(1) pending by_deadline s] p
        by (auto simp: deadlines_def at_deadline_def option.map_ident)
      with t' show "wp (ret ()) ?Q t'" by simp
    qed
    with p show ?thesis by (simp add: time)
  qed
qed

lemma try_timeout_spec:
  assumes c: "queue_contract E kv" and "tx_inv E kv t0 t"
  shows "wp (try_timeout E ids)
    (keeps E kv t0 (\<lambda>_ t'. deadlines E (now t0) (set ids) (view kv t) (view kv t'))) t"
  unfolding try_timeout_def
  using assms(2)
proof (induction ids arbitrary: t)
  case Nil
  then show ?case by (simp add: deadlines_empty)
next
  case (Cons i ids)
  show ?case
    unfolding for_each.simps
  proof (rule keeps_andthen [OF timeout_one_spec [OF c Cons.prems]])
    fix x t'
    assume inv: "tx_inv E kv t0 t'"
      and d: "deadlines E (now t0) {i} (view kv t) (view kv t')"
    show "wp (for_each (timeout_one E) ids) (keeps E kv t0 (\<lambda>_ t'.
        deadlines E (now t0) (set (i # ids)) (view kv t) (view kv t'))) t'"
      by (rule keeps_mono [OF Cons.IH [OF inv]]) (use deadlines_insert [OF d] in auto)
  qed
qed


section \<open>Acquisition\<close>

lemma acquired_simps [simp]:
  "t_id (acquired k pid ttl) = t_id k" "t_state (acquired k pid ttl) = TAcquired"
  "t_version (acquired k pid ttl) = t_version k + 1" "t_target (acquired k pid ttl) = t_target k"
  "t_job (acquired k pid ttl) = t_job k" "t_pid (acquired k pid ttl) = Some pid"
  "t_ttl (acquired k pid ttl) = Some ttl" "t_resumes (acquired k pid ttl) = om_empty"
  by (simp_all add: acquired_def)

lemma acquire_spec:
  assumes c: "queue_contract E kv" and inv: "tx_inv E kv t0 t"
    and k: "task_in E (view kv t) i = Some k" "t_state k = TPending"
  shows "wp (acquire E k pid ttl) (keeps E kv t0 (\<lambda>x t'. case x of
      None \<Rightarrow> view kv t' = view kv t
    | Some k' \<Rightarrow> k' = acquired k pid ttl \<and> view kv t' = put_t k' (view kv t))) t"
  unfolding acquire_def
proof (rule wp_bnd, rule wp_renew [OF c], simp only: sum.case)
  fix b t' assume t': "same_base kv t t'" "view kv t' = view kv t"
  have inv': "tx_inv E kv t0 t'" by (rule tx_inv_view [OF inv t'])
  have ok: "task_ok i k" using goodD(3) [OF tx_invD(1) [OF inv] k(1)] .
  have "wp (put_task (acquired k pid ttl))
      (keeps E kv t0 (\<lambda>_ u. view kv u = put_t (acquired k pid ttl) (view kv t'))) t'"
    by (rule keeps_put_task [OF inv', where i = i and k = k])
      (use k ok t' in \<open>auto simp: task_ok_def task_write_def task_moves_simps\<close>)
  then have "wp (andthen (put_task (acquired k pid ttl)) (ret (Some (acquired k pid ttl))))
     (keeps E kv t0 (\<lambda>x u. case x of
        None \<Rightarrow> view kv u = view kv t
      | Some k' \<Rightarrow> k' = acquired k pid ttl \<and> view kv u = put_t k' (view kv t))) t'"
    by (rule keeps_andthen) (simp add: t')
  then show "wp (if \<not> b then ret None
      else andthen (put_task (acquired k pid ttl)) (ret (Some (acquired k pid ttl))))
     (keeps E kv t0 (\<lambda>x u. case x of
        None \<Rightarrow> view kv u = view kv t
      | Some k' \<Rightarrow> k' = acquired k pid ttl \<and> view kv u = put_t k' (view kv t))) t'"
    using inv' t' by simp
qed

section \<open>Creation\<close>

lemma created_record_simps [simp]:
  "p_id (created_record time data at) = pc_id data"
  "p_tags (created_record time data at) = pc_tags data"
  "p_timeout_at (created_record time data at) = pc_timeout_at data"
  "p_param (created_record time data at) = pc_param data"
  "p_value (created_record time data at) = default_value"
  by (simp_all add: created_record_def Let_def)

lemma created_pending: "is_pending (created_record time data at) \<longleftrightarrow> lt64 time (pc_timeout_at data)"
  by (simp add: created_record_def is_pending_def Let_def not_le)

lemma created_not_expired [simp]: "\<not> expired time (created_record time data at)"
  by (simp add: expired_def created_pending)

lemma created_begins: "begins (created_record time data at)"
  by (auto simp: begins_def created_record_def is_pending_def Let_def timeout_state_def is_timer_def)

text \<open>The task a created promise gets: its start state, or fulfilled when the promise is settled.\<close>

definition starts :: "bool \<Rightarrow> create_mode \<Rightarrow> stored_task \<Rightarrow> bool" where
  "starts pending mode k \<longleftrightarrow> (if pending
     then (case mode of
         Dispatch \<Rightarrow> (t_state k, t_version k) = (TPending, 0) \<and> t_pid k = None \<and> t_ttl k = None
       | Acquire pid ttl \<Rightarrow>
           (t_state k, t_version k) = (TAcquired, 1) \<and> t_pid k = Some pid \<and> t_ttl k = Some ttl)
       \<and> t_job k \<noteq> None
     else (t_state k, t_version k) = (TFulfilled, 0) \<and> t_pid k = None \<and> t_ttl k = None)
     \<and> t_resumes k = om_empty"

lemma starts_ok:
  assumes "starts pending mode k" "t_id k = i"
  shows "task_ok i k" "task_begins pending (t_state k, t_version k)"
  using assms by (auto simp: starts_def task_ok_def task_begins.simps split: create_mode.splits if_splits)

lemma create_task_spec:
  assumes c: "queue_contract E kv"
    and Q: "\<And>k t'. same_base kv t t' \<Longrightarrow> t_id k = p_id p \<Longrightarrow> t_target k = tgt \<Longrightarrow>
      starts (lt64 (now t) (p_timeout_at p)) mode k \<Longrightarrow> view kv t' = put_t k (view kv t) \<Longrightarrow>
      Q (Inr ()) t'"
  shows "wp (create_task E p tgt mode) Q t"
proof (cases "le64 (p_timeout_at p) (now t)")
  case True
  have "wp (put_task ((new_task (p_id p) tgt TPending)\<lparr>t_state := TFulfilled\<rparr>)) Q t"
    by (rule wp_put_task, rule Q) (use True in \<open>auto simp: starts_def\<close>)
  with True show ?thesis
    by (simp add: create_task_def wp_def run_bnd Let_def)
next
  case False
  show ?thesis
  proof (cases mode)
    case (Acquire pid ttl)
    let ?k = "(new_task (p_id p) tgt TPending)\<lparr>t_state := TAcquired, t_version := 1,
      t_pid := Some pid, t_ttl := Some ttl\<rparr>"
    have "wp (bnd (dispatch E ?k (Some (sat_add (now t) ttl)))
        (\<lambda>task'. claim_after_commit task' (lease_of ttl))) Q t"
      by (intro wp_bnd wp_dispatch [OF c], simp only: sum.case, rule wp_claim_after)
        (use False Acquire in \<open>auto simp: starts_def intro!: Q intro: same_base_trans\<close>)
    with False Acquire show ?thesis
      by (simp add: create_task_def wp_def run_bnd Let_def)
  next
    case Dispatch
    have "wp (bnd (dispatch E (new_task (p_id p) tgt TPending) (start_delay (now t) p))
        (\<lambda>_. ret ())) Q t"
      by (intro wp_bnd wp_dispatch [OF c], simp only: sum.case wp_ret, rule Q)
        (use False Dispatch in \<open>auto simp: starts_def\<close>)
    with False Dispatch show ?thesis
      by (simp add: create_task_def wp_def run_bnd Let_def)
  qed
qed

text \<open>A created promise: it and its task are new, and nothing else changes.\<close>

definition created_store ::
  "('q, 'x) env_scheme \<Rightarrow> create_mode \<Rightarrow> promise_record \<Rightarrow> store \<Rightarrow> store \<Rightarrow> bool" where
  "created_store E mode p V W \<longleftrightarrow>
     promise_in E W = (promise_in E V)(p_id p \<mapsto> bare p) \<and> schedule_in E W = schedule_in E V
     \<and> (\<forall>j. j \<noteq> p_id p \<longrightarrow> task_in E W j = task_in E V j)
     \<and> (case target p of
          None \<Rightarrow> task_in E W (p_id p) = None
        | Some tgt \<Rightarrow> \<exists>k. task_in E W (p_id p) = Some k \<and> t_id k = p_id p \<and> t_target k = tgt
            \<and> starts (is_pending p) mode k)"

lemma promise_in_put_p: "promise_in E (put_p p V) = (promise_in E V)(p_id (sp_record p) \<mapsto> p)"
  by (auto simp: fun_eq_iff)

lemma create_promise_spec:
  assumes c: "queue_contract E kv" and inv: "tx_inv E kv t0 t"
    and none: "promise_in E (view kv t) (pc_id data) = None"
  shows "wp (create_promise E data at mode) (keeps E kv t0 (\<lambda>p' t'.
    p' = bare (created_record (now t0) data at)
    \<and> created_store E mode (created_record (now t0) data at) (view kv t) (view kv t'))) t"
    (is "wp _ ?Q t")
proof -
  let ?r = "created_record (now t0) data at"
  let ?p = "bare ?r"
  have time: "now t = now t0" using inv by (rule tx_invD)
  note good = tx_invD(1) [OF inv]
  have no_task: "task_in E (view kv t) (pc_id data) = None"
    using good_no_promise [OF good none] .
  have finish: "?Q (Inr ?p) t'"
    if "same_base kv t t'" "good E (view kv t')"
      "protocol_steps (abs_store E (view kv t)) (abs_store E (view kv t'))"
      "created_store E mode ?r (view kv t) (view kv t')" for t'
    using that tx_inv_step [OF inv that(1-3)] by simp
  have timer: "wp (andthen (if is_pending ?r \<and> is_external ?r
      then schedule_timer (PromiseTimeout (p_id ?r)) (p_timeout_at ?r) else ret ()) (ret ?p)) ?Q u"
    if u: "same_base kv t u" "good E (view kv u)"
      "protocol_steps (abs_store E (view kv t)) (abs_store E (view kv u))"
      "created_store E mode ?r (view kv t) (view kv u)" for u
  proof (cases "is_pending ?r \<and> is_external ?r")
    case True
    have "wp (schedule_timer (PromiseTimeout (p_id ?r)) (p_timeout_at ?r))
      (\<lambda>r s'. case r of Inl e \<Rightarrow> ?Q (Inl e) s' | Inr x \<Rightarrow> wp (ret ?p) ?Q s') u"
    proof (rule wp_schedule_timer [where kv = kv], simp only: sum.case wp_ret, rule finish)
      fix t' assume t': "same_base kv u t'" "view kv t' = view kv u"
      show "same_base kv t t'" using u(1) t'(1) by (rule same_base_trans)
    qed (use u in simp_all)
    with True show ?thesis by (intro wp_andthen) simp
  next
    case False
    with finish [OF u] show ?thesis
      by (intro wp_andthen) (simp only: if_not_P wp_ret sum.case if_False)
  qed
  have task: "wp (andthen (case target ?r of None \<Rightarrow> ret () | Some tgt \<Rightarrow> create_task E ?r tgt mode)
      (andthen (if is_pending ?r \<and> is_external ?r
        then schedule_timer (PromiseTimeout (p_id ?r)) (p_timeout_at ?r) else ret ()) (ret ?p))) ?Q u"
    if u: "same_base kv t u" "same_records E (view kv t) V" "view kv u = put_p ?p V" for u V
  proof -
    note V = good_same_records [OF u(2) good]
    have none': "promise_in E V (pc_id data) = None" and no_task': "task_in E V (pc_id data) = None"
      using u(2) none no_task by (simp_all add: same_records_def)
    show ?thesis
    proof (cases "target ?r")
      case None
      note g = create_store_good [OF V(1) none' _ created_begins None, of, simplified]
      have "created_store E mode ?r (view kv t) (view kv u)"
        using u(2,3) None no_task by (auto simp: created_store_def same_records_def promise_in_put_p)
      then show ?thesis
        by (simp only: None option.case) (rule wp_andthen, simp only: wp_ret sum.case,
          rule timer [OF u(1)], use g u V(2) in simp_all)
    next
      case (Some tgt)
      show ?thesis
      proof (simp only: Some option.case, rule wp_andthen, rule create_task_spec [OF c], simp only: sum.case, rule timer)
        fix k t'
        assume t': "same_base kv u t'" "t_id k = p_id ?r" "t_target k = tgt"
          "starts (lt64 (now u) (p_timeout_at ?r)) mode k" "view kv t' = put_t k (view kv u)"
        have "now u = now t0" using u(1) time by (simp add: same_base_def)
        then have st: "starts (is_pending ?r) mode k"
          using t'(4) by (simp add: created_pending)
        have "target ?r = Some (t_target k)" using Some t'(3) by simp
        note g = create_targeted_good [OF V(1) none' _ created_begins this starts_ok(1) [OF st]
            starts_ok(2) [OF st], simplified]
        show "same_base kv t t'" using u(1) t'(1) by (rule same_base_trans)
        show "good E (view kv t')" "protocol_steps (abs_store E (view kv t)) (abs_store E (view kv t'))"
          using g t' u(3) V(2) by simp_all
        show "created_store E mode ?r (view kv t) (view kv t')"
          using u(2,3) t' Some st by (auto simp: created_store_def same_records_def promise_in_put_p)
      qed
    qed
  qed
  show ?thesis
    unfolding create_promise_def Let_def
    by (rule keeps_asks, simp only: time stored_promise.select_convs, rule wp_andthen,
        rule wp_index_branch [where kv = kv and E = E], simp only: sum.case, rule wp_andthen,
        rule wp_put_promise [where kv = kv], simp only: sum.case, rule task,
        rule same_base_trans)
qed

section \<open>Schedules\<close>

text \<open>The schedule after one firing.\<close>

definition fired_schedule :: "('q, 'x) env_scheme \<Rightarrow> schedule_record \<Rightarrow> schedule_record" where
  "fired_schedule E s = (case next_after E (s_cron s) (s_next_run_at s) of
     Some nxt \<Rightarrow> s\<lparr>s_last_run_at := Some (s_next_run_at s), s_next_run_at := nxt\<rparr>
   | None \<Rightarrow> s\<lparr>s_last_run_at := Some (s_next_run_at s)\<rparr>)"

text \<open>The effect of a firing: the schedule's promise exists, and the schedule has advanced.\<close>

definition fired_store ::
  "('q, 'x) env_scheme \<Rightarrow> i64 \<Rightarrow> schedule_record \<Rightarrow> store \<Rightarrow> store \<Rightarrow> bool" where
  "fired_store E time s V W \<longleftrightarrow>
     schedule_in E W = (schedule_in E V)(s_id s \<mapsto> fired_schedule E s)
     \<and> (\<exists>X. promise_in E W = promise_in E X \<and> task_in E W = task_in E X
          \<and> (if promise_in E V (schedule_promise_id s) = None
             then created_store E Dispatch
               (created_record time (schedule_promise_data s) (Some (s_next_run_at s))) V X
             else X = V))"

lemma fired_schedule_simps [simp]: "s_id (fired_schedule E s) = s_id s"
  by (simp add: fired_schedule_def split: option.split)

lemma fired_schedule_ok: "schedule_ok i s \<Longrightarrow> schedule_ok i (fired_schedule E s)"
  by (simp add: schedule_ok_def fired_schedule_def split: option.split)

lemma schedule_promise_data_id [simp]: "pc_id (schedule_promise_data s) = schedule_promise_id s"
  by (simp add: schedule_promise_data_def Let_def)

lemma schedule_in_put_s: "schedule_in E (put_s s V) = (schedule_in E V)(s_id s \<mapsto> s)"
  by (auto simp: fun_eq_iff)

lemma fired_storeI:
  assumes "if promise_in E V (schedule_promise_id s) = None
      then created_store E Dispatch
        (created_record time (schedule_promise_data s) (Some (s_next_run_at s))) V X else X = V"
  shows "fired_store E time s V (put_s (fired_schedule E s) X)"
proof -
  have "schedule_in E X = schedule_in E V"
    using assms by (simp add: created_store_def split: if_splits)
  with assms show ?thesis
    unfolding fired_store_def by (intro conjI exI [where x = X]) (simp_all add: schedule_in_put_s)
qed

lemma advance_spec:
  assumes inv: "tx_inv E kv t0 t" and s: "schedule_ok i s"
  shows "wp (case next_after E (s_cron s) (s_next_run_at s) of
      Some nxt \<Rightarrow> andthen (schedule_timer (ScheduleAt (s_id s) nxt) nxt)
        (put_schedule (s\<lparr>s_last_run_at := Some (s_next_run_at s), s_next_run_at := nxt\<rparr>))
    | None \<Rightarrow> put_schedule (s\<lparr>s_last_run_at := Some (s_next_run_at s)\<rparr>))
    (keeps E kv t0 (\<lambda>_ t'. view kv t' = put_s (fired_schedule E s) (view kv t))) t"
    (is "wp _ ?Q t")
proof -
  have put: "wp (put_schedule (fired_schedule E s)) ?Q u"
    if "same_base kv t u" "view kv u = view kv t" for u
  proof (rule wp_put_schedule [where kv = kv])
    fix t' assume t': "same_base kv u t'" "view kv t' = put_s (fired_schedule E s) (view kv u)"
    have inv': "tx_inv E kv t0 u" by (rule tx_inv_view [OF inv that])
    note good = put_schedule_good [OF tx_invD(1) [OF inv'] fired_schedule_ok [OF s, of E]]
    then have "tx_inv E kv t0 t'"
      by (intro tx_inv_step [OF inv' t'(1)]) (simp_all add: t'(2))
    then show "?Q (Inr ()) t'" using t'(2) that(2) by simp
  qed
  show ?thesis
  proof (cases "next_after E (s_cron s) (s_next_run_at s)")
    case None
    then show ?thesis using put [of t] by (simp add: fired_schedule_def)
  next
    case (Some nxt)
    have "wp (andthen (schedule_timer (ScheduleAt (s_id s) nxt) nxt)
        (put_schedule (fired_schedule E s))) ?Q t"
      by (rule wp_andthen, rule wp_schedule_timer [where kv = kv], simp only: sum.case, rule put)
    then show ?thesis using Some by (simp add: fired_schedule_def)
  qed
qed

lemma fire_schedule_spec:
  assumes c: "queue_contract E kv" and inv: "tx_inv E kv t0 t"
    and s: "schedule_in E (view kv t) i = Some s"
  shows "wp (fire_schedule E s)
    (keeps E kv t0 (\<lambda>_ t'. fired_store E (now t0) s (view kv t) (view kv t'))) t" (is "wp _ ?Q t")
proof -
  have ok: "schedule_ok i s" using goodD(6) [OF tx_invD(1) [OF inv] s] .
  let ?p = "promise_in E (view kv t) (schedule_promise_id s)"
  let ?create = "case ?p of
      None \<Rightarrow> bnd (create_promise E (schedule_promise_data s) (Some (s_next_run_at s)) Dispatch) (\<lambda>_. ret ())
    | Some _ \<Rightarrow> ret ()"
  let ?R = "\<lambda>_ t'. if ?p = None
    then created_store E Dispatch
      (created_record (now t0) (schedule_promise_data s) (Some (s_next_run_at s))) (view kv t) (view kv t')
    else view kv t' = view kv t"
  have create: "wp ?create (keeps E kv t0 ?R) t"
  proof (cases ?p)
    case None
    have "wp (bnd (create_promise E (schedule_promise_data s) (Some (s_next_run_at s)) Dispatch)
        (\<lambda>_. ret ())) (keeps E kv t0 ?R) t"
      by (rule keeps_bnd [OF create_promise_spec [OF c inv]]) (use None in auto)
    with None show ?thesis by simp
  next
    case (Some p)
    with inv show ?thesis by simp
  qed
  show ?thesis
    unfolding fire_schedule_def Let_def
  proof (rule keeps_get_promise [OF c inv], rule keeps_andthen [OF create])
    fix x t' assume t': "tx_inv E kv t0 t'" "?R x t'"
    show "wp (case next_after E (s_cron s) (s_next_run_at s) of
        None \<Rightarrow> put_schedule (s\<lparr>s_last_run_at := Some (s_next_run_at s)\<rparr>)
      | Some nxt \<Rightarrow> andthen (schedule_timer (ScheduleAt (s_id s) nxt) nxt)
          (put_schedule (s\<lparr>s_last_run_at := Some (s_next_run_at s), s_next_run_at := nxt\<rparr>))) ?Q t'"
      by (rule keeps_mono [OF advance_spec [OF t'(1) ok]])
        (use fired_storeI [OF t'(2)] in simp)
  qed
qed

end
