(* ===== verification/Handlers.thy ===== *)
theory Handlers
  imports Kernel
begin

text \<open>
  The request handlers of \<open>src/kernel.rs\<close> and their dispatch.  A handler that commits ends in
  \<open>done\<close> or \<open>commit_settlement\<close>; one that returns before its commit leaves what it buffered
  unwritten, as dropping its transaction does.
\<close>

section \<open>Shared steps\<close>

text \<open>\<open>parse!\<close>: the request data, or a 400 reply.\<close>

definition parsed ::
  "('q, 'x) env_scheme \<Rightarrow> string \<Rightarrow> (json \<Rightarrow> 'a option) \<Rightarrow> json \<Rightarrow> ('a \<Rightarrow> ('q txn, reply) tx) \<Rightarrow>
   ('q txn, reply) tx" where
  "parsed E ty dec data handler = (case dec data of
     None \<Rightarrow> ret (invalid_request (x_serde_error E ty data))
   | Some d \<Rightarrow> handler d)"

text \<open>\<open>reject!\<close>: an early reply.\<close>

definition reject :: "reply option \<Rightarrow> ('q txn, reply) tx \<Rightarrow> ('q txn, reply) tx" where
  "reject r m = (case r of Some reply \<Rightarrow> ret reply | None \<Rightarrow> m)"

definition finished :: "('q, 'x) env_scheme \<Rightarrow> reply \<Rightarrow> ('q txn, reply) tx" where
  "finished E reply = andthen (commit E) (ret reply)"

definition promise_reply :: "promise_record \<Rightarrow> reply" where
  "promise_reply p = ok (jobj [(''promise'', enc_promise p)])"

definition empty_reply :: reply where
  "empty_reply = ok (jobj [])"

definition task_view :: "('q, 'x) env_scheme \<Rightarrow> stored_task \<Rightarrow> ('q txn, json) tx" where
  "task_view E task =
     bnd (get_promise E (t_id task)) (\<lambda>found.
     bnd (expect ''a task's promise exists'' found) (\<lambda>promise.
     bnd (if t_state task = TFulfilled then ret [] else preload E (sp_record promise)) (\<lambda>records.
     ret (jobj [(''task'', enc_task_record (task_wire task)),
                (''promise'', enc_promise (sp_record promise)),
                (''preload'', enc_list enc_promise records)]))))"

definition commit_settlement ::
  "('q, 'x) env_scheme \<Rightarrow> string \<Rightarrow> reply \<Rightarrow> ('q txn, reply) tx" where
  "commit_settlement E i reply = (\<lambda>t. case commit_ack E i t of
     (Inr _, t') \<Rightarrow> (Inr reply, t')
   | (Inl e, t') \<Rightarrow>
       if e = Storage ClaimLost then (Inr (err 409 ''Task version mismatch or invalid state''), t')
       else (Inl e, t'))"

section \<open>Promises\<close>

definition promise_create ::
  "('q, 'x) env_scheme \<Rightarrow> promise_create_data \<Rightarrow> ('q txn, reply) tx" where
  "promise_create E data =
     reject (validate_create E data) (
     andthen (try_timeout E [pc_id data]) (
     bnd (get_promise E (pc_id data)) (\<lambda>found. case found of
       Some existing \<Rightarrow> finished E (promise_reply (sp_record existing))
     | None \<Rightarrow>
         bnd (create_promise E data None Dispatch) (\<lambda>promise.
         finished E (promise_reply (sp_record promise))))))"

definition promise_get :: "('q, 'x) env_scheme \<Rightarrow> string \<Rightarrow> ('q txn, reply) tx" where
  "promise_get E i =
     andthen (try_timeout E [i]) (
     bnd (get_promise E i) (\<lambda>found.
     finished E (case found of
       Some promise \<Rightarrow> promise_reply (sp_record promise)
     | None \<Rightarrow> err 404 ''Promise not found'')))"

text \<open>A pending promise is settled, and a settled one is left as it is.\<close>

definition settle_pending ::
  "('q, 'x) env_scheme \<Rightarrow> stored_promise \<Rightarrow> settle_state \<Rightarrow> promise_value \<Rightarrow>
   ('q txn, stored_promise) tx" where
  "settle_pending E promise state value =
     (if is_pending (sp_record promise) then settle E promise state value else ret promise)"

definition promise_settle ::
  "('q, 'x) env_scheme \<Rightarrow> promise_settle_data \<Rightarrow> ('q txn, reply) tx" where
  "promise_settle E data =
     andthen (try_timeout E [ps_id data]) (
     bnd (get_promise E (ps_id data)) (\<lambda>found. case found of
       None \<Rightarrow> finished E (err 404 ''Promise not found'')
     | Some promise \<Rightarrow>
         bnd (settle_pending E promise (ps_state data) (ps_value data)) (\<lambda>promise'.
         finished E (promise_reply (sp_record promise')))))"

definition register_callback ::
  "stored_promise \<Rightarrow> string \<Rightarrow> ('q txn, stored_promise) tx" where
  "register_callback awaited awaiter =
     (if awaiter \<notin> set (sp_callbacks awaited) then
        (let awaited' = awaited\<lparr>sp_callbacks := sp_callbacks awaited @ [awaiter]\<rparr>
         in andthen (put_promise awaited') (ret awaited'))
      else ret awaited)"

definition promise_register_callback ::
  "('q, 'x) env_scheme \<Rightarrow> callback_data \<Rightarrow> ('q txn, reply) tx" where
  "promise_register_callback E data =
     reject (validate_callback (cb_awaited data) (cb_awaiter data)) (
     andthen (try_timeout E [cb_awaited data, cb_awaiter data]) (
     bnd (get_promise E (cb_awaited data)) (\<lambda>found. case found of
       None \<Rightarrow> finished E (err 404 ''Awaited promise not found'')
     | Some awaited \<Rightarrow>
     bnd (get_promise E (cb_awaiter data)) (\<lambda>found. case found of
       None \<Rightarrow> finished E (err 422 ''Awaiter promise not found'')
     | Some awaiter \<Rightarrow>
         if target (sp_record awaiter) = None then
           finished E (err 422 ''Awaiter promise has no resonate:target tag'')
         else if \<not> is_external (sp_record awaited) then
           finished E (err 422 ''Awaited promise is not awaitable'')
         else
           bnd (if is_pending (sp_record awaiter) then
                  (if is_pending (sp_record awaited) then register_callback awaited (cb_awaiter data)
                   else andthen (resume_awaiter E (cb_awaiter data) (cb_awaited data) Registration)
                     (ret awaited))
                else ret awaited) (\<lambda>awaited'.
           finished E (promise_reply (sp_record awaited')))))))"

definition promise_register_listener ::
  "('q, 'x) env_scheme \<Rightarrow> listener_data \<Rightarrow> ('q txn, reply) tx" where
  "promise_register_listener E data =
     (if \<not> is_url E (li_address data) then ret (err 400 ''Invalid listener address'')
      else
        andthen (try_timeout E [li_awaited data]) (
        bnd (get_promise E (li_awaited data)) (\<lambda>found. case found of
          None \<Rightarrow> finished E (err 404 ''Awaited promise not found'')
        | Some awaited \<Rightarrow>
            if \<not> is_external (sp_record awaited) then
              finished E (err 422 ''Awaited promise is not awaitable'')
            else
              andthen (if is_pending (sp_record awaited) \<and> li_address data \<notin> set (sp_listeners awaited)
                       then put_promise
                         (awaited\<lparr>sp_listeners := sp_listeners awaited @ [li_address data]\<rparr>)
                       else ret ())
                (finished E (promise_reply (sp_record awaited))))))"

text \<open>A search ends without a commit.\<close>

definition limited ::
  "i64 option \<Rightarrow> nat \<Rightarrow> (nat \<Rightarrow> ('q txn, reply) tx) \<Rightarrow> ('q txn, reply) tx" where
  "limited l preset m = (case search_limit l preset of Inl reply \<Rightarrow> ret reply | Inr n \<Rightarrow> m n)"

definition paged ::
  "string \<Rightarrow> ('a \<Rightarrow> json) \<Rightarrow> ('a \<Rightarrow> string) \<Rightarrow> 'a list \<Rightarrow> string option \<Rightarrow> nat \<Rightarrow> ('q txn, reply) tx" where
  "paged name enc id_of items cursor n =
     bnd (reads (\<lambda>_. page items id_of cursor n)) (\<lambda>(found, nxt).
     ret (ok (with_cursor (jobj [(name, enc_list enc found)]) nxt)))"

definition promise_search ::
  "('q, 'x) env_scheme \<Rightarrow> promise_search_data \<Rightarrow> ('q txn, reply) tx" where
  "promise_search E data =
     limited (sq_limit data) DEFAULT_SEARCH_LIMIT (\<lambda>n.
     bnd (promises E) (\<lambda>all.
     paged ''promises'' enc_promise p_id
       (filter (\<lambda>p. tags_match (p_tags p) (sq_tags data))
         (filter (\<lambda>p. case sq_state data of None \<Rightarrow> True | Some st \<Rightarrow> p_state p = st) all))
       (sq_cursor data) n))"

section \<open>Tasks\<close>

text \<open>The claim of a delivered job is held, or the job is claimed by id from the queue.\<close>

definition claimable ::
  "('q, 'x) env_scheme \<Rightarrow> stored_task \<Rightarrow> i64 \<Rightarrow> ('q txn, bool) tx" where
  "claimable E task ttl =
     bnd (holds E (t_id task)) (\<lambda>held.
     if held then ret True
     else (case t_job task of
       Some job \<Rightarrow> claim_job E (t_id task) job (lease_of ttl)
     | None \<Rightarrow> ret False))"

definition already_exists :: reply where
  "already_exists = err 409 ''Already exists''"

text \<open>The branch of \<open>task_create\<close> for a promise that has a task.\<close>

definition create_existing ::
  "('q, 'x) env_scheme \<Rightarrow> stored_task \<Rightarrow> string \<Rightarrow> i64 \<Rightarrow> ('q txn, reply) tx" where
  "create_existing E task pid ttl = (case t_state task of
     TPending \<Rightarrow>
       bnd (claimable E task ttl) (\<lambda>claimed.
       if \<not> claimed then finished E already_exists
       else
         bnd (acquire E task pid ttl) (\<lambda>taken. case taken of
           None \<Rightarrow> finished E already_exists
         | Some task' \<Rightarrow> bnd (task_view E task') (\<lambda>view. finished E (ok view))))
   | TFulfilled \<Rightarrow> bnd (task_view E task) (\<lambda>view. finished E (ok view))
   | TAcquired \<Rightarrow> finished E already_exists
   | TSuspended \<Rightarrow> finished E already_exists
   | THalted \<Rightarrow> finished E already_exists)"

definition task_create :: "('q, 'x) env_scheme \<Rightarrow> task_create_data \<Rightarrow> ('q txn, reply) tx" where
  "task_create E data =
     (let create = ac_data (tc_action data) in
      if ac_kind (tc_action data) \<noteq> ''promise.create'' then ret (err 400 ''Invalid action kind'')
      else if tc_pid data = [] then ret (err 400 ''Process ID is required'')
      else if lt64 (tc_ttl data) 1 then ret (err 400 ''TTL must be positive'')
      else reject (validate_create E create) (
        if om_get (pc_tags create) TAG_TARGET = None then
          ret (err 400 ''resonate:target tag is required'')
        else if om_get (pc_tags create) TAG_DELAY \<noteq> None then
          ret (err 400 ''resonate:delay tag is not allowed'')
        else
          andthen (try_timeout E [pc_id create]) (
          bnd (get_task E (pc_id create)) (\<lambda>found. case found of
            Some task \<Rightarrow> create_existing E task (tc_pid data) (tc_ttl data)
          | None \<Rightarrow>
          bnd (get_promise E (pc_id create)) (\<lambda>existing. case existing of
            Some _ \<Rightarrow> finished E (err 422 ''The promise does not have a resonate:target tag'')
          | None \<Rightarrow>
              bnd (create_promise E create None (Acquire (tc_pid data) (tc_ttl data))) (\<lambda>promise.
              bnd (get_task E (p_id (sp_record promise))) (\<lambda>found.
              bnd (expect ''a targeted promise has a task'' found) (\<lambda>task.
              bnd (task_view E task) (\<lambda>view. finished E (ok view))))))))))"

definition task_acquire :: "('q, 'x) env_scheme \<Rightarrow> task_acquire_data \<Rightarrow> ('q txn, reply) tx" where
  "task_acquire E data =
     andthen (try_timeout E [ta_id data]) (
     bnd (get_task E (ta_id data)) (\<lambda>found. case found of
       None \<Rightarrow> finished E (err 404 ''Task not found'')
     | Some task \<Rightarrow>
         if t_state task \<noteq> TPending then finished E (err 409 ''Task is not pending'')
         else if t_version task \<noteq> ta_version data then finished E (err 409 ''Version mismatch'')
         else
           bnd (acquire E task (ta_pid data) (ta_ttl data)) (\<lambda>taken. case taken of
             None \<Rightarrow> finished E (err 409 ''Task is not pending'')
           | Some task' \<Rightarrow> bnd (task_view E task') (\<lambda>view. finished E (ok view)))))"

definition invalid_state :: reply where
  "invalid_state = err 409 ''Task version mismatch or invalid state''"

definition task_release :: "('q, 'x) env_scheme \<Rightarrow> task_version_data \<Rightarrow> ('q txn, reply) tx" where
  "task_release E data =
     andthen (try_timeout E [tv_id data]) (
     bnd (get_task E (tv_id data)) (\<lambda>found. case found of
       None \<Rightarrow> finished E (err 404 ''Task not found'')
     | Some task \<Rightarrow>
         if \<not> is_acquired_at task (tv_version data) then finished E invalid_state
         else
           andthen (put_task (transition task TPending)) (
           andthen (nack_after_commit (t_id task)) (
           finished E empty_reply))))"

definition task_fulfill :: "('q, 'x) env_scheme \<Rightarrow> task_fulfill_data \<Rightarrow> ('q txn, reply) tx" where
  "task_fulfill E data =
     (let settling = ac_data (tf_action data) in
      if ac_kind (tf_action data) \<noteq> ''promise.settle'' then ret (err 400 ''Invalid action kind'')
      else if ps_id settling \<noteq> tf_id data then
        ret (err 400 ''Action must settle the task's promise'')
      else
        andthen (try_timeout E [tf_id data]) (
        bnd (get_task E (tf_id data)) (\<lambda>found. case found of
          None \<Rightarrow> finished E (err 404 ''Task not found'')
        | Some task \<Rightarrow>
            if \<not> is_acquired_at task (tf_version data) then finished E invalid_state
            else
              bnd (get_promise E (tf_id data)) (\<lambda>found. case found of
                None \<Rightarrow> finished E (err 404 ''Promise not found'')
              | Some promise \<Rightarrow>
                  bnd (holds E (t_id task)) (\<lambda>held.
                  if \<not> held then finished E invalid_state
                  else
                    bnd (settle_pending E promise (ps_state settling) (ps_value settling)) (\<lambda>promise'.
                    commit_settlement E (t_id task) (promise_reply (sp_record promise'))))))))"

text \<open>The checks of the actions of a suspend: an early reply, or the awaited ids.\<close>

fun awaited_of :: "string \<Rightarrow> callback_data action list \<Rightarrow> string list \<Rightarrow> reply + string list" where
  "awaited_of i [] ids = Inr ids"
| "awaited_of i (action # rest) ids =
     (if ac_kind action \<noteq> ''promise.register_callback'' then Inl (err 400 ''Invalid action kind'')
      else if cb_awaiter (ac_data action) \<noteq> i then Inl (err 400 ''Action awaiter must be the task'')
      else (case validate_callback (cb_awaited (ac_data action)) (cb_awaiter (ac_data action)) of
          Some reply \<Rightarrow> Inl reply
        | None \<Rightarrow>
            if cb_awaited (ac_data action) \<in> set ids then
              Inl (err 400 ''Awaited promises must be unique'')
            else awaited_of i rest (ids @ [cb_awaited (ac_data action)])))"

text \<open>The awaited promises, or the reply for the first that is missing or not awaitable.\<close>

fun load_awaited ::
  "('q, 'x) env_scheme \<Rightarrow> string list \<Rightarrow> ('q txn, reply + stored_promise list) tx" where
  "load_awaited E [] = ret (Inr [])"
| "load_awaited E (i # rest) =
     bnd (get_promise E i) (\<lambda>found. case found of
       None \<Rightarrow> ret (Inl (err 422 ''Awaited promise not found''))
     | Some promise \<Rightarrow>
         if \<not> is_external (sp_record promise) then
           ret (Inl (err 422 ''Awaited promise is not awaitable''))
         else
           bnd (load_awaited E rest) (\<lambda>loaded. ret (case loaded of
             Inl reply \<Rightarrow> Inl reply
           | Inr awaited \<Rightarrow> Inr (promise # awaited))))"

definition preload_json :: "promise_record list \<Rightarrow> json" where
  "preload_json records = enc_list enc_promise records"

text \<open>The end of a suspend, once the awaited promises are loaded.\<close>

definition suspend_on ::
  "('q, 'x) env_scheme \<Rightarrow> string \<Rightarrow> stored_task \<Rightarrow> stored_promise list \<Rightarrow> ('q txn, reply) tx" where
  "suspend_on E i task awaited =
     (let task' = task\<lparr>t_resumes := om_empty\<rparr> in
      if list_ex (\<lambda>promise. \<not> is_pending (sp_record promise)) awaited then
        andthen (put_task task') (
        bnd (get_promise E i) (\<lambda>found.
        bnd (expect ''a task's promise exists'' found) (\<lambda>own.
        bnd (preload E (sp_record own)) (\<lambda>records.
        finished E (ROk 300 (jobj [(''preload'', preload_json records)]))))))
      else
        andthen (for_each (\<lambda>promise. bnd (register_callback promise i) (\<lambda>_. ret ())) awaited) (
        andthen (put_task (transition task' TSuspended)) (
        commit_settlement E i empty_reply)))"

definition task_suspend :: "('q, 'x) env_scheme \<Rightarrow> task_suspend_data \<Rightarrow> ('q txn, reply) tx" where
  "task_suspend E data =
     (if ts_actions data = [] then ret (err 400 ''Actions are required'')
      else (case awaited_of (ts_id data) (ts_actions data) [] of
        Inl reply \<Rightarrow> ret reply
      | Inr ids \<Rightarrow>
          andthen (try_timeout E (ts_id data # ids)) (
          bnd (get_task E (ts_id data)) (\<lambda>found. case found of
            None \<Rightarrow> finished E (err 404 ''Task not found'')
          | Some task \<Rightarrow>
              bnd (if is_acquired_at task (ts_version data) then holds E (t_id task) else ret False)
                (\<lambda>held.
              if \<not> held then finished E (err 409 ''Task is not acquired or version mismatch'')
              else
                bnd (load_awaited E ids) (\<lambda>loaded. case loaded of
                  Inl reply \<Rightarrow> finished E reply
                | Inr awaited \<Rightarrow> suspend_on E (ts_id data) task awaited))))))"

text \<open>The action of a fence, applied: its reply, or the reply that ends the request.\<close>

definition invalid_action :: "string \<Rightarrow> reply" where
  "invalid_action e = err 400 (''Invalid action data: '' @ e)"

definition fence_create ::
  "('q, 'x) env_scheme \<Rightarrow> json \<Rightarrow> ('q txn, reply + reply) tx" where
  "fence_create E j = (case dec_promise_create j of
     None \<Rightarrow> ret (Inl (invalid_action (x_serde_error E ''PromiseCreateData'' j)))
   | Some create \<Rightarrow>
       (case validate_create E create of
          Some reply \<Rightarrow> ret (Inl reply)
        | None \<Rightarrow>
            bnd (get_promise E (pc_id create)) (\<lambda>found. case found of
              Some existing \<Rightarrow> ret (Inr (promise_reply (sp_record existing)))
            | None \<Rightarrow>
                bnd (create_promise E create None Dispatch) (\<lambda>promise.
                ret (Inr (promise_reply (sp_record promise)))))))"

definition fence_settle ::
  "('q, 'x) env_scheme \<Rightarrow> json \<Rightarrow> ('q txn, reply + reply) tx" where
  "fence_settle E j = (case dec_promise_settle j of
     None \<Rightarrow> ret (Inl (invalid_action (x_serde_error E ''PromiseSettleData'' j)))
   | Some d \<Rightarrow>
       bnd (get_promise E (ps_id d)) (\<lambda>found. case found of
         None \<Rightarrow> ret (Inr (err 404 ''Promise not found''))
       | Some promise \<Rightarrow>
           bnd (settle_pending E promise (ps_state d) (ps_value d)) (\<lambda>promise'.
           ret (Inr (promise_reply (sp_record promise'))))))"

definition fence_action ::
  "('q, 'x) env_scheme \<Rightarrow> string \<Rightarrow> json \<Rightarrow> ('q txn, reply + reply) tx" where
  "fence_action E kind j =
     (if kind = ''promise.create'' then fence_create E j
      else if kind = ''promise.settle'' then fence_settle E j
      else ret (Inl (err 400 ''Invalid fence action kind'')))"

definition fence_reply :: "string \<Rightarrow> string \<Rightarrow> reply \<Rightarrow> promise_record list \<Rightarrow> reply" where
  "fence_reply kind corr_id inner records =
     ok (jobj
       [(''action'', jobj
          [(''kind'', JString kind),
           (''head'', jobj
              [(''corrId'', JString corr_id),
               (''status'', JInt (int (status inner))),
               (''version'', JString PROTOCOL_VERSION)]),
           (''data'', into_data inner)]),
        (''preload'', preload_json records)])"

definition task_fence ::
  "('q, 'x) env_scheme \<Rightarrow> string \<Rightarrow> task_fence_data \<Rightarrow> ('q txn, reply) tx" where
  "task_fence E corr_id data =
     (case as_str (jget (ac_data (fe_action data)) ''id'') of
        None \<Rightarrow> ret (err 400 ''Action promise ID is required'')
      | Some action_id \<Rightarrow>
          if action_id = fe_id data then
            ret (err 400 ''Action promise must differ from the task's promise'')
          else if origin_of action_id \<noteq> origin_of (fe_id data) then
            ret (err 400 ''Action must belong to the task's origin'')
          else
            andthen (try_timeout E [fe_id data, action_id]) (
            bnd (get_task E (fe_id data)) (\<lambda>found. case found of
              None \<Rightarrow> finished E (err 404 ''Task not found'')
            | Some task \<Rightarrow>
                if \<not> is_acquired_at task (fe_version data) then finished E (err 409 ''Version mismatch'')
                else
                  bnd (fence_action E (ac_kind (fe_action data)) (ac_data (fe_action data))) (\<lambda>outcome.
                  case outcome of
                    Inl reply \<Rightarrow> ret reply
                  | Inr inner \<Rightarrow>
                      bnd (get_promise E (fe_id data)) (\<lambda>found.
                      bnd (expect ''a task's promise exists'' found) (\<lambda>own.
                      bnd (preload E (sp_record own)) (\<lambda>records.
                      finished E (fence_reply (ac_kind (fe_action data)) corr_id inner records))))))))"

text \<open>One round of the heartbeat: a task acquired by the process at the version has its lease
  renewed, and any other is skipped.\<close>

definition heartbeat_one ::
  "('q, 'x) env_scheme \<Rightarrow> string \<Rightarrow> task_version_data \<Rightarrow> ('q txn, unit) tx" where
  "heartbeat_one E pid entry =
     bnd (get_task E (tv_id entry)) (\<lambda>found. case found of
       None \<Rightarrow> ret ()
     | Some task \<Rightarrow>
         if is_acquired_at task (tv_version entry) \<and> t_pid task = Some pid then
           (case t_ttl task of
              None \<Rightarrow> ret ()
            | Some ttl \<Rightarrow> bnd (renew E (t_id task) (lease_of ttl)) (\<lambda>_. ret ()))
         else ret ())"

definition task_heartbeat ::
  "('q, 'x) env_scheme \<Rightarrow> task_heartbeat_data \<Rightarrow> ('q txn, reply) tx" where
  "task_heartbeat E data =
     andthen (for_each (heartbeat_one E (hb_pid data)) (hb_tasks data)) (finished E empty_reply)"

definition task_get :: "('q, 'x) env_scheme \<Rightarrow> string \<Rightarrow> ('q txn, reply) tx" where
  "task_get E i =
     andthen (try_timeout E [i]) (
     bnd (get_task E i) (\<lambda>found.
     finished E (case found of
       Some task \<Rightarrow> ok (jobj [(''task'', enc_task_record (task_wire task))])
     | None \<Rightarrow> err 404 ''Task not found'')))"

definition task_halt :: "('q, 'x) env_scheme \<Rightarrow> string \<Rightarrow> ('q txn, reply) tx" where
  "task_halt E i =
     andthen (try_timeout E [i]) (
     bnd (get_task E i) (\<lambda>found. case found of
       None \<Rightarrow> finished E (err 404 ''Task not found'')
     | Some task \<Rightarrow>
         if t_state task = TFulfilled then finished E (err 409 ''Task is fulfilled'')
         else if t_state task = THalted then finished E empty_reply
         else
           andthen (put_task (transition task THalted)) (
           andthen (release (t_id task)) (
           finished E empty_reply))))"

definition task_continue :: "('q, 'x) env_scheme \<Rightarrow> string \<Rightarrow> ('q txn, reply) tx" where
  "task_continue E i =
     andthen (try_timeout E [i]) (
     bnd (get_task E i) (\<lambda>found. case found of
       None \<Rightarrow> finished E (err 404 ''Task not found'')
     | Some task \<Rightarrow>
         if t_state task \<noteq> THalted then finished E (err 409 ''Task is not halted'')
         else
           (let task' = transition task TPending in
            andthen (put_task task') (
            bnd (case t_job task' of Some job \<Rightarrow> job_exists E job | None \<Rightarrow> ret False) (\<lambda>waiting.
            andthen (if \<not> waiting then bnd (dispatch E task' None) (\<lambda>_. ret ()) else ret ()) (
            finished E empty_reply))))))"

definition task_search :: "('q, 'x) env_scheme \<Rightarrow> task_search_data \<Rightarrow> ('q txn, reply) tx" where
  "task_search E data =
     limited (tq_limit data) DEFAULT_SEARCH_LIMIT (\<lambda>n.
     bnd (tasks E) (\<lambda>all.
     paged ''tasks'' enc_task_record tr_id
       (filter (\<lambda>r. case tq_state data of None \<Rightarrow> True | Some st \<Rightarrow> tr_state r = st)
         (map task_wire all))
       (tq_cursor data) n))"

section \<open>Schedules\<close>

definition schedule_reply :: "schedule_record \<Rightarrow> reply" where
  "schedule_reply s = ok (jobj [(''schedule'', enc_schedule s)])"

definition created_schedule :: "i64 \<Rightarrow> schedule_create_data \<Rightarrow> i64 \<Rightarrow> schedule_record" where
  "created_schedule time data nxt =
     \<lparr>s_id = sd_id data, s_cron = sd_cron data, s_promise_id = sd_promise_id data,
      s_promise_timeout = sd_promise_timeout data, s_promise_param = sd_promise_param data,
      s_promise_tags = sd_promise_tags data, s_created_at = time, s_next_run_at = nxt,
      s_last_run_at = None\<rparr>"

definition schedule_create ::
  "('q, 'x) env_scheme \<Rightarrow> schedule_create_data \<Rightarrow> ('q txn, reply) tx" where
  "schedule_create E data =
     (if sd_id data = [] then ret (err 400 ''Schedule ID is required'')
      else if contains (sd_id data) CHR '':'' then
        ret (err 400 (''Schedule ID must not contain ':'' @ [CHR 0x27]))
      else (case om_get (sd_promise_tags data) TAG_TARGET of
        None \<Rightarrow> ret (err 400 ''resonate:target tag is required'')
      | Some tgt \<Rightarrow>
          if \<not> is_url E tgt then ret (err 400 ''Invalid resonate:target address'')
          else if lt64 (sd_promise_timeout data) 0 then
            ret (err 400 ''Promise timeout must not be negative'')
          else
            bnd (get_schedule E (sd_id data)) (\<lambda>found. case found of
              Some existing \<Rightarrow> ret (schedule_reply existing)
            | None \<Rightarrow>
            bnd (asks now) (\<lambda>time. case next_after E (sd_cron data) time of
              None \<Rightarrow> ret (err 400 ''Invalid cron expression'')
            | Some nxt \<Rightarrow>
                (let s = created_schedule time data nxt in
                 andthen (put_schedule s) (
                 andthen (schedule_timer (ScheduleAt (s_id s) nxt) nxt) (
                 finished E (schedule_reply s))))))))"

definition schedule_get :: "('q, 'x) env_scheme \<Rightarrow> string \<Rightarrow> ('q txn, reply) tx" where
  "schedule_get E i =
     bnd (get_schedule E i) (\<lambda>found. ret (case found of
       Some s \<Rightarrow> schedule_reply s
     | None \<Rightarrow> err 404 ''Schedule not found''))"

definition schedule_delete :: "('q, 'x) env_scheme \<Rightarrow> string \<Rightarrow> ('q txn, reply) tx" where
  "schedule_delete E i =
     bnd (get_schedule E i) (\<lambda>found. case found of
       None \<Rightarrow> ret (err 404 ''Schedule not found'')
     | Some _ \<Rightarrow> andthen (delete_schedule i) (finished E empty_reply))"

definition schedule_search ::
  "('q, 'x) env_scheme \<Rightarrow> schedule_search_data \<Rightarrow> ('q txn, reply) tx" where
  "schedule_search E data =
     limited (hq_limit data) DEFAULT_SCHEDULE_SEARCH_LIMIT (\<lambda>n.
     bnd (schedules E) (\<lambda>all.
     paged ''schedules'' enc_schedule s_id
       (filter (\<lambda>s. tags_match (s_promise_tags s) (hq_tags data)) all) (hq_cursor data) n))"

section \<open>Dispatch\<close>

definition handle ::
  "('q, 'x) env_scheme \<Rightarrow> string \<Rightarrow> string \<Rightarrow> json \<Rightarrow> ('q txn, reply) tx" where
  "handle E kind corr_id data =
     (if kind = ''promise.create'' then
        parsed E ''PromiseCreateData'' dec_promise_create data (promise_create E)
      else if kind = ''promise.get'' then parsed E ''IdData'' dec_id_data data (promise_get E)
      else if kind = ''promise.settle'' then
        parsed E ''PromiseSettleData'' dec_promise_settle data (promise_settle E)
      else if kind = ''promise.register_callback'' then
        parsed E ''CallbackData'' dec_callback data (promise_register_callback E)
      else if kind = ''promise.register_listener'' then
        parsed E ''ListenerData'' dec_listener data (promise_register_listener E)
      else if kind = ''promise.search'' then
        parsed E ''PromiseSearchData'' dec_promise_search data (promise_search E)
      else if kind = ''task.create'' then
        parsed E ''TaskCreateData'' dec_task_create data (task_create E)
      else if kind = ''task.acquire'' then
        parsed E ''TaskAcquireData'' dec_task_acquire data (task_acquire E)
      else if kind = ''task.release'' then
        parsed E ''TaskVersionData'' dec_task_version data (task_release E)
      else if kind = ''task.fulfill'' then
        parsed E ''TaskFulfillData'' dec_task_fulfill data (task_fulfill E)
      else if kind = ''task.suspend'' then
        parsed E ''TaskSuspendData'' dec_task_suspend data (task_suspend E)
      else if kind = ''task.fence'' then
        parsed E ''TaskFenceData'' dec_task_fence data (task_fence E corr_id)
      else if kind = ''task.heartbeat'' then
        parsed E ''TaskHeartbeatData'' dec_task_heartbeat data (task_heartbeat E)
      else if kind = ''task.get'' then parsed E ''IdData'' dec_id_data data (task_get E)
      else if kind = ''task.halt'' then parsed E ''IdData'' dec_id_data data (task_halt E)
      else if kind = ''task.continue'' then parsed E ''IdData'' dec_id_data data (task_continue E)
      else if kind = ''task.search'' then
        parsed E ''TaskSearchData'' dec_task_search data (task_search E)
      else if kind = ''schedule.create'' then
        parsed E ''ScheduleCreateData'' dec_schedule_create data (schedule_create E)
      else if kind = ''schedule.get'' then parsed E ''IdData'' dec_id_data data (schedule_get E)
      else if kind = ''schedule.delete'' then parsed E ''IdData'' dec_id_data data (schedule_delete E)
      else if kind = ''schedule.search'' then
        parsed E ''ScheduleSearchData'' dec_schedule_search data (schedule_search E)
      else ret (err 400 (''Unknown operation: '' @ kind)))"

end
