(* ===== verification/Answers.thy ===== *)
theory Answers
  imports Kernel_Specs Handlers
begin

text \<open>
  The specification of a handler: a request that began in a good store ends in a good store,
  reached by steps of the abstract protocol, and either answers with a reply that stands in a
  given relation to the store it leaves behind, or fails with a storage error and has left the
  store as it was or as a reply would have.  The rules below
  sequence the specifications of \<open>Kernel_Specs\<close> up to a commit or an early reply.
\<close>

section \<open>Requests\<close>

definition begun :: "('q, 'x) env_scheme \<Rightarrow> ('q \<Rightarrow> store) \<Rightarrow> 'q txn \<Rightarrow> bool" where
  "begun E kv t \<longleftrightarrow> writes t = om_empty \<and> after t = [] \<and> good E (kv (queue t))"

definition answers ::
  "('q, 'x) env_scheme \<Rightarrow> ('q \<Rightarrow> store) \<Rightarrow> 'q txn \<Rightarrow> ('a \<Rightarrow> store \<Rightarrow> bool) \<Rightarrow> error + 'a \<Rightarrow> 'q txn \<Rightarrow> bool"
  where
  "answers E kv t0 Q r t \<longleftrightarrow> good E (kv (queue t))
     \<and> protocol_steps (abs_store E (kv (queue t0))) (abs_store E (kv (queue t)))
     \<and> (case r of
          Inl e \<Rightarrow> (\<exists>x. e = Storage x) \<and> (kv (queue t) = kv (queue t0) \<or> (\<exists>x. Q x (kv (queue t))))
        | Inr x \<Rightarrow> Q x (kv (queue t)))"

lemma begun_new_txn: "good E (kv q) \<Longrightarrow> begun E kv (new_txn q h limit time)"
  by (simp add: begun_def new_txn_def)

lemma begun_view: "begun E kv t \<Longrightarrow> view kv t = kv (queue t)"
  by (simp add: begun_def view_def fun_eq_iff)

lemma begun_inv: "begun E kv t \<Longrightarrow> tx_inv E kv t t"
  by (rule tx_inv_start) (simp add: begun_view, simp add: begun_def)

lemma answers_mono: "answers E kv t0 P r t \<Longrightarrow> (\<And>x W. P x W \<Longrightarrow> Q x W) \<Longrightarrow> answers E kv t0 Q r t"
  by (auto simp: answers_def split: sum.splits)

lemma wp_answers_mono:
  "wp m (answers E kv t0 P) t \<Longrightarrow> (\<And>x W. P x W \<Longrightarrow> Q x W) \<Longrightarrow> wp m (answers E kv t0 Q) t"
  by (erule wp_mono, erule answers_mono)

text \<open>Until the commit the queue's records are those the request began with.\<close>

lemma answers_unchanged:
  assumes "begun E kv t0" "tx_inv E kv t0 t"
    and "case r of Inl e \<Rightarrow> \<exists>x. e = Storage x | Inr x \<Rightarrow> Q x (kv (queue t0))"
  shows "answers E kv t0 Q r t"
proof -
  have "kv (queue t) = kv (queue t0)"
    using tx_invD(3) [OF assms(2)] by (simp add: same_base_def)
  with assms show ?thesis
    by (auto simp: answers_def begun_def split: sum.splits)
qed

lemma answers_ret:
  "begun E kv t0 \<Longrightarrow> tx_inv E kv t0 t \<Longrightarrow> Q reply (kv (queue t0)) \<Longrightarrow>
   wp (ret reply) (answers E kv t0 Q) t"
  by (simp add: answers_unchanged)

lemma answers_bnd:
  assumes "begun E kv t0" "wp m (keeps E kv t0 P) t"
    and "\<And>x t'. tx_inv E kv t0 t' \<Longrightarrow> P x t' \<Longrightarrow> wp (f x) (answers E kv t0 Q) t'"
  shows "wp (bnd m f) (answers E kv t0 Q) t"
  by (rule wp_bndI [OF assms(2)])
    (auto simp: keeps_def intro: answers_unchanged [OF assms(1)] assms(3))

lemma answers_andthen:
  assumes "begun E kv t0" "wp m (keeps E kv t0 P) t"
    and "\<And>x t'. tx_inv E kv t0 t' \<Longrightarrow> P x t' \<Longrightarrow> wp n (answers E kv t0 Q) t'"
  shows "wp (andthen m n) (answers E kv t0 Q) t"
  using answers_bnd [OF assms] by (simp add: andthen_def)

lemma answers_get_promise:
  assumes "begun E kv t0" "queue_contract E kv" "tx_inv E kv t0 t"
    and "wp (f (promise_in E (view kv t) i)) (answers E kv t0 Q) t"
  shows "wp (bnd (get_promise E i) f) (answers E kv t0 Q) t"
  using assms
  by (intro wp_bnd wp_get_promise [where kv = kv]) (auto simp: tx_invD intro: answers_unchanged)

lemma answers_get_task:
  assumes "begun E kv t0" "queue_contract E kv" "tx_inv E kv t0 t"
    and "wp (f (task_in E (view kv t) i)) (answers E kv t0 Q) t"
  shows "wp (bnd (get_task E i) f) (answers E kv t0 Q) t"
  using assms
  by (intro wp_bnd wp_get_task [where kv = kv]) (auto simp: tx_invD intro: answers_unchanged)

lemma answers_get_schedule:
  assumes "begun E kv t0" "queue_contract E kv" "tx_inv E kv t0 t"
    and "wp (f (schedule_in E (view kv t) i)) (answers E kv t0 Q) t"
  shows "wp (bnd (get_schedule E i) f) (answers E kv t0 Q) t"
  using assms
  by (intro wp_bnd wp_get_schedule [where kv = kv]) (auto simp: tx_invD intro: answers_unchanged)

section \<open>Ends of a request\<close>

lemma answers_committed:
  assumes "begun E kv t0" "tx_inv E kv t0 t" "committed kv t r t'"
    and "\<And>x. r = Inr x \<Longrightarrow> Q x (view kv t)" "Q y (view kv t)"
  shows "answers E kv t0 Q r t'"
proof -
  have base: "kv (queue t) = kv (queue t0)"
    using tx_invD(3) [OF assms(2)] by (simp add: same_base_def)
  have "kv (queue t') = view kv t \<or> kv (queue t') = kv (queue t0) \<and> (\<exists>e. r = Inl e)"
    using assms(3) base by (simp add: committed_def)
  moreover have "good E (view kv t)"
    "protocol_steps (abs_store E (kv (queue t0))) (abs_store E (view kv t))"
    using assms(2) begun_view [OF assms(1)] by (simp_all add: tx_inv_def)
  ultimately show ?thesis
    using assms(1,3,4,5) by (auto simp: answers_def begun_def committed_def split: sum.split)
qed

lemma answers_commit:
  assumes "begun E kv t0" "queue_contract E kv" "tx_inv E kv t0 t" "Q () (view kv t)"
  shows "wp (commit E) (answers E kv t0 Q) t"
  by (rule wp_mono [OF wp_commit [OF assms(2)]], rule answers_committed [OF assms(1,3)])
    (use assms(4) in simp_all)

lemma answers_after_commit:
  assumes "begun E kv t0" "queue_contract E kv" "tx_inv E kv t0 t" "Q x (view kv t)"
  shows "wp (andthen (commit E) (ret x)) (answers E kv t0 Q) t"
proof (rule wp_andthenI [OF answers_commit [where Q = "\<lambda>_ W. Q x W"]])
  show "answers E kv t0 Q (Inl e) t'" if "answers E kv t0 (\<lambda>_ W. Q x W) (Inl e) t'" for e t'
    using that by (auto simp: answers_def)
  show "wp (ret x) (answers E kv t0 Q) t'" if "answers E kv t0 (\<lambda>_ W. Q x W) (Inr u) t'" for u t'
    using that by (simp add: answers_def)
qed (use assms in auto)

lemma answers_finished:
  "begun E kv t0 \<Longrightarrow> queue_contract E kv \<Longrightarrow> tx_inv E kv t0 t \<Longrightarrow> Q reply (view kv t) \<Longrightarrow>
   wp (finished E reply) (answers E kv t0 Q) t"
  unfolding finished_def by (rule answers_after_commit)

text \<open>
  Properties of a transaction that buffering does not change: not the writes, enqueues and
  releases of the kernel's state machine, nor the job ids it draws from the queue.  The state
  machine keeps them; this is proved once, for the two such properties the proofs need.
\<close>

definition keeping :: "('q txn \<Rightarrow> bool) \<Rightarrow> ('q txn, 'a) tx \<Rightarrow> bool" where
  "keeping I m \<longleftrightarrow> (\<forall>t. I t \<longrightarrow> I (snd (m t)))"

lemma keeps_kept:
  assumes "keeping I m" "I t" "wp m (keeps E kv t0 P) t"
  shows "wp m (keeps E kv t0 (\<lambda>x t'. I t' \<and> P x t')) t"
  using assms by (auto simp: wp_def keeping_def keeps_def split: prod.splits sum.splits dest!: spec [where x = t])

locale buffered_property =
  fixes E :: "('q, 'x) env_scheme" and I :: "'q txn \<Rightarrow> bool"
  assumes on_write: "I t \<Longrightarrow> I (t\<lparr>writes := ws\<rparr>)"
    and on_enqueue: "I t \<Longrightarrow> I (t\<lparr>enqueues := es\<rparr>)"
    and on_release: "I t \<Longrightarrow> I (t\<lparr>after := after t @ [Release i]\<rparr>)"
    and on_job_id: "I t \<Longrightarrow> q_next_job_id E (queue t) = (job, q') \<Longrightarrow> I (t\<lparr>queue := q'\<rparr>)"
begin

lemma kept_ret: "keeping I (ret x)" "keeping I (fail e)" "keeping I (asks h)" "keeping I (reads f)"
  by (simp_all add: keeping_def run_ret run_fail)

lemma kept_modify: "(\<And>t. I t \<Longrightarrow> I (g t)) \<Longrightarrow> keeping I (modify g)"
  by (simp add: keeping_def)

lemma kept_bnd: "keeping I m \<Longrightarrow> (\<And>x. keeping I (f x)) \<Longrightarrow> keeping I (bnd m f)"
  unfolding keeping_def run_bnd by (metis (mono_tags, lifting) case_prod_beta old.sum.simps(5,6) snd_conv sum.exhaust)

lemma kept_andthen: "keeping I m \<Longrightarrow> keeping I n \<Longrightarrow> keeping I (andthen m n)"
  unfolding andthen_def by (rule kept_bnd)

lemma kept_for_each: "(\<And>x. keeping I (f x)) \<Longrightarrow> keeping I (for_each f xs)"
  by (induction xs) (auto intro: kept_ret kept_andthen)

lemma kept_expect: "keeping I (expect msg x)"
  by (simp add: expect_def kept_ret split: option.split)

lemma kept_if: "(b \<Longrightarrow> keeping I m) \<Longrightarrow> (\<not> b \<Longrightarrow> keeping I n) \<Longrightarrow> keeping I (if b then m else n)"
  by simp

lemma kept_option:
  "keeping I m \<Longrightarrow> (\<And>y. keeping I (f y)) \<Longrightarrow> keeping I (case x of None \<Rightarrow> m | Some y \<Rightarrow> f y)"
  by (simp split: option.split)

lemma kept_task_state:
  "keeping I a \<Longrightarrow> keeping I b \<Longrightarrow> keeping I c \<Longrightarrow> keeping I d \<Longrightarrow> keeping I e \<Longrightarrow>
   keeping I (case st of TPending \<Rightarrow> a | TAcquired \<Rightarrow> b | TSuspended \<Rightarrow> c | THalted \<Rightarrow> d | TFulfilled \<Rightarrow> e)"
  by (simp split: task_state.split)

lemma kept_put: "keeping I (put_task k)" "keeping I (put_promise p)" "keeping I (enqueue r)"
  "keeping I (release i)"
  unfolding put_task_def put_promise_def enqueue_def release_def add_after_def put_json_def
  by (rule kept_modify; simp add: on_write on_enqueue on_release)+

lemma kept_get: "keeping I (get_promise E i)" "keeping I (get_task E i)" "keeping I (get_schedule E i)"
  by (simp_all add: get_promise_def get_task_def get_schedule_def kept_ret)

lemma kept_dispatch: "keeping I (dispatch E k at)"
proof -
  have "keeping I (\<lambda>t. case q_next_job_id E (queue t) of (job, q') \<Rightarrow> (Inr job :: error + string, t\<lparr>queue := q'\<rparr>))"
    by (auto simp: keeping_def on_job_id split: prod.split)
  then show ?thesis
    unfolding dispatch_def Let_def
    by (intro kept_bnd kept_andthen kept_put kept_ret)
qed

lemmas kept_rules = kept_ret kept_bnd kept_andthen kept_for_each kept_expect
  kept_if kept_option kept_task_state kept_put kept_get kept_dispatch

lemma kept_resume_awaiter: "keeping I (resume_awaiter E i j w)"
  unfolding resume_awaiter_def by (intro kept_rules)

lemma kept_settle_chain: "keeping I (settle_chain E p)"
  unfolding settle_chain_def fulfil_own_task_def wake_awaiter_def send_unblock_def Let_def
  by (intro kept_rules kept_resume_awaiter)

lemma kept_try_timeout: "keeping I (try_timeout E ids)"
  unfolding try_timeout_def timeout_one_def expire_promise_def
  by (intro kept_rules kept_settle_chain)

lemma kept_settle: "keeping I (settle_pending E p st v)"
  unfolding settle_pending_def settle_def by (intro kept_rules kept_settle_chain)

lemma kept_register: "keeping I (register_callback p i)"
  unfolding register_callback_def Let_def by (intro kept_rules)

lemma kept_registers: "keeping I (for_each (\<lambda>p. bnd (register_callback p i) (\<lambda>_. ret ())) ps)"
  by (intro kept_rules kept_register)

end

text \<open>
  A transaction is quiet when no job is to be claimed after its commit: then the work after the
  commit never reports a lost claim, so a lost claim means that nothing was written.
\<close>

definition quiet :: "'q txn \<Rightarrow> bool" where
  "quiet t \<longleftrightarrow> (\<forall>i j l. ClaimJob i j l \<notin> set (after t))"

interpretation quiet: buffered_property E quiet for E :: "('q, 'x) env_scheme"
  by unfold_locales (simp_all add: quiet_def)

lemma quiet_begun: "begun E kv t \<Longrightarrow> quiet t"
  by (simp add: begun_def quiet_def)

lemma quiet_holds: "keeping quiet (holds E i)"
  by (auto simp: keeping_def holds_def drop_claim_def quiet_def split: option.split)

lemma finish_quiet:
  assumes "quiet t" "finish E t = (Inl e, t')"
  shows "e \<noteq> Storage ClaimLost"
proof -
  have "for_each (finish_one E) xs u = (Inl e, u') \<Longrightarrow> e \<noteq> Storage ClaimLost"
    if "\<forall>i j l. ClaimJob i j l \<notin> set xs" for xs u u'
    using that
  proof (induction xs arbitrary: u)
    case Nil
    then show ?case by (simp add: run_ret)
  next
    case (Cons a xs)
    then show ?case
      by (cases a) (auto simp: run_andthen run_bnd run_ret settle_claim_def take_held_def
          split: prod.splits sum.splits option.splits if_splits)
  qed
  with assms show ?thesis by (auto simp: finish_def quiet_def)
qed

text \<open>So a settlement whose claim is lost has left the store as it was.\<close>

lemma commit_ack_lost:
  assumes "queue_contract E kv" "quiet t" "commit_ack E i t = (Inl (Storage ClaimLost), t')"
  shows "kv (queue t') = kv (queue t)"
proof -
  have "finish E (drop_claim i (t\<lparr>writes := om_empty, enqueues := [], queue := q'\<rparr>))
      \<noteq> (Inl (Storage ClaimLost), t')" for q'
    using finish_quiet [of "drop_claim i (t\<lparr>writes := om_empty, enqueues := [], queue := q'\<rparr>)" E
        "Storage ClaimLost" t'] assms(2)
    by (auto simp: quiet_def drop_claim_def)
  moreover have "kv q' = kv (queue t)"
    if "q_ack_with E (queue t) c (effects_of t) = (Inl ClaimLost, q')" for c q'
    using contract_ack_with [OF assms(1) that] by simp
  ultimately show ?thesis
    using assms(3) unfolding run_commit_ack
    by (auto simp: drop_claim_def split: option.splits if_splits prod.splits sum.splits)
qed

text \<open>The answer of a request that ends in a settlement: a conflict that changed nothing, or
  the reply.\<close>

definition or_lost :: "store \<Rightarrow> (reply \<Rightarrow> store \<Rightarrow> bool) \<Rightarrow> reply \<Rightarrow> store \<Rightarrow> bool" where
  "or_lost V Q reply W \<longleftrightarrow> Q reply W \<or> reply = invalid_state \<and> W = V"

lemma answers_settlement:
  assumes "begun E kv t0" "queue_contract E kv" "tx_inv E kv t0 t" "quiet t" "Q reply (view kv t)"
  shows "wp (commit_settlement E i reply) (answers E kv t0 (or_lost (kv (queue t0)) Q)) t"
proof -
  obtain r t' where run: "commit_ack E i t = (r, t')" by (cases "commit_ack E i t")
  have c: "committed kv t r t'" using wpD [OF wp_commit_ack [OF assms(2)] run] .
  show ?thesis
  proof (cases "r = Inl (Storage ClaimLost)")
    case True
    have "kv (queue t') = kv (queue t0)"
      using commit_ack_lost [OF assms(2,4)] run True assms(3) by (simp add: tx_inv_def same_base_def)
    then have "answers E kv t0 (or_lost (kv (queue t0)) Q) (Inr invalid_state) t'"
      using assms(1) by (simp add: answers_def begun_def or_lost_def)
    with True run show ?thesis
      by (simp add: wp_def commit_settlement_def invalid_state_def)
  next
    case False
    have "answers E kv t0 (or_lost (kv (queue t0)) Q)
        (case r of Inl e \<Rightarrow> Inl e | Inr _ \<Rightarrow> Inr reply) t'"
      by (rule answers_committed [OF assms(1,3), where y = reply])
        (use c assms(5) in \<open>auto simp: committed_def or_lost_def split: sum.splits\<close>)
    with run False show ?thesis
      by (auto simp: wp_def commit_settlement_def split: sum.split)
  qed
qed

lemma answers_or_lost:
  "wp m (answers E kv t0 Q) t \<Longrightarrow> wp m (answers E kv t0 (or_lost V Q)) t"
  by (erule wp_answers_mono) (simp add: or_lost_def)

section \<open>Reads\<close>

lemma keeps_read:
  assumes "tx_inv E kv t0 t" "\<And>e. f t = Inl e \<Longrightarrow> \<exists>x. e = Storage x"
  shows "wp (reads f) (keeps E kv t0 (\<lambda>x t'. t' = t \<and> f t = Inr x)) t"
  using assms by (auto simp: keeps_def split: sum.split)

lemma load_records_spec:
  assumes "queue_contract E kv" "tx_inv E kv t0 t"
  shows "wp (load_records E ids)
    (keeps E kv t0 (\<lambda>x t'. t' = t \<and>
      x = map sp_record (List.map_filter (promise_in E (view kv t)) ids))) t"
proof (induction ids)
  case Nil
  then show ?case using assms(2) by (simp add: List.map_filter_simps)
next
  case (Cons i ids)
  show ?case
    unfolding load_records.simps
  proof (rule keeps_get_promise [OF assms], rule keeps_bnd [OF Cons.IH])
    fix x t'
    assume "tx_inv E kv t0 t'"
      "t' = t \<and> x = map sp_record (List.map_filter (promise_in E (view kv t)) ids)"
    then show "wp (ret (case promise_in E (view kv t) i of None \<Rightarrow> x | Some s \<Rightarrow> sp_record s # x))
      (keeps E kv t0 (\<lambda>x t'. t' = t \<and>
        x = map sp_record (List.map_filter (promise_in E (view kv t)) (i # ids)))) t'"
      by (auto simp: List.map_filter_simps split: option.split)
  qed
qed

lemma scan_branch_error: "scan_branch p own limit xs ids = Inl e \<Longrightarrow> \<exists>x. e = Storage x"
  by (induction p own limit xs ids rule: scan_branch.induct)
    (auto simp: Let_def split: option.splits if_splits)

lemma preload_spec:
  assumes "queue_contract E kv" "tx_inv E kv t0 t"
  shows "wp (preload E p) (keeps E kv t0 (\<lambda>x t'. t' = t)) t"
proof (cases "om_get (p_tags p) TAG_BRANCH")
  case None
  then show ?thesis using assms(2) by (simp add: preload_def)
next
  case (Some branch)
  have "wp (bnd (reads (preload_ids E branch (p_id p))) (load_records E))
      (keeps E kv t0 (\<lambda>x t'. t' = t)) t"
  proof (rule keeps_bnd [OF keeps_read [OF assms(2)]])
    show "\<exists>x. e = Storage x" if "preload_ids E branch (p_id p) t = Inl e" for e
      using that by (auto simp: preload_ids_def Let_def dest: scan_branch_error split: sum.splits)
    fix ids t' assume "tx_inv E kv t0 t'" "t' = t \<and> preload_ids E branch (p_id p) t = Inr ids"
    then show "wp (load_records E ids) (keeps E kv t0 (\<lambda>x t'. t' = t)) t'"
      using keeps_mono [OF load_records_spec [OF assms]] by auto
  qed
  with Some show ?thesis by (simp add: preload_def)
qed

text \<open>A task in a good store has a promise, so its view does not panic.\<close>

lemma task_view_spec:
  assumes "queue_contract E kv" "tx_inv E kv t0 t"
    and "task_in E (view kv t) i = Some k" "t_id k = i"
  shows "wp (task_view E k) (keeps E kv t0 (\<lambda>x t'. t' = t)) t"
  unfolding task_view_def
proof (rule keeps_get_promise [OF assms(1,2)])
  obtain p where p: "promise_in E (view kv t) (t_id k) = Some p"
    using good_task_promise [OF tx_invD(1) [OF assms(2)] assms(3)] assms(4) by metis
  have "wp (if t_state k = TFulfilled then ret [] else preload E (sp_record p))
      (keeps E kv t0 (\<lambda>x t'. t' = t)) t"
    using preload_spec [OF assms(1,2)] assms(2) by simp
  then show "wp (bnd (expect ''a task's promise exists'' (promise_in E (view kv t) (t_id k))) (\<lambda>promise.
      bnd (if t_state k = TFulfilled then ret [] else preload E (sp_record promise)) (\<lambda>records.
      ret (jobj [(''task'', enc_task_record (task_wire k)),
                 (''promise'', enc_promise (sp_record promise)),
                 (''preload'', enc_list enc_promise records)])))) (keeps E kv t0 (\<lambda>x t'. t' = t)) t"
    unfolding p expect_def option.case bnd_ret by (rule keeps_bnd) simp
qed

end
