(* ===== verification/Promise_Handlers.thy ===== *)
theory Promise_Handlers
  imports Answers
begin

text \<open>
  What the promise requests answer and leave behind.  Every specification speaks of the store
  \<open>D\<close> in which the deadlines of the promises the request names have been applied, so a reply
  never depends on a promise that is pending past its deadline.
\<close>

text \<open>The answer of a request evaluated after the deadlines of \<open>ids\<close>.\<close>

definition after_deadlines ::
  "('q, 'x) env_scheme \<Rightarrow> i64 \<Rightarrow> string set \<Rightarrow> store \<Rightarrow> (store \<Rightarrow> 'a \<Rightarrow> store \<Rightarrow> bool) \<Rightarrow>
   'a \<Rightarrow> store \<Rightarrow> bool" where
  "after_deadlines E time ids V R reply W \<longleftrightarrow>
     (\<exists>D. good E D \<and> deadlines E time ids V D \<and> R D reply W)"

lemma answers_deadlines:
  assumes b: "begun E kv t0" and c: "queue_contract E kv"
    and "\<And>t. tx_inv E kv t0 t \<Longrightarrow> deadlines E (now t0) (set ids) (kv (queue t0)) (view kv t) \<Longrightarrow>
      wp m (answers E kv t0 (R (view kv t))) t"
  shows "wp (andthen (try_timeout E ids) m)
    (answers E kv t0 (after_deadlines E (now t0) (set ids) (kv (queue t0)) R)) t0"
proof (rule answers_andthen [OF b try_timeout_spec [OF c begun_inv [OF b]]])
  fix x t assume t: "tx_inv E kv t0 t"
    "deadlines E (now t0) (set ids) (view kv t0) (view kv t)"
  with b have d: "deadlines E (now t0) (set ids) (kv (queue t0)) (view kv t)"
    by (simp add: begun_view)
  show "wp m (answers E kv t0 (after_deadlines E (now t0) (set ids) (kv (queue t0)) R)) t"
    by (rule wp_answers_mono [OF assms(3) [OF t(1) d]])
      (use d tx_invD(1) [OF t(1)] in \<open>auto simp: after_deadlines_def\<close>)
qed

lemmas answers_deadlines_two = answers_deadlines [where ids = "[i, j]" for i j, simplified]
lemmas answers_deadline = answers_deadlines [where ids = "[i]" for i, simplified]

section \<open>Reading a promise\<close>

definition got_promise :: "('q, 'x) env_scheme \<Rightarrow> string \<Rightarrow> store \<Rightarrow> reply \<Rightarrow> store \<Rightarrow> bool" where
  "got_promise E i D reply W \<longleftrightarrow> W = D \<and> reply = (case promise_in E D i of
     Some p \<Rightarrow> promise_reply (sp_record p) | None \<Rightarrow> err 404 ''Promise not found'')"

lemma promise_get_spec:
  assumes b: "begun E kv t" and c: "queue_contract E kv"
  shows "wp (promise_get E i)
    (answers E kv t (after_deadlines E (now t) {i} (kv (queue t)) (got_promise E i))) t"
  unfolding promise_get_def
  by (rule answers_deadline [OF b c])
    (auto simp: got_promise_def intro!: answers_get_promise [OF b c] answers_finished [OF b c])

section \<open>Creating a promise\<close>

definition created_or_found ::
  "('q, 'x) env_scheme \<Rightarrow> i64 \<Rightarrow> promise_create_data \<Rightarrow> store \<Rightarrow> reply \<Rightarrow> store \<Rightarrow> bool" where
  "created_or_found E time data D reply W \<longleftrightarrow> (case promise_in E D (pc_id data) of
     Some p \<Rightarrow> W = D \<and> reply = promise_reply (sp_record p)
   | None \<Rightarrow> reply = promise_reply (created_record time data None)
       \<and> created_store E Dispatch (created_record time data None) D W)"

lemma promise_create_spec:
  assumes b: "begun E kv t" and c: "queue_contract E kv" and v: "validate_create E data = None"
  shows "wp (promise_create E data) (answers E kv t
    (after_deadlines E (now t) {pc_id data} (kv (queue t)) (created_or_found E (now t) data))) t"
proof -
  have "wp (bnd (get_promise E (pc_id data)) (\<lambda>found. case found of
       Some existing \<Rightarrow> finished E (promise_reply (sp_record existing))
     | None \<Rightarrow>
         bnd (create_promise E data None Dispatch) (\<lambda>promise.
         finished E (promise_reply (sp_record promise)))))
     (answers E kv t (created_or_found E (now t) data (view kv u))) u"
    if u: "tx_inv E kv t u" for u
  proof (rule answers_get_promise [OF b c u])
    show "wp (case promise_in E (view kv u) (pc_id data) of
       Some existing \<Rightarrow> finished E (promise_reply (sp_record existing))
     | None \<Rightarrow>
         bnd (create_promise E data None Dispatch) (\<lambda>promise.
         finished E (promise_reply (sp_record promise))))
     (answers E kv t (created_or_found E (now t) data (view kv u))) u"
    proof (cases "promise_in E (view kv u) (pc_id data)")
      case None
      then show ?thesis
        by (simp, intro answers_bnd [OF b create_promise_spec [OF c u]])
          (auto simp: created_or_found_def intro!: answers_finished [OF b c])
    next
      case (Some p)
      then show ?thesis
        using u by (auto simp: created_or_found_def intro!: answers_finished [OF b c])
    qed
  qed
  then show ?thesis
    using answers_deadlines [OF b c, of "[pc_id data]" _ "created_or_found E (now t) data"]
    by (simp add: promise_create_def reject_def v)
qed

lemma promise_create_rejected:
  "validate_create E data = Some r \<Longrightarrow> promise_create E data t = (Inr r, t)"
  by (simp add: promise_create_def reject_def run_ret)

section \<open>Settling a promise\<close>

text \<open>The outcome of a settlement: of a promise that is pending, or already settled.\<close>

definition settled_or_kept ::
  "('q, 'x) env_scheme \<Rightarrow> i64 \<Rightarrow> settle_state \<Rightarrow> promise_value \<Rightarrow> string \<Rightarrow> stored_promise \<Rightarrow> store \<Rightarrow>
   promise_record \<Rightarrow> store \<Rightarrow> bool" where
  "settled_or_kept E time st v i p D r W \<longleftrightarrow>
     (if is_pending (sp_record p)
      then r = settled_record time st v (sp_record p) \<and> settled_store E time i p r D W
      else r = sp_record p \<and> W = D)"

lemma settle_pending_spec:
  assumes c: "queue_contract E kv" and inv: "tx_inv E kv t0 t"
    and d: "deadlines E (now t0) ids V (view kv t)" "i \<in> ids"
    and p: "promise_in E (view kv t) i = Some p"
  shows "wp (settle_pending E p st v) (keeps E kv t0 (\<lambda>p' t'.
    settled_or_kept E (now t0) st v i p (view kv t) (sp_record p') (view kv t'))) t"
proof (cases "is_pending (sp_record p)")
  case True
  then show ?thesis
    using keeps_mono [OF settle_spec [OF c inv p True deadlines_live(1) [OF d p True]]]
    by (simp add: settle_pending_def settled_or_kept_def)
next
  case False
  with inv show ?thesis
    by (simp add: settle_pending_def settled_or_kept_def)
qed

definition settled_promise ::
  "('q, 'x) env_scheme \<Rightarrow> i64 \<Rightarrow> promise_settle_data \<Rightarrow> store \<Rightarrow> reply \<Rightarrow> store \<Rightarrow> bool" where
  "settled_promise E time data D reply W \<longleftrightarrow> (case promise_in E D (ps_id data) of
     None \<Rightarrow> W = D \<and> reply = err 404 ''Promise not found''
   | Some p \<Rightarrow> \<exists>r. reply = promise_reply r
       \<and> settled_or_kept E time (ps_state data) (ps_value data) (ps_id data) p D r W)"

lemma promise_settle_spec:
  assumes b: "begun E kv t" and c: "queue_contract E kv"
  shows "wp (promise_settle E data) (answers E kv t
    (after_deadlines E (now t) {ps_id data} (kv (queue t)) (settled_promise E (now t) data))) t"
proof -
  have "wp (bnd (get_promise E (ps_id data)) (\<lambda>found. case found of
       None \<Rightarrow> finished E (err 404 ''Promise not found'')
     | Some promise \<Rightarrow>
         bnd (settle_pending E promise (ps_state data) (ps_value data)) (\<lambda>promise'.
         finished E (promise_reply (sp_record promise')))))
     (answers E kv t (settled_promise E (now t) data (view kv u))) u"
    if u: "tx_inv E kv t u" and d: "deadlines E (now t) {ps_id data} (kv (queue t)) (view kv u)" for u
  proof (rule answers_get_promise [OF b c u])
    show "wp (case promise_in E (view kv u) (ps_id data) of
       None \<Rightarrow> finished E (err 404 ''Promise not found'')
     | Some promise \<Rightarrow>
         bnd (settle_pending E promise (ps_state data) (ps_value data)) (\<lambda>promise'.
         finished E (promise_reply (sp_record promise'))))
     (answers E kv t (settled_promise E (now t) data (view kv u))) u"
    proof (cases "promise_in E (view kv u) (ps_id data)")
      case None
      then show ?thesis
        using u by (auto simp: settled_promise_def intro!: answers_finished [OF b c])
    next
      case (Some p)
      then show ?thesis
        by (simp, intro answers_bnd [OF b settle_pending_spec [OF c u d]])
          (auto simp: settled_promise_def intro!: answers_finished [OF b c])
    qed
  qed
  then show ?thesis
    unfolding promise_settle_def
    using answers_deadlines [OF b c, of "[ps_id data]" _ "settled_promise E (now t) data"] by simp
qed

section \<open>Registrations\<close>

text \<open>A registration adds the awaiter or the address once, and changes no other record.\<close>

definition with_callback :: "stored_promise \<Rightarrow> string \<Rightarrow> stored_promise" where
  "with_callback p j =
     (if j \<in> set (sp_callbacks p) then p else p\<lparr>sp_callbacks := sp_callbacks p @ [j]\<rparr>)"

definition with_listener :: "stored_promise \<Rightarrow> string \<Rightarrow> stored_promise" where
  "with_listener p a =
     (if a \<in> set (sp_listeners p) then p else p\<lparr>sp_listeners := sp_listeners p @ [a]\<rparr>)"

definition only_promise ::
  "('q, 'x) env_scheme \<Rightarrow> string \<Rightarrow> stored_promise \<Rightarrow> store \<Rightarrow> store \<Rightarrow> bool" where
  "only_promise E i p V W \<longleftrightarrow> promise_in E W = (promise_in E V)(i \<mapsto> p)
     \<and> task_in E W = task_in E V \<and> schedule_in E W = schedule_in E V"

lemma only_promise_refl: "promise_in E V i = Some p \<Longrightarrow> only_promise E i p V V"
  by (auto simp: only_promise_def)

lemma with_registration_simps [simp]:
  "sp_record (with_callback p j) = sp_record p" "sp_listeners (with_callback p j) = sp_listeners p"
  "sp_record (with_listener p a) = sp_record p" "sp_callbacks (with_listener p a) = sp_callbacks p"
  "set (sp_callbacks (with_callback p j)) = insert j (set (sp_callbacks p))"
  "set (sp_listeners (with_listener p a)) = insert a (set (sp_listeners p))"
  by (auto simp: with_callback_def with_listener_def)

lemma keeps_put_registrations:
  assumes inv: "tx_inv E kv t0 t" and p: "promise_in E (view kv t) i = Some p"
    and p': "promise_ok i p'" "sp_record p' = sp_record p"
      "\<forall>c \<in> set (sp_callbacks p'). task_in E (view kv t) c \<noteq> None"
  shows "wp (put_promise p') (keeps E kv t0 (\<lambda>_ t'. only_promise E i p' (view kv t) (view kv t'))) t"
proof (rule wp_put_promise [where kv = kv])
  fix t' assume t': "same_base kv t t'" "view kv t' = put_p p' (view kv t)"
  note g = put_registrations_good [OF tx_invD(1) [OF inv] p p']
  have "p_id (sp_record p') = i" using p'(1) by (simp add: promise_ok_def)
  then have "only_promise E i p' (view kv t) (view kv t')"
    by (simp add: t'(2) only_promise_def promise_in_put_p)
  moreover have "tx_inv E kv t0 t'"
    by (rule tx_inv_step [OF inv t'(1)]) (simp_all add: t'(2) g)
  ultimately show "keeps E kv t0 (\<lambda>_ t'. only_promise E i p' (view kv t) (view kv t')) (Inr ()) t'"
    by simp
qed

lemma register_callback_spec:
  assumes inv: "tx_inv E kv t0 t" and p: "promise_in E (view kv t) i = Some p"
    and ok: "is_pending (sp_record p)" "is_external (sp_record p)" "j \<noteq> i"
    and j: "task_in E (view kv t) j \<noteq> None"
  shows "wp (register_callback p j) (keeps E kv t0 (\<lambda>p' t'. p' = with_callback p j \<and>
    only_promise E i (with_callback p j) (view kv t) (view kv t'))) t"
proof (cases "j \<in> set (sp_callbacks p)")
  case True
  then show ?thesis
    using inv only_promise_refl [OF p] by (simp add: register_callback_def with_callback_def)
next
  case False
  have good: "good E (view kv t)" using inv by (rule tx_invD)
  let ?p = "p\<lparr>sp_callbacks := sp_callbacks p @ [j]\<rparr>"
  have "promise_ok i ?p"
    using goodD(2) [OF good p] ok False by (simp add: promise_ok_def)
  moreover have "\<forall>c \<in> set (sp_callbacks ?p). task_in E (view kv t) c \<noteq> None"
    using goodD(5) [OF good p] j by auto
  ultimately have "wp (put_promise ?p)
      (keeps E kv t0 (\<lambda>_ t'. only_promise E i ?p (view kv t) (view kv t'))) t"
    by (intro keeps_put_registrations [OF inv p]) simp_all
  then have "wp (andthen (put_promise ?p) (ret ?p)) (keeps E kv t0 (\<lambda>p' t'. p' = ?p \<and>
      only_promise E i ?p (view kv t) (view kv t'))) t"
    by (rule keeps_andthen) simp
  with False show ?thesis
    by (simp add: register_callback_def with_callback_def Let_def)
qed

text \<open>The answer to a registration of an awaiter, whatever its reply.\<close>

definition callback_registered ::
  "('q, 'x) env_scheme \<Rightarrow> callback_data \<Rightarrow> store \<Rightarrow> reply \<Rightarrow> store \<Rightarrow> bool" where
  "callback_registered E data D reply W \<longleftrightarrow>
     (case promise_in E D (cb_awaited data) of
        None \<Rightarrow> W = D \<and> reply = err 404 ''Awaited promise not found''
      | Some p \<Rightarrow> (case promise_in E D (cb_awaiter data) of
        None \<Rightarrow> W = D \<and> reply = err 422 ''Awaiter promise not found''
      | Some q \<Rightarrow>
          if target (sp_record q) = None then
            W = D \<and> reply = err 422 ''Awaiter promise has no resonate:target tag''
          else if \<not> is_external (sp_record p) then
            W = D \<and> reply = err 422 ''Awaited promise is not awaitable''
          else reply = promise_reply (sp_record p)
            \<and> (if \<not> is_pending (sp_record q) then W = D
               else if is_pending (sp_record p) then
                 only_promise E (cb_awaited data) (with_callback p (cb_awaiter data)) D W
               else task_change E (cb_awaiter data) (resumed Registration (cb_awaited data)) D W)))"

lemma validate_callback_None:
  "validate_callback awaited awaiter = None \<longleftrightarrow>
     awaited \<noteq> [] \<and> awaiter \<noteq> [] \<and> awaited \<noteq> awaiter \<and> origin_of awaited = origin_of awaiter"
  by (auto simp: validate_callback_def)

lemma promise_register_callback_spec:
  assumes b: "begun E kv t" and c: "queue_contract E kv"
    and v: "validate_callback (cb_awaited data) (cb_awaiter data) = None"
  shows "wp (promise_register_callback E data) (answers E kv t
    (after_deadlines E (now t) {cb_awaited data, cb_awaiter data} (kv (queue t))
      (callback_registered E data))) t"
proof -
  let ?i = "cb_awaited data" and ?j = "cb_awaiter data"
  have neq: "?j \<noteq> ?i" using v by (auto simp: validate_callback_None)
  have step: "wp (bnd (if is_pending (sp_record q) then
          (if is_pending (sp_record p) then register_callback p ?j
           else andthen (resume_awaiter E ?j ?i Registration) (ret p))
        else ret p) (\<lambda>p'. finished E (promise_reply (sp_record p'))))
      (answers E kv t (callback_registered E data (view kv u))) u"
    if u: "tx_inv E kv t u" and p: "promise_in E (view kv u) ?i = Some p"
      and q: "promise_in E (view kv u) ?j = Some q" "target (sp_record q) \<noteq> None"
      and e: "is_external (sp_record p)" for u p q
  proof (rule answers_bnd [OF b, where P = "\<lambda>p' u'. sp_record p' = sp_record p \<and>
      callback_registered E data (view kv u) (promise_reply (sp_record p)) (view kv u')"])
    have j: "task_in E (view kv u) ?j \<noteq> None"
      using good_target_task [OF tx_invD(1) [OF u] q] by auto
    obtain tgt where tgt: "target (sp_record q) = Some tgt" using q(2) by blast
    show "wp (if is_pending (sp_record q) then
          (if is_pending (sp_record p) then register_callback p ?j
           else andthen (resume_awaiter E ?j ?i Registration) (ret p))
        else ret p) (keeps E kv t (\<lambda>p' u'. sp_record p' = sp_record p \<and>
          callback_registered E data (view kv u) (promise_reply (sp_record p)) (view kv u'))) u"
    proof (cases "is_pending (sp_record q)")
      case False
      with u p q(1) tgt e show ?thesis by (simp add: callback_registered_def)
    next
      case pending: True
      show ?thesis
      proof (cases "is_pending (sp_record p)")
        case True
        then show ?thesis
          using keeps_mono [OF register_callback_spec [OF u p True e neq j]] pending p q(1) tgt e
          by (simp add: callback_registered_def)
      next
        case False
        have "wp (andthen (resume_awaiter E ?j ?i Registration) (ret p))
          (keeps E kv t (\<lambda>p' u'. sp_record p' = sp_record p \<and>
            callback_registered E data (view kv u) (promise_reply (sp_record p)) (view kv u'))) u"
          by (rule keeps_andthen [OF resume_awaiter_spec [OF c u]])
            (use False pending p q(1) tgt e in \<open>simp add: callback_registered_def\<close>)
        with False pending show ?thesis by simp
      qed
    qed
  qed (auto intro!: answers_finished [OF b c])
  show ?thesis
    unfolding promise_register_callback_def reject_def v option.case
    by (rule answers_deadlines_two [OF b c], rule answers_get_promise [OF b c], assumption,
        rule wp_case_option, rule answers_finished [OF b c], assumption,
        simp add: callback_registered_def, rule answers_get_promise [OF b c], assumption,
        intro wp_case_option wp_if step)
      (auto simp: callback_registered_def intro!: answers_finished [OF b c])
qed

definition listener_registered ::
  "('q, 'x) env_scheme \<Rightarrow> listener_data \<Rightarrow> store \<Rightarrow> reply \<Rightarrow> store \<Rightarrow> bool" where
  "listener_registered E data D reply W \<longleftrightarrow>
     (case promise_in E D (li_awaited data) of
        None \<Rightarrow> W = D \<and> reply = err 404 ''Awaited promise not found''
      | Some p \<Rightarrow>
          if \<not> is_external (sp_record p) then
            W = D \<and> reply = err 422 ''Awaited promise is not awaitable''
          else reply = promise_reply (sp_record p)
            \<and> (if is_pending (sp_record p) then
                 only_promise E (li_awaited data) (with_listener p (li_address data)) D W
               else W = D))"

lemma promise_register_listener_spec:
  assumes b: "begun E kv t" and c: "queue_contract E kv" and v: "is_url E (li_address data)"
  shows "wp (promise_register_listener E data) (answers E kv t
    (after_deadlines E (now t) {li_awaited data} (kv (queue t)) (listener_registered E data))) t"
proof -
  let ?i = "li_awaited data" and ?a = "li_address data"
  have step: "wp (andthen (if is_pending (sp_record p) \<and> ?a \<notin> set (sp_listeners p)
          then put_promise (p\<lparr>sp_listeners := sp_listeners p @ [?a]\<rparr>) else ret ())
        (finished E (promise_reply (sp_record p))))
      (answers E kv t (listener_registered E data (view kv u))) u"
    if u: "tx_inv E kv t u" and p: "promise_in E (view kv u) ?i = Some p"
      and e: "is_external (sp_record p)" for u p
  proof (cases "is_pending (sp_record p) \<and> ?a \<notin> set (sp_listeners p)")
    case True
    let ?p = "p\<lparr>sp_listeners := sp_listeners p @ [?a]\<rparr>"
    have good: "good E (view kv u)" using u by (rule tx_invD)
    have "promise_ok ?i ?p"
      using goodD(2) [OF good p] e True by (simp add: promise_ok_def)
    then have "wp (put_promise ?p)
        (keeps E kv t (\<lambda>_ u'. only_promise E ?i ?p (view kv u) (view kv u'))) u"
      using goodD(5) [OF good p] by (intro keeps_put_registrations [OF u p]) simp_all
    then have "wp (andthen (put_promise ?p) (finished E (promise_reply (sp_record p))))
        (answers E kv t (listener_registered E data (view kv u))) u"
      by (rule answers_andthen [OF b]) (use True p e in
        \<open>auto simp: listener_registered_def with_listener_def intro!: answers_finished [OF b c]\<close>)
    with True show ?thesis by simp
  next
    case False
    then have "listener_registered E data (view kv u) (promise_reply (sp_record p)) (view kv u)"
      using p e only_promise_refl [OF p] by (auto simp: listener_registered_def with_listener_def)
    then have "wp (andthen (ret ()) (finished E (promise_reply (sp_record p))))
        (answers E kv t (listener_registered E data (view kv u))) u"
      by (intro answers_andthen [OF b, where P = "\<lambda>_ u'. u' = u"])
        (auto simp: u intro!: answers_finished [OF b c])
    with False show ?thesis by (simp only: if_False)
  qed
  show ?thesis
    unfolding promise_register_listener_def
    by (simp only: v not_True_eq_False if_False, rule answers_deadline [OF b c],
        rule answers_get_promise [OF b c], assumption, intro wp_case_option wp_if step)
      (auto simp: listener_registered_def intro!: answers_finished [OF b c])
qed

end
