(* ===== verification/Task_Handlers.thy ===== *)
theory Task_Handlers
  imports Promise_Handlers
begin

text \<open>
  What the task requests answer and leave behind: reading, acquisition, release, halt,
  continue, heartbeat, fulfilment, suspension, fences and creation.
\<close>

definition only_task ::
  "('q, 'x) env_scheme \<Rightarrow> string \<Rightarrow> stored_task \<Rightarrow> store \<Rightarrow> store \<Rightarrow> bool" where
  "only_task E i k V W \<longleftrightarrow> task_in E W = (task_in E V)(i \<mapsto> k)
     \<and> promise_in E W = promise_in E V \<and> schedule_in E W = schedule_in E V"

lemma only_task_put: "t_id k = i \<Longrightarrow> only_task E i k V (put_t k V)"
  by (auto simp: only_task_def)

lemma task_in_put_t: "task_in E (put_t k V) = (task_in E V)(t_id k \<mapsto> k)"
  by (auto simp: fun_eq_iff)

lemma only_task_again: "only_task E i k V W \<Longrightarrow> t_id k' = i \<Longrightarrow> only_task E i k' V (put_t k' W)"
  by (simp add: only_task_def task_in_put_t)

lemma keeps_only_task:
  assumes "tx_inv E kv t0 t" "task_in E (view kv t) i = Some k" "task_ok i k'" "task_write k k'"
  shows "wp (put_task k') (keeps E kv t0 (\<lambda>_ t'. only_task E i k' (view kv t) (view kv t'))) t"
  by (rule keeps_mono [OF keeps_put_task [OF assms]])
    (use assms(3) in \<open>auto simp: task_ok_def intro: only_task_put\<close>)

lemma answers_silent:
  assumes "begun E kv t0" "tx_inv E kv t0 t"
    and "\<And>Q'. (\<And>t'. same_base kv t t' \<Longrightarrow> view kv t' = view kv t \<Longrightarrow> Q' (Inr ()) t') \<Longrightarrow> wp m Q' t"
    and "\<And>t'. tx_inv E kv t0 t' \<Longrightarrow> view kv t' = view kv t \<Longrightarrow> wp n (answers E kv t0 Q) t'"
  shows "wp (andthen m n) (answers E kv t0 Q) t"
  by (rule answers_andthen [OF assms(1) keeps_silent [OF assms(2,3)]]) (use assms(4) in auto)

section \<open>Reading a task\<close>

definition got_task :: "('q, 'x) env_scheme \<Rightarrow> string \<Rightarrow> store \<Rightarrow> reply \<Rightarrow> store \<Rightarrow> bool" where
  "got_task E i D reply W \<longleftrightarrow> W = D \<and> reply = (case task_in E D i of
     Some k \<Rightarrow> ok (jobj [(''task'', enc_task_record (task_wire k))])
   | None \<Rightarrow> err 404 ''Task not found'')"

lemma task_get_spec:
  assumes b: "begun E kv t" and c: "queue_contract E kv"
  shows "wp (task_get E i)
    (answers E kv t (after_deadlines E (now t) {i} (kv (queue t)) (got_task E i))) t"
  unfolding task_get_def
  by (rule answers_deadline [OF b c])
    (auto simp: got_task_def intro!: answers_get_task [OF b c] answers_finished [OF b c])

section \<open>Acquiring a task\<close>

text \<open>
  A delivered task is acquired at the version the client names, or nothing changes: the last
  case is that of a claim that is not held or whose lease has ended.
\<close>

definition acquired_task ::
  "('q, 'x) env_scheme \<Rightarrow> task_acquire_data \<Rightarrow> store \<Rightarrow> reply \<Rightarrow> store \<Rightarrow> bool" where
  "acquired_task E data D reply W \<longleftrightarrow> (case task_in E D (ta_id data) of
     None \<Rightarrow> W = D \<and> reply = err 404 ''Task not found''
   | Some k \<Rightarrow>
       if t_state k \<noteq> TPending then W = D \<and> reply = err 409 ''Task is not pending''
       else if t_version k \<noteq> ta_version data then W = D \<and> reply = err 409 ''Version mismatch''
       else W = D \<and> reply = err 409 ''Task is not pending''
         \<or> only_task E (ta_id data) (acquired k (ta_pid data) (ta_ttl data)) D W
           \<and> (\<exists>v. reply = ok v))"

lemma task_in_id: "good E V \<Longrightarrow> task_in E V i = Some k \<Longrightarrow> t_id k = i"
  using goodD(3) [of E V i k] by (simp add: task_ok_def)

lemma answers_task_view:
  assumes "begun E kv t0" "queue_contract E kv" "tx_inv E kv t0 t"
    and "task_in E (view kv t) i = Some k" "\<And>v. Q (ok v) (view kv t)"
  shows "wp (bnd (task_view E k) (\<lambda>v. finished E (ok v))) (answers E kv t0 Q) t"
  by (rule answers_bnd [OF assms(1) task_view_spec [OF assms(2-4)]])
    (use assms task_in_id [OF tx_invD(1) [OF assms(3)] assms(4)] in \<open>auto intro!: answers_finished\<close>)

text \<open>The end of an acquisition, after the checks.\<close>

lemma acquire_answers:
  assumes b: "begun E kv t0" and c: "queue_contract E kv" and u: "tx_inv E kv t0 t"
    and k: "task_in E (view kv t) i = Some k" "t_state k = TPending"
    and Q: "Q refused (view kv t)"
      "\<And>v W. only_task E i (acquired k pid ttl) (view kv t) W \<Longrightarrow> Q (ok v) W"
  shows "wp (bnd (acquire E k pid ttl) (\<lambda>taken. case taken of
      None \<Rightarrow> finished E refused
    | Some k' \<Rightarrow> bnd (task_view E k') (\<lambda>v. finished E (ok v)))) (answers E kv t0 Q) t"
proof (rule answers_bnd [OF b acquire_spec [OF c u k]], rule wp_case_option)
  fix x t' k' assume t': "tx_inv E kv t0 t'" "x = Some k'"
    "case x of None \<Rightarrow> view kv t' = view kv t
      | Some k' \<Rightarrow> k' = acquired k pid ttl \<and> view kv t' = put_t k' (view kv t)"
  have i: "t_id k = i" using task_in_id [OF tx_invD(1) [OF u] k(1)] .
  show "wp (bnd (task_view E k') (\<lambda>v. finished E (ok v))) (answers E kv t0 Q) t'"
    by (rule answers_task_view [OF b c t'(1), of i]) (use t' i in \<open>auto intro!: Q(2) only_task_put\<close>)
qed (use Q(1) in \<open>auto intro!: answers_finished [OF b c]\<close>)

lemma task_acquire_spec:
  assumes b: "begun E kv t" and c: "queue_contract E kv"
  shows "wp (task_acquire E data)
    (answers E kv t (after_deadlines E (now t) {ta_id data} (kv (queue t)) (acquired_task E data))) t"
  unfolding task_acquire_def
  by (rule answers_deadline [OF b c], rule answers_get_task [OF b c], assumption,
      intro wp_case_option wp_if)
    (auto simp: acquired_task_def intro!: answers_finished [OF b c] acquire_answers [OF b c])

section \<open>Moves of a task\<close>

lemma moved_ok:
  assumes "task_ok i k" "t_state k \<in> {TAcquired, THalted}"
  shows "task_ok i (transition k TPending)" "task_write k (transition k TPending)"
  using assms by (auto simp: task_ok_def task_write_def task_moves_simps)

lemma halted_ok:
  assumes "task_ok i k" "t_state k \<in> {TPending, TAcquired, TSuspended}"
  shows "task_ok i (transition k THalted)" "task_write k (transition k THalted)"
  using assms by (auto simp: task_ok_def task_write_def task_moves_simps)

definition released_task ::
  "('q, 'x) env_scheme \<Rightarrow> task_version_data \<Rightarrow> store \<Rightarrow> reply \<Rightarrow> store \<Rightarrow> bool" where
  "released_task E data D reply W \<longleftrightarrow> (case task_in E D (tv_id data) of
     None \<Rightarrow> W = D \<and> reply = err 404 ''Task not found''
   | Some k \<Rightarrow>
       if \<not> is_acquired_at k (tv_version data) then W = D \<and> reply = invalid_state
       else only_task E (tv_id data) (transition k TPending) D W \<and> reply = empty_reply)"

lemma task_release_spec:
  assumes b: "begun E kv t" and c: "queue_contract E kv"
  shows "wp (task_release E data)
    (answers E kv t (after_deadlines E (now t) {tv_id data} (kv (queue t)) (released_task E data))) t"
proof -
  have step: "wp (andthen (put_task (transition k TPending)) (andthen (nack_after_commit (t_id k))
      (finished E empty_reply))) (answers E kv t (released_task E data (view kv u))) u"
    if u: "tx_inv E kv t u" and k: "task_in E (view kv u) (tv_id data) = Some k"
      "\<not> \<not> is_acquired_at k (tv_version data)" for u k
  proof (rule answers_andthen [OF b keeps_only_task [OF u k(1)]])
    show "task_ok (tv_id data) (transition k TPending)" "task_write k (transition k TPending)"
      using moved_ok goodD(3) [OF tx_invD(1) [OF u] k(1)] k(2) by (auto simp: is_acquired_at_def)
    fix x u' assume u': "tx_inv E kv t u'"
      "only_task E (tv_id data) (transition k TPending) (view kv u) (view kv u')"
    show "wp (andthen (nack_after_commit (t_id k)) (finished E empty_reply))
        (answers E kv t (released_task E data (view kv u))) u'"
      by (rule answers_silent [OF b u'(1) wp_nack_after])
        (use u' k in \<open>auto simp: released_task_def intro!: answers_finished [OF b c]\<close>)
  qed
  show ?thesis
    unfolding task_release_def
    by (rule answers_deadline [OF b c], rule answers_get_task [OF b c], assumption,
        intro wp_case_option wp_if step)
      (auto simp: released_task_def intro!: answers_finished [OF b c])
qed

definition halted_task ::
  "('q, 'x) env_scheme \<Rightarrow> string \<Rightarrow> store \<Rightarrow> reply \<Rightarrow> store \<Rightarrow> bool" where
  "halted_task E i D reply W \<longleftrightarrow> (case task_in E D i of
     None \<Rightarrow> W = D \<and> reply = err 404 ''Task not found''
   | Some k \<Rightarrow>
       if t_state k = TFulfilled then W = D \<and> reply = err 409 ''Task is fulfilled''
       else reply = empty_reply
         \<and> (if t_state k = THalted then W = D else only_task E i (transition k THalted) D W))"

lemma task_halt_spec:
  assumes b: "begun E kv t" and c: "queue_contract E kv"
  shows "wp (task_halt E i)
    (answers E kv t (after_deadlines E (now t) {i} (kv (queue t)) (halted_task E i))) t"
proof -
  have step: "wp (andthen (put_task (transition k THalted)) (andthen (release (t_id k))
      (finished E empty_reply))) (answers E kv t (halted_task E i (view kv u))) u"
    if u: "tx_inv E kv t u" and k: "task_in E (view kv u) i = Some k"
      "t_state k \<noteq> TFulfilled" "t_state k \<noteq> THalted" for u k
  proof (rule answers_andthen [OF b keeps_only_task [OF u k(1)]])
    show "task_ok i (transition k THalted)" "task_write k (transition k THalted)"
      using halted_ok goodD(3) [OF tx_invD(1) [OF u] k(1)] k(2,3) by (cases "t_state k"; auto)+
    fix x u' assume u': "tx_inv E kv t u'" "only_task E i (transition k THalted) (view kv u) (view kv u')"
    show "wp (andthen (release (t_id k)) (finished E empty_reply))
        (answers E kv t (halted_task E i (view kv u))) u'"
      by (rule answers_silent [OF b u'(1) wp_release])
        (use u' k in \<open>auto simp: halted_task_def intro!: answers_finished [OF b c]\<close>)
  qed
  show ?thesis
    unfolding task_halt_def
    by (rule answers_deadline [OF b c], rule answers_get_task [OF b c], assumption,
        intro wp_case_option wp_if step)
      (auto simp: halted_task_def intro!: answers_finished [OF b c])
qed

text \<open>A continued task is pending, with its job or with a new one.\<close>

definition continued_task ::
  "('q, 'x) env_scheme \<Rightarrow> string \<Rightarrow> store \<Rightarrow> reply \<Rightarrow> store \<Rightarrow> bool" where
  "continued_task E i D reply W \<longleftrightarrow> (case task_in E D i of
     None \<Rightarrow> W = D \<and> reply = err 404 ''Task not found''
   | Some k \<Rightarrow>
       if t_state k \<noteq> THalted then W = D \<and> reply = err 409 ''Task is not halted''
       else reply = empty_reply
         \<and> (\<exists>job. only_task E i ((transition k TPending)\<lparr>t_job := Some job\<rparr>) D W))"

lemma task_continue_spec:
  assumes b: "begun E kv t" and c: "queue_contract E kv"
  shows "wp (task_continue E i)
    (answers E kv t (after_deadlines E (now t) {i} (kv (queue t)) (continued_task E i))) t"
proof -
  have step: "wp (let k' = transition k TPending in
      andthen (put_task k') (
      bnd (case t_job k' of Some job \<Rightarrow> job_exists E job | None \<Rightarrow> ret False) (\<lambda>waiting.
      andthen (if \<not> waiting then bnd (dispatch E k' None) (\<lambda>_. ret ()) else ret ())
        (finished E empty_reply)))) (answers E kv t (continued_task E i (view kv u))) u"
    if u: "tx_inv E kv t u" and k: "task_in E (view kv u) i = Some k" "\<not> t_state k \<noteq> THalted" for u k
  proof -
    let ?k = "transition k TPending"
    have ok: "task_ok i k" using goodD(3) [OF tx_invD(1) [OF u] k(1)] .
    obtain job where job: "t_job k = Some job" using ok k(2) by (auto simp: task_ok_def)
    have same: "?k\<lparr>t_job := Some job\<rparr> = ?k" using job by (simp add: transition_def)
    have kept: "\<exists>j. only_task E i (?k\<lparr>t_job := Some j\<rparr>) V W" if "only_task E i ?k V W" for V W
      using that same by metis
    have again: "wp (andthen (if \<not> waiting then bnd (dispatch E ?k None) (\<lambda>_. ret ()) else ret ())
          (finished E empty_reply)) (answers E kv t (continued_task E i (view kv u))) w"
      if w: "tx_inv E kv t w" "only_task E i ?k (view kv u) (view kv w)" for waiting w
    proof (cases waiting)
      case True
      have "wp (andthen (ret ()) (finished E empty_reply))
          (answers E kv t (continued_task E i (view kv u))) w"
        by (rule answers_silent [OF b w(1)])
          (use w k kept in \<open>auto simp: continued_task_def intro!: answers_finished [OF b c]\<close>)
      with True show ?thesis by simp
    next
      case False
      have "task_in E (view kv w) i = Some ?k" using w(2) by (simp add: only_task_def)
      then have "wp (bnd (dispatch E ?k None) (\<lambda>_. ret ())) (keeps E kv t (\<lambda>_ t'.
          \<exists>job. view kv t' = put_t (?k\<lparr>t_job := Some job\<rparr>) (view kv w))) w"
        by (rule keeps_bnd [OF keeps_dispatch [OF c w(1)]])
          (use ok in \<open>auto simp: task_ok_def task_write_def\<close>)
      then have "wp (andthen (bnd (dispatch E ?k None) (\<lambda>_. ret ())) (finished E empty_reply))
          (answers E kv t (continued_task E i (view kv u))) w"
      proof (rule answers_andthen [OF b], elim exE, intro answers_finished [OF b c])
        fix t' j assume "view kv t' = put_t (?k\<lparr>t_job := Some j\<rparr>) (view kv w)"
        then have "only_task E i (?k\<lparr>t_job := Some j\<rparr>) (view kv u) (view kv t')"
          using only_task_again [OF w(2)] ok by (simp add: task_ok_def)
        then show "continued_task E i (view kv u) empty_reply (view kv t')"
          using k by (auto simp: continued_task_def)
      qed
      with False show ?thesis by simp
    qed
    show ?thesis
      unfolding Let_def
    proof (rule answers_andthen [OF b keeps_only_task [OF u k(1)]])
      show "task_ok i ?k" "task_write k ?k" using moved_ok ok k(2) by auto
      fix x w assume w: "tx_inv E kv t w" "only_task E i ?k (view kv u) (view kv w)"
      have "wp (job_exists E job) (keeps E kv t (\<lambda>x w'. w' = w)) w"
        by (rule wp_job_exists) (use w(1) in simp_all)
      then show "wp (bnd (case t_job ?k of Some job \<Rightarrow> job_exists E job | None \<Rightarrow> ret False) (\<lambda>waiting.
          andthen (if \<not> waiting then bnd (dispatch E ?k None) (\<lambda>_. ret ()) else ret ())
            (finished E empty_reply))) (answers E kv t (continued_task E i (view kv u))) w"
        unfolding transition_simps job option.case
        by (rule answers_bnd [OF b]) (use again w in auto)
    qed
  qed
  show ?thesis
    unfolding task_continue_def
    by (rule answers_deadline [OF b c], rule answers_get_task [OF b c], assumption,
        intro wp_case_option wp_if step)
      (auto simp: continued_task_def intro!: answers_finished [OF b c])
qed

section \<open>Heartbeats\<close>

text \<open>A heartbeat renews leases and changes no record, and it applies no deadline.\<close>

lemma heartbeat_one_spec:
  assumes c: "queue_contract E kv" and inv: "tx_inv E kv t0 t"
  shows "wp (heartbeat_one E pid entry) (keeps E kv t0 (\<lambda>_ t'. view kv t' = view kv t)) t"
proof -
  have renew: "wp (bnd (renew E i l) (\<lambda>_. ret ())) (keeps E kv t0 (\<lambda>_ t'. view kv t' = view kv t)) t"
    for i l
    by (intro wp_bnd wp_renew [OF c]) (use inv in \<open>auto intro: tx_inv_view\<close>)
  show ?thesis
    unfolding heartbeat_one_def
    by (rule keeps_get_task [OF c inv], intro wp_case_option wp_if renew) (use inv in simp_all)
qed

lemma task_heartbeat_spec:
  assumes b: "begun E kv t" and c: "queue_contract E kv"
  shows "wp (task_heartbeat E data)
    (answers E kv t (\<lambda>reply W. reply = empty_reply \<and> W = kv (queue t))) t"
proof -
  have loop: "wp (for_each (heartbeat_one E pid) xs) (keeps E kv t (\<lambda>_ t'. view kv t' = view kv u)) u"
    if "tx_inv E kv t u" for pid xs u
    using that
  proof (induction xs arbitrary: u)
    case Nil
    then show ?case by simp
  next
    case (Cons x xs)
    show ?case
      unfolding for_each.simps
      by (rule keeps_andthen [OF heartbeat_one_spec [OF c Cons.prems]])
        (use keeps_mono [OF Cons.IH] in auto)
  qed
  show ?thesis
    unfolding task_heartbeat_def
    by (rule answers_andthen [OF b loop [OF begun_inv [OF b]]])
      (auto simp: begun_view [OF b] intro!: answers_finished [OF b c])
qed

end
