(* ===== verification/Settlement_Handlers.thy ===== *)
theory Settlement_Handlers
  imports Task_Handlers
begin

text \<open>
  The task requests whose commit acknowledges the task's held claim: fulfilment and suspension.
  When the claim is lost the reply is a conflict and the store is as it was.
\<close>

lemma answers_deadlines_quiet:
  assumes b: "begun E kv t0" and c: "queue_contract E kv"
    and "\<And>t. tx_inv E kv t0 t \<Longrightarrow> quiet t \<Longrightarrow>
      deadlines E (now t0) (set ids) (kv (queue t0)) (view kv t) \<Longrightarrow>
      wp m (answers E kv t0 (or_lost (kv (queue t0)) (R (view kv t)))) t"
  shows "wp (andthen (try_timeout E ids) m) (answers E kv t0
    (or_lost (kv (queue t0)) (after_deadlines E (now t0) (set ids) (kv (queue t0)) R))) t0"
proof (rule answers_andthen [OF b keeps_kept [OF quiet.kept_try_timeout quiet_begun [OF b]
        try_timeout_spec [OF c begun_inv [OF b]]]])
  fix x t assume t: "tx_inv E kv t0 t"
    "quiet t \<and> deadlines E (now t0) (set ids) (view kv t0) (view kv t)"
  with b have d: "deadlines E (now t0) (set ids) (kv (queue t0)) (view kv t)"
    by (simp add: begun_view)
  show "wp m (answers E kv t0
      (or_lost (kv (queue t0)) (after_deadlines E (now t0) (set ids) (kv (queue t0)) R))) t"
    by (rule wp_answers_mono [OF assms(3) [OF t(1) _ d]])
      (use t d tx_invD(1) [OF t(1)] in \<open>auto simp: after_deadlines_def or_lost_def\<close>)
qed

lemmas answers_deadline_quiet = answers_deadlines_quiet [where ids = "[i]" for i, simplified]

lemma keeps_holds:
  assumes "tx_inv E kv t0 t" "quiet t"
  shows "wp (holds E i) (keeps E kv t0 (\<lambda>_ t'. quiet t' \<and> view kv t' = view kv t)) t"
proof (rule keeps_kept [OF quiet_holds assms(2)], rule wp_holds [where kv = kv])
  fix b t' assume "same_base kv t t'" "view kv t' = view kv t"
  then show "keeps E kv t0 (\<lambda>_ t'. view kv t' = view kv t) (Inr b) t'"
    using tx_inv_view [OF assms(1)] by simp
qed

lemma answers_finished_lost:
  "begun E kv t0 \<Longrightarrow> queue_contract E kv \<Longrightarrow> tx_inv E kv t0 t \<Longrightarrow> Q reply (view kv t) \<Longrightarrow>
   wp (finished E reply) (answers E kv t0 (or_lost V Q)) t"
  by (rule answers_or_lost [OF answers_finished])

section \<open>Fulfilment\<close>

definition fulfilled ::
  "('q, 'x) env_scheme \<Rightarrow> i64 \<Rightarrow> task_fulfill_data \<Rightarrow> store \<Rightarrow> reply \<Rightarrow> store \<Rightarrow> bool" where
  "fulfilled E time data D reply W \<longleftrightarrow>
     (let settling = ac_data (tf_action data) in case task_in E D (tf_id data) of
        None \<Rightarrow> W = D \<and> reply = err 404 ''Task not found''
      | Some k \<Rightarrow>
          W = D \<and> reply = invalid_state
          \<or> is_acquired_at k (tf_version data) \<and> (\<exists>p r. promise_in E D (tf_id data) = Some p
              \<and> is_pending (sp_record p)
              \<and> r = settled_record time (ps_state settling) (ps_value settling) (sp_record p)
              \<and> settled_store E time (tf_id data) p r D W \<and> reply = promise_reply r))"

lemma task_fulfill_spec:
  assumes b: "begun E kv t" and c: "queue_contract E kv"
    and v: "ac_kind (tf_action data) = ''promise.settle''" "ps_id (ac_data (tf_action data)) = tf_id data"
  shows "wp (task_fulfill E data) (answers E kv t (or_lost (kv (queue t))
    (after_deadlines E (now t) {tf_id data} (kv (queue t)) (fulfilled E (now t) data)))) t"
proof -
  let ?i = "tf_id data" and ?s = "ac_data (tf_action data)"
  have step: "wp (bnd (holds E (t_id k)) (\<lambda>held.
        if \<not> held then finished E invalid_state
        else
          bnd (settle_pending E p (ps_state ?s) (ps_value ?s)) (\<lambda>p'.
          commit_settlement E (t_id k) (promise_reply (sp_record p')))))
      (answers E kv t (or_lost (kv (queue t)) (fulfilled E (now t) data (view kv u)))) u"
    if u: "tx_inv E kv t u" "quiet u" and d: "deadlines E (now t) {?i} (kv (queue t)) (view kv u)"
      and k: "task_in E (view kv u) ?i = Some k" "is_acquired_at k (tf_version data)"
      and p: "promise_in E (view kv u) ?i = Some p" for u k p
  proof (rule answers_bnd [OF b keeps_holds [OF u]], rule wp_if)
    have pending: "is_pending (sp_record p)"
      using goodD(4) [OF tx_invD(1) [OF u(1)], of ?i] k p by (auto simp: is_acquired_at_def)
    fix held w assume w: "tx_inv E kv t w" "quiet w \<and> view kv w = view kv u"
    show "wp (finished E invalid_state)
        (answers E kv t (or_lost (kv (queue t)) (fulfilled E (now t) data (view kv u)))) w"
      by (rule answers_finished_lost [OF b c w(1)]) (use w k in \<open>simp add: fulfilled_def Let_def\<close>)
    have p': "promise_in E (view kv w) ?i = Some p" "deadlines E (now t) {?i} (kv (queue t)) (view kv w)"
      using p d w(2) by simp_all
    show "wp (bnd (settle_pending E p (ps_state ?s) (ps_value ?s)) (\<lambda>p'.
          commit_settlement E (t_id k) (promise_reply (sp_record p'))))
        (answers E kv t (or_lost (kv (queue t)) (fulfilled E (now t) data (view kv u)))) w"
      by (rule answers_bnd [OF b keeps_kept [OF quiet.kept_settle conjunct1 [OF w(2)]
              settle_pending_spec [OF c w(1) p'(2) _ p'(1)]]])
        (use w k p pending in \<open>auto simp: settled_or_kept_def fulfilled_def Let_def
          intro!: answers_settlement [OF b c]\<close>)
  qed
  have promise: "promise_in E (view kv u) ?i \<noteq> None"
    if "tx_inv E kv t u" "task_in E (view kv u) ?i = Some k" for u k
    using good_task_promise [OF tx_invD(1) [OF that(1)] that(2)] by auto
  show ?thesis
    unfolding task_fulfill_def Let_def
    by (simp only: v simp_thms if_False, rule answers_deadline_quiet [OF b c],
        rule answers_get_task [OF b c], assumption, intro wp_case_option wp_if step
          answers_get_promise [OF b c])
      (use promise in \<open>auto simp: fulfilled_def Let_def intro!: answers_finished_lost [OF b c]\<close>)
qed

section \<open>Suspension\<close>

lemma awaited_of_ids:
  "awaited_of i actions ids = Inr ids' \<Longrightarrow> ids' = ids @ map (\<lambda>a. cb_awaited (ac_data a)) actions"
  by (induction i actions ids rule: awaited_of.induct) (auto split: if_splits option.splits)

lemma awaited_of_distinct:
  "awaited_of i actions ids = Inr ids' \<Longrightarrow> distinct ids \<Longrightarrow> i \<notin> set ids \<Longrightarrow> distinct ids' \<and> i \<notin> set ids'"
  by (induction i actions ids rule: awaited_of.induct)
    (auto simp: validate_callback_def split: if_splits option.splits)

text \<open>The awaited promises, as \<open>load_awaited\<close> finds them.\<close>

fun awaitable ::
  "('q, 'x) env_scheme \<Rightarrow> store \<Rightarrow> string list \<Rightarrow> reply + stored_promise list" where
  "awaitable E V [] = Inr []"
| "awaitable E V (i # rest) = (case promise_in E V i of
     None \<Rightarrow> Inl (err 422 ''Awaited promise not found'')
   | Some p \<Rightarrow>
       if \<not> is_external (sp_record p) then Inl (err 422 ''Awaited promise is not awaitable'')
       else (case awaitable E V rest of Inl r \<Rightarrow> Inl r | Inr ps \<Rightarrow> Inr (p # ps)))"

lemma load_awaited_spec:
  assumes c: "queue_contract E kv" and inv: "tx_inv E kv t0 t"
  shows "wp (load_awaited E ids) (keeps E kv t0 (\<lambda>x t'. t' = t \<and> x = awaitable E (view kv t) ids)) t"
proof (induction ids)
  case Nil
  then show ?case using inv by simp
next
  case (Cons i ids)
  show ?case
    unfolding load_awaited.simps
    by (rule keeps_get_promise [OF c inv], intro wp_case_option wp_if keeps_bnd [OF Cons.IH])
      (use inv in \<open>auto split: sum.split\<close>)
qed

lemma awaitable_promises:
  "awaitable E V ids = Inr ps \<Longrightarrow>
   list_all2 (\<lambda>i p. promise_in E V i = Some p \<and> is_external (sp_record p)) ids ps"
  by (induction ids arbitrary: ps) (auto split: option.splits if_splits sum.splits)

text \<open>The awaiter is registered on each of the promises, and nothing else changes.\<close>

definition registered_on ::
  "('q, 'x) env_scheme \<Rightarrow> string \<Rightarrow> string set \<Rightarrow> store \<Rightarrow> store \<Rightarrow> bool" where
  "registered_on E i ids V W \<longleftrightarrow> task_in E W = task_in E V \<and> schedule_in E W = schedule_in E V
     \<and> (\<forall>j. promise_in E W j =
          map_option (\<lambda>p. if j \<in> ids then with_callback p i else p) (promise_in E V j))"

lemma register_all_spec:
  assumes "tx_inv E kv t0 t" "task_in E (view kv t) i \<noteq> None" "distinct ids" "i \<notin> set ids"
    and "list_all2 (\<lambda>j p. promise_in E (view kv t) j = Some p \<and> is_external (sp_record p)) ids ps"
    and "list_all (\<lambda>p. is_pending (sp_record p)) ps"
  shows "wp (for_each (\<lambda>p. bnd (register_callback p i) (\<lambda>_. ret ())) ps)
    (keeps E kv t0 (\<lambda>_ t'. registered_on E i (set ids) (view kv t) (view kv t'))) t"
  using assms
proof (induction ids arbitrary: ps t)
  case Nil
  then show ?case by (simp add: registered_on_def option.map_ident)
next
  case (Cons j ids)
  then obtain p qs where ps: "ps = p # qs" and p: "promise_in E (view kv t) j = Some p"
    "is_external (sp_record p)"
    and qs: "list_all2 (\<lambda>j p. promise_in E (view kv t) j = Some p \<and> is_external (sp_record p)) ids qs"
    by (auto simp: list_all2_Cons1)
  show ?case
    unfolding ps for_each.simps
  proof (rule keeps_andthen [where P = "\<lambda>_ t'. only_promise E j (with_callback p i) (view kv t) (view kv t')"])
    show "wp (bnd (register_callback p i) (\<lambda>_. ret ()))
        (keeps E kv t0 (\<lambda>_ t'. only_promise E j (with_callback p i) (view kv t) (view kv t'))) t"
      by (rule keeps_bnd [OF register_callback_spec [OF Cons.prems(1) p(1)]])
        (use Cons.prems p ps in auto)
    fix x t' assume t': "tx_inv E kv t0 t'" "only_promise E j (with_callback p i) (view kv t) (view kv t')"
    have "list_all2 (\<lambda>j p. promise_in E (view kv t') j = Some p \<and> is_external (sp_record p)) ids qs"
      using qs t'(2) Cons.prems(3) by (auto simp: list_all2_conv_all_nth only_promise_def)
    then have "wp (for_each (\<lambda>p. bnd (register_callback p i) (\<lambda>_. ret ())) qs)
        (keeps E kv t0 (\<lambda>_ u. registered_on E i (set ids) (view kv t') (view kv u))) t'"
      using t' Cons.prems ps by (intro Cons.IH) (auto simp: only_promise_def)
    then show "wp (for_each (\<lambda>p. bnd (register_callback p i) (\<lambda>_. ret ())) qs)
        (keeps E kv t0 (\<lambda>_ u. registered_on E i (set (j # ids)) (view kv t) (view kv u))) t'"
      by (rule keeps_mono)
        (use t'(2) p(1) Cons.prems(3) in \<open>auto simp: registered_on_def only_promise_def\<close>)
  qed
qed

text \<open>
  A task suspends on promises that are all pending, and is registered on each; when one of
  them is settled it stays acquired, with its recorded resumes cleared.
\<close>

definition suspended ::
  "('q, 'x) env_scheme \<Rightarrow> string \<Rightarrow> i64 \<Rightarrow> string list \<Rightarrow> store \<Rightarrow> reply \<Rightarrow> store \<Rightarrow> bool" where
  "suspended E i v ids D reply W \<longleftrightarrow> (case task_in E D i of
     None \<Rightarrow> W = D \<and> reply = err 404 ''Task not found''
   | Some k \<Rightarrow>
       W = D \<and> reply = err 409 ''Task is not acquired or version mismatch''
       \<or> is_acquired_at k v \<and> (case awaitable E D ids of
            Inl r \<Rightarrow> W = D \<and> reply = r
          | Inr ps \<Rightarrow>
              if \<exists>p \<in> set ps. \<not> is_pending (sp_record p) then
                only_task E i (k\<lparr>t_resumes := om_empty\<rparr>) D W
                \<and> (\<exists>records. reply = ROk 300 (jobj [(''preload'', preload_json records)]))
              else reply = empty_reply \<and> (\<exists>R. registered_on E i (set ids) D R
                \<and> only_task E i (transition (k\<lparr>t_resumes := om_empty\<rparr>) TSuspended) R W)))"

lemma suspend_on_spec:
  assumes b: "begun E kv t" and c: "queue_contract E kv" and u: "tx_inv E kv t u" "quiet u"
    and k: "task_in E (view kv u) i = Some k" "is_acquired_at k v"
    and ids: "awaitable E (view kv u) ids = Inr ps" "distinct ids" "i \<notin> set ids"
  shows "wp (suspend_on E i k ps)
    (answers E kv t (or_lost (kv (queue t)) (suspended E i v ids (view kv u)))) u"
proof -
  let ?k = "k\<lparr>t_resumes := om_empty\<rparr>"
  have ok: "task_ok i k" using goodD(3) [OF tx_invD(1) [OF u(1)] k(1)] .
  obtain own where own: "promise_in E (view kv u) i = Some own"
    using good_task_promise [OF tx_invD(1) [OF u(1)] k(1)] by metis
  show ?thesis
    unfolding suspend_on_def Let_def
  proof (rule wp_if)
    assume settled: "list_ex (\<lambda>p. \<not> is_pending (sp_record p)) ps"
    show "wp (andthen (put_task ?k) (bnd (get_promise E i) (\<lambda>found.
        bnd (expect ''a task's promise exists'' found) (\<lambda>own.
        bnd (preload E (sp_record own)) (\<lambda>records.
        finished E (ROk 300 (jobj [(''preload'', preload_json records)])))))))
      (answers E kv t (or_lost (kv (queue t)) (suspended E i v ids (view kv u)))) u"
    proof (rule answers_andthen [OF b keeps_only_task [OF u(1) k(1)]])
      show "task_ok i ?k" "task_write k ?k"
        using ok k(2) by (auto simp: task_ok_def task_write_def is_acquired_at_def)
      fix x w assume w: "tx_inv E kv t w" "only_task E i ?k (view kv u) (view kv w)"
      have own': "promise_in E (view kv w) i = Some own"
        using own w(2) by (simp add: only_task_def)
      show "wp (bnd (get_promise E i) (\<lambda>found.
          bnd (expect ''a task's promise exists'' found) (\<lambda>own.
          bnd (preload E (sp_record own)) (\<lambda>records.
          finished E (ROk 300 (jobj [(''preload'', preload_json records)]))))))
        (answers E kv t (or_lost (kv (queue t)) (suspended E i v ids (view kv u)))) w"
        by (rule answers_get_promise [OF b c w(1)],
            simp only: own' expect_def option.case bnd_ret,
            rule answers_bnd [OF b preload_spec [OF c w(1)]], rule answers_finished_lost [OF b c])
          (use w(2) k ids settled in \<open>auto simp: suspended_def list_ex_iff\<close>)
    qed
  next
    assume "\<not> list_ex (\<lambda>p. \<not> is_pending (sp_record p)) ps"
    then have pending: "list_all (\<lambda>p. is_pending (sp_record p)) ps"
      by (simp add: list_ex_iff list_all_iff)
    have loop: "wp (for_each (\<lambda>p. bnd (register_callback p i) (\<lambda>_. ret ())) ps)
        (keeps E kv t (\<lambda>_ w. quiet w \<and> registered_on E i (set ids) (view kv u) (view kv w))) u"
      by (rule keeps_kept [OF quiet.kept_registers u(2) register_all_spec [OF u(1) _ ids(2,3)
              awaitable_promises [OF ids(1)] pending]]) (use k in simp)
    show "wp (andthen (for_each (\<lambda>p. bnd (register_callback p i) (\<lambda>_. ret ())) ps)
        (andthen (put_task (transition ?k TSuspended)) (commit_settlement E i empty_reply)))
      (answers E kv t (or_lost (kv (queue t)) (suspended E i v ids (view kv u)))) u"
    proof (rule answers_andthen [OF b loop])
      fix x w assume w: "tx_inv E kv t w"
        "quiet w \<and> registered_on E i (set ids) (view kv u) (view kv w)"
      have kw: "task_in E (view kv w) i = Some k"
        using k(1) w(2) by (simp add: registered_on_def)
      have put: "wp (put_task (transition ?k TSuspended)) (keeps E kv t (\<lambda>_ z. quiet z \<and>
          only_task E i (transition ?k TSuspended) (view kv w) (view kv z))) w"
        by (rule keeps_kept [OF quiet.kept_put(1) conjunct1 [OF w(2)] keeps_only_task [OF w(1) kw]])
          (use ok k(2) in \<open>auto simp: task_ok_def task_write_def is_acquired_at_def task_moves_simps\<close>)
      show "wp (andthen (put_task (transition ?k TSuspended)) (commit_settlement E i empty_reply))
        (answers E kv t (or_lost (kv (queue t)) (suspended E i v ids (view kv u)))) w"
        by (rule answers_andthen [OF b put], rule answers_settlement [OF b c])
          (use w(2) k ids pending in \<open>auto simp: suspended_def list_all_iff\<close>)
    qed
  qed
qed

lemma task_suspend_spec:
  assumes b: "begun E kv t" and c: "queue_contract E kv"
    and v: "ts_actions data \<noteq> []" "awaited_of (ts_id data) (ts_actions data) [] = Inr ids"
  shows "wp (task_suspend E data) (answers E kv t (or_lost (kv (queue t))
    (after_deadlines E (now t) (insert (ts_id data) (set ids)) (kv (queue t))
      (suspended E (ts_id data) (ts_version data) ids)))) t"
proof -
  let ?i = "ts_id data" and ?R = "\<lambda>D. or_lost (kv (queue t)) (suspended E (ts_id data) (ts_version data) ids D)"
  have ids: "distinct ids" "?i \<notin> set ids" using awaited_of_distinct [OF v(2)] by simp_all
  have loaded: "wp (bnd (load_awaited E ids) (\<lambda>loaded. case loaded of
        Inl reply \<Rightarrow> finished E reply
      | Inr awaited \<Rightarrow> suspend_on E ?i k awaited)) (answers E kv t (?R (view kv u))) w"
    if w: "tx_inv E kv t w" "quiet w" "view kv w = view kv u"
      and k: "task_in E (view kv u) ?i = Some k" "is_acquired_at k (ts_version data)" for u w k
  proof (rule answers_bnd [OF b load_awaited_spec [OF c w(1)]])
    fix x z assume "tx_inv E kv t z" "z = w \<and> x = awaitable E (view kv w) ids"
    then show "wp (case x of Inl reply \<Rightarrow> finished E reply
      | Inr awaited \<Rightarrow> suspend_on E ?i k awaited) (answers E kv t (?R (view kv u))) z"
      using suspend_on_spec [OF b c w(1,2) k [folded w(3)] _ ids] w k
      by (auto simp: suspended_def intro!: answers_finished_lost [OF b c] split: sum.split)
  qed
  have step: "wp (bnd (if is_acquired_at k (ts_version data) then holds E (t_id k) else ret False)
      (\<lambda>held. if \<not> held then finished E (err 409 ''Task is not acquired or version mismatch'')
        else bnd (load_awaited E ids) (\<lambda>loaded. case loaded of
            Inl reply \<Rightarrow> finished E reply
          | Inr awaited \<Rightarrow> suspend_on E ?i k awaited))) (answers E kv t (?R (view kv u))) u"
    if u: "tx_inv E kv t u" "quiet u" and k: "task_in E (view kv u) ?i = Some k" for u k
  proof (cases "is_acquired_at k (ts_version data)")
    case True
    show ?thesis
      unfolding if_P [OF True]
      by (rule answers_bnd [OF b keeps_holds [OF u]], rule wp_if)
        (use k True loaded in \<open>auto simp: suspended_def intro!: answers_finished_lost [OF b c]\<close>)
  next
    case False
    then show ?thesis
      using u k by (auto simp: suspended_def intro!: answers_finished_lost [OF b c])
  qed
  have "wp (andthen (try_timeout E (?i # ids)) (bnd (get_task E ?i) (\<lambda>found. case found of
      None \<Rightarrow> finished E (err 404 ''Task not found'')
    | Some k \<Rightarrow> bnd (if is_acquired_at k (ts_version data) then holds E (t_id k) else ret False)
      (\<lambda>held. if \<not> held then finished E (err 409 ''Task is not acquired or version mismatch'')
        else bnd (load_awaited E ids) (\<lambda>loaded. case loaded of
            Inl reply \<Rightarrow> finished E reply
          | Inr awaited \<Rightarrow> suspend_on E ?i k awaited)))))
    (answers E kv t (or_lost (kv (queue t)) (after_deadlines E (now t) (set (?i # ids))
      (kv (queue t)) (suspended E ?i (ts_version data) ids)))) t"
    by (rule answers_deadlines_quiet [OF b c], rule answers_get_task [OF b c], assumption,
        intro wp_case_option step)
      (auto simp: suspended_def intro!: answers_finished_lost [OF b c])
  then show ?thesis
    using v by (simp add: task_suspend_def)
qed

end
