(* ===== verification/Creation_Handlers.thy ===== *)
theory Creation_Handlers
  imports Settlement_Handlers
begin

text \<open>
  \<open>task.create\<close>, which creates a promise with its task acquired or takes over a task that
  waits for delivery, and \<open>task.fence\<close>, which applies a promise request under a task's version.
\<close>

section \<open>Creating a task\<close>

definition task_created ::
  "('q, 'x) env_scheme \<Rightarrow> i64 \<Rightarrow> task_create_data \<Rightarrow> store \<Rightarrow> reply \<Rightarrow> store \<Rightarrow> bool" where
  "task_created E time data D reply W \<longleftrightarrow>
     (let create = ac_data (tc_action data); i = pc_id create in case task_in E D i of
        Some k \<Rightarrow>
          (if t_state k = TFulfilled then W = D \<and> (\<exists>v. reply = ok v)
           else W = D \<and> reply = already_exists
             \<or> t_state k = TPending \<and> only_task E i (acquired k (tc_pid data) (tc_ttl data)) D W
               \<and> (\<exists>v. reply = ok v))
      | None \<Rightarrow> (case promise_in E D i of
          Some p \<Rightarrow> W = D \<and> reply = err 422 ''The promise does not have a resonate:target tag''
        | None \<Rightarrow> (\<exists>v. reply = ok v)
            \<and> created_store E (Acquire (tc_pid data) (tc_ttl data)) (created_record time create None) D W))"

lemma claimable_spec:
  assumes c: "queue_contract E kv" and inv: "tx_inv E kv t0 t"
  shows "wp (claimable E k ttl) (keeps E kv t0 (\<lambda>_ t'. view kv t' = view kv t)) t"
  unfolding claimable_def
proof (rule wp_bnd, rule wp_holds [where kv = kv], simp only: sum.case, intro wp_if wp_case_option)
  fix b u assume u: "same_base kv t u" "view kv u = view kv t"
  have inv': "tx_inv E kv t0 u" by (rule tx_inv_view [OF inv u])
  then show "wp (ret True) (keeps E kv t0 (\<lambda>_ t'. view kv t' = view kv t)) u"
    "wp (ret False) (keeps E kv t0 (\<lambda>_ t'. view kv t' = view kv t)) u"
    using u by simp_all
  fix job
  show "wp (claim_job E (t_id k) job (lease_of ttl)) (keeps E kv t0 (\<lambda>_ t'. view kv t' = view kv t)) u"
    by (rule wp_claim_job [OF c]) (use u inv' tx_inv_view [OF inv'] in auto)
qed

lemma create_existing_spec:
  assumes b: "begun E kv t0" and c: "queue_contract E kv" and u: "tx_inv E kv t0 t"
    and k: "task_in E (view kv t) (pc_id (ac_data (tc_action data))) = Some k"
  shows "wp (create_existing E k (tc_pid data) (tc_ttl data))
    (answers E kv t0 (task_created E time data (view kv t))) t"
proof -
  let ?i = "pc_id (ac_data (tc_action data))"
  have pending: "wp (bnd (claimable E k (tc_ttl data)) (\<lambda>claimed.
       if \<not> claimed then finished E already_exists
       else bnd (acquire E k (tc_pid data) (tc_ttl data)) (\<lambda>taken. case taken of
           None \<Rightarrow> finished E already_exists
         | Some k' \<Rightarrow> bnd (task_view E k') (\<lambda>v. finished E (ok v)))))
      (answers E kv t0 (task_created E time data (view kv t))) t" if st: "t_state k = TPending"
  proof (rule answers_bnd [OF b claimable_spec [OF c u]], rule wp_if)
    fix claimed w assume w: "tx_inv E kv t0 w" "view kv w = view kv t"
    show "wp (finished E already_exists) (answers E kv t0 (task_created E time data (view kv t))) w"
      by (rule answers_finished [OF b c w(1)]) (use w k st in \<open>auto simp: task_created_def Let_def\<close>)
    show "wp (bnd (acquire E k (tc_pid data) (tc_ttl data)) (\<lambda>taken. case taken of
           None \<Rightarrow> finished E already_exists
         | Some k' \<Rightarrow> bnd (task_view E k') (\<lambda>v. finished E (ok v))))
      (answers E kv t0 (task_created E time data (view kv t))) w"
      by (rule acquire_answers [OF b c w(1), of ?i])
        (use w k st in \<open>auto simp: task_created_def Let_def\<close>)
  qed
  show ?thesis
  proof (cases "t_state k")
    case TFulfilled
    have "wp (bnd (task_view E k) (\<lambda>v. finished E (ok v)))
        (answers E kv t0 (task_created E time data (view kv t))) t"
      by (rule answers_task_view [OF b c u k]) (use k TFulfilled in \<open>auto simp: task_created_def Let_def\<close>)
    with TFulfilled show ?thesis by (simp add: create_existing_def)
  qed (use pending k u in \<open>auto simp: create_existing_def task_created_def Let_def
      intro!: answers_finished [OF b c]\<close>)
qed

lemma task_create_spec:
  assumes b: "begun E kv t" and c: "queue_contract E kv"
    and v: "ac_kind (tc_action data) = ''promise.create''" "tc_pid data \<noteq> []" "\<not> lt64 (tc_ttl data) 1"
      "validate_create E (ac_data (tc_action data)) = None"
      "om_get (pc_tags (ac_data (tc_action data))) TAG_TARGET = Some tgt"
      "om_get (pc_tags (ac_data (tc_action data))) TAG_DELAY = None"
  shows "wp (task_create E data) (answers E kv t
    (after_deadlines E (now t) {pc_id (ac_data (tc_action data))} (kv (queue t))
      (task_created E (now t) data))) t"
proof -
  let ?c = "ac_data (tc_action data)" and ?mode = "Acquire (tc_pid data) (tc_ttl data)"
  let ?r = "created_record (now t) ?c None"
  have fresh: "wp (bnd (create_promise E ?c None ?mode) (\<lambda>promise.
      bnd (get_task E (p_id (sp_record promise))) (\<lambda>found.
      bnd (expect ''a targeted promise has a task'' found) (\<lambda>task.
      bnd (task_view E task) (\<lambda>view. finished E (ok view))))))
    (answers E kv t (task_created E (now t) data (view kv u))) u"
    if u: "tx_inv E kv t u" and none: "task_in E (view kv u) (pc_id ?c) = None"
      "promise_in E (view kv u) (pc_id ?c) = None" for u
  proof (rule answers_bnd [OF b create_promise_spec [OF c u none(2)]])
    fix p w assume w: "tx_inv E kv t w"
      "p = bare ?r \<and> created_store E ?mode ?r (view kv u) (view kv w)"
    have "target ?r = Some tgt" using v(5) by (simp add: target_def)
    then obtain k where k: "task_in E (view kv w) (pc_id ?c) = Some k"
      using w(2) by (auto simp: created_store_def)
    have "wp (bnd (task_view E k) (\<lambda>view. finished E (ok view)))
        (answers E kv t (task_created E (now t) data (view kv u))) w"
      by (rule answers_task_view [OF b c w(1) k]) (use w none in \<open>auto simp: task_created_def Let_def\<close>)
    then show "wp (bnd (get_task E (p_id (sp_record p))) (\<lambda>found.
        bnd (expect ''a targeted promise has a task'' found) (\<lambda>task.
        bnd (task_view E task) (\<lambda>view. finished E (ok view)))))
      (answers E kv t (task_created E (now t) data (view kv u))) w"
      by (intro answers_get_task [OF b c w(1)]) (use w k in \<open>simp add: expect_def\<close>)
  qed
  have "wp (andthen (try_timeout E [pc_id ?c]) (
      bnd (get_task E (pc_id ?c)) (\<lambda>found. case found of
        Some task \<Rightarrow> create_existing E task (tc_pid data) (tc_ttl data)
      | None \<Rightarrow>
      bnd (get_promise E (pc_id ?c)) (\<lambda>existing. case existing of
        Some _ \<Rightarrow> finished E (err 422 ''The promise does not have a resonate:target tag'')
      | None \<Rightarrow>
          bnd (create_promise E ?c None ?mode) (\<lambda>promise.
          bnd (get_task E (p_id (sp_record promise))) (\<lambda>found.
          bnd (expect ''a targeted promise has a task'' found) (\<lambda>task.
          bnd (task_view E task) (\<lambda>view. finished E (ok view)))))))))
    (answers E kv t (after_deadlines E (now t) {pc_id ?c} (kv (queue t)) (task_created E (now t) data))) t"
    by (rule answers_deadline [OF b c], rule answers_get_task [OF b c], assumption,
        rule wp_case_option, rule answers_get_promise [OF b c], assumption, rule wp_case_option,
        rule fresh, assumption+, rule answers_finished [OF b c], assumption)
      (auto simp: task_created_def Let_def intro!: create_existing_spec [OF b c])
  then show ?thesis
    using v by (simp add: task_create_def Let_def reject_def)
qed

section \<open>Fences\<close>

definition fenced ::
  "('q, 'x) env_scheme \<Rightarrow> i64 \<Rightarrow> string \<Rightarrow> json \<Rightarrow> store \<Rightarrow> reply \<Rightarrow> store \<Rightarrow> bool" where
  "fenced E time kind j D inner W \<longleftrightarrow>
     kind = ''promise.create'' \<and> (\<exists>d. dec_promise_create j = Some d \<and> validate_create E d = None
       \<and> created_or_found E time d D inner W)
     \<or> kind = ''promise.settle'' \<and> (\<exists>d. dec_promise_settle j = Some d
       \<and> settled_promise E time d D inner W)"

lemma dec_settle_id:
  "dec_promise_settle j = Some d \<Longrightarrow> as_str (jget j ''id'') = Some i \<Longrightarrow> ps_id d = i"
  by (cases j) (auto simp: dec_promise_settle_def struct_fields_def jget_def as_str_def field_def
      dec_string_def split: option.splits json.splits Option.bind_splits if_splits)

lemma settled_store_dom:
  "settled_store E time i p r V W \<Longrightarrow> promise_in E V j \<noteq> None \<Longrightarrow> promise_in E W j \<noteq> None"
  by (auto simp: settled_store_def all_woken_def Let_def settle_store_def split: option.splits)

lemma created_or_found_dom:
  assumes "created_or_found E time d D inner W" "promise_in E D i \<noteq> None"
  shows "promise_in E W i \<noteq> None"
proof (cases "promise_in E D (pc_id d)")
  case None
  with assms show ?thesis by (simp add: created_or_found_def created_store_def)
next
  case (Some p)
  with assms show ?thesis by (simp add: created_or_found_def)
qed

lemma settled_promise_dom:
  assumes "settled_promise E time d D inner W" "promise_in E D i \<noteq> None"
  shows "promise_in E W i \<noteq> None"
proof (cases "promise_in E D (ps_id d)")
  case None
  with assms show ?thesis by (simp add: settled_promise_def)
next
  case (Some p)
  with assms show ?thesis
    using settled_store_dom [of E time "ps_id d" p _ D W i]
    by (cases "is_pending (sp_record p)") (auto simp: settled_promise_def settled_or_kept_def)
qed

lemma fenced_dom:
  assumes "fenced E time kind j D inner W" "promise_in E D i \<noteq> None"
  shows "promise_in E W i \<noteq> None"
  using assms created_or_found_dom settled_promise_dom unfolding fenced_def by metis

text \<open>The actions a fence accepts.\<close>

definition acceptable :: "('q, 'x) env_scheme \<Rightarrow> string \<Rightarrow> json \<Rightarrow> bool" where
  "acceptable E kind j \<longleftrightarrow>
     kind = ''promise.create'' \<and> (\<exists>d. dec_promise_create j = Some d \<and> validate_create E d = None)
     \<or> kind = ''promise.settle'' \<and> dec_promise_settle j \<noteq> None"

lemma fence_action_spec:
  assumes c: "queue_contract E kv" and u: "tx_inv E kv t0 t"
    and d: "deadlines E (now t0) ids V (view kv t)" "a \<in> ids" "as_str (jget j ''id'') = Some a"
  shows "wp (fence_action E kind j) (keeps E kv t0 (\<lambda>x t'. case x of
      Inl reply \<Rightarrow> status reply = 400 \<and> \<not> acceptable E kind j
    | Inr inner \<Rightarrow> fenced E (now t0) kind j (view kv t) inner (view kv t'))) t"
    (is "wp _ ?Q t")
proof -
  have create: "wp (fence_create E j) ?Q t" if kind: "kind = ''promise.create''"
  proof (cases "dec_promise_create j")
    case None
    with u kind show ?thesis by (simp add: fence_create_def invalid_action_def acceptable_def)
  next
    case (Some d)
    show ?thesis
    proof (cases "validate_create E d")
      case None
      have "wp (bnd (get_promise E (pc_id d)) (\<lambda>found. case found of
          None \<Rightarrow> bnd (create_promise E d None Dispatch) (\<lambda>promise.
                  ret (Inr (promise_reply (sp_record promise))))
        | Some existing \<Rightarrow> ret (Inr (promise_reply (sp_record existing))))) ?Q t"
        by (rule keeps_get_promise [OF c u], rule wp_case_option,
            rule keeps_bnd [OF create_promise_spec [OF c u]])
          (use u kind Some None in \<open>auto simp: fenced_def created_or_found_def\<close>)
      with Some None show ?thesis by (simp add: fence_create_def)
    next
      case (Some r)
      with u kind \<open>dec_promise_create j = Some d\<close> show ?thesis
        by (simp add: fence_create_def validate_create_400 acceptable_def)
    qed
  qed
  have settle: "wp (fence_settle E j) ?Q t" if kind: "kind = ''promise.settle''"
  proof (cases "dec_promise_settle j")
    case None
    with u kind show ?thesis by (simp add: fence_settle_def invalid_action_def acceptable_def)
  next
    case (Some s)
    have s: "ps_id s \<in> ids" using dec_settle_id [OF Some d(3)] d(2) by simp
    have "wp (bnd (get_promise E (ps_id s)) (\<lambda>found. case found of
          None \<Rightarrow> ret (Inr (err 404 ''Promise not found''))
        | Some promise \<Rightarrow> bnd (settle_pending E promise (ps_state s) (ps_value s)) (\<lambda>p.
            ret (Inr (promise_reply (sp_record p)))))) ?Q t"
      by (rule keeps_get_promise [OF c u], rule wp_case_option,
          (rule keeps_bnd [OF settle_pending_spec [OF c u d(1) s]])?)
        (use u kind Some in \<open>auto simp: fenced_def settled_promise_def
          intro!: keeps_bnd [OF settle_pending_spec [OF c u d(1) s]]\<close>)
    with Some show ?thesis by (simp add: fence_settle_def)
  qed
  show ?thesis
    using create settle u by (simp add: fence_action_def acceptable_def)
qed

text \<open>The answer to a fence: a rejected action changes nothing, and commits no deadline.\<close>

definition fence_answer ::
  "('q, 'x) env_scheme \<Rightarrow> i64 \<Rightarrow> string \<Rightarrow> task_fence_data \<Rightarrow> store \<Rightarrow> reply \<Rightarrow> store \<Rightarrow> bool" where
  "fence_answer E time corr_id data D reply W \<longleftrightarrow>
     (let kind = ac_kind (fe_action data) in case task_in E D (fe_id data) of
        None \<Rightarrow> W = D \<and> reply = err 404 ''Task not found''
      | Some k \<Rightarrow>
          if \<not> is_acquired_at k (fe_version data) then W = D \<and> reply = err 409 ''Version mismatch''
          else \<exists>inner records. reply = fence_reply kind corr_id inner records
            \<and> fenced E time kind (ac_data (fe_action data)) D inner W)"

definition or_rejected :: "bool \<Rightarrow> store \<Rightarrow> (reply \<Rightarrow> store \<Rightarrow> bool) \<Rightarrow> reply \<Rightarrow> store \<Rightarrow> bool" where
  "or_rejected acc V Q reply W \<longleftrightarrow> Q reply W \<or> \<not> acc \<and> status reply = 400 \<and> W = V"

lemma task_fence_spec:
  assumes b: "begun E kv t" and c: "queue_contract E kv"
    and v: "as_str (jget (ac_data (fe_action data)) ''id'') = Some a" "a \<noteq> fe_id data"
      "origin_of a = origin_of (fe_id data)"
  shows "wp (task_fence E corr_id data) (answers E kv t (or_rejected
    (acceptable E (ac_kind (fe_action data)) (ac_data (fe_action data))) (kv (queue t))
    (after_deadlines E (now t) {fe_id data, a} (kv (queue t)) (fence_answer E (now t) corr_id data)))) t"
proof -
  let ?i = "fe_id data" and ?kind = "ac_kind (fe_action data)" and ?j = "ac_data (fe_action data)"
  let ?Q = "\<lambda>D. or_rejected (acceptable E ?kind ?j) (kv (queue t)) (\<lambda>reply W. after_deadlines E (now t) {?i, a} (kv (queue t))
    (fence_answer E (now t) corr_id data) reply W)"
  have ends: "wp (finished E reply) (answers E kv t (?Q D)) w"
    if "tx_inv E kv t w" "good E D" "deadlines E (now t) {?i, a} (kv (queue t)) D"
      "fence_answer E (now t) corr_id data D reply (view kv w)" for w D reply
    by (rule answers_finished [OF b c that(1)]) (use that in \<open>auto simp: or_rejected_def after_deadlines_def\<close>)
  have act: "wp (bnd (fence_action E ?kind ?j) (\<lambda>outcome. case outcome of
        Inl reply \<Rightarrow> ret reply
      | Inr inner \<Rightarrow>
          bnd (get_promise E ?i) (\<lambda>found.
          bnd (expect ''a task's promise exists'' found) (\<lambda>own.
          bnd (preload E (sp_record own)) (\<lambda>records.
          finished E (fence_reply ?kind corr_id inner records))))))
      (answers E kv t (?Q (view kv u))) u"
    if u: "tx_inv E kv t u" and d: "deadlines E (now t) {?i, a} (kv (queue t)) (view kv u)"
      and k: "task_in E (view kv u) ?i = Some k" "\<not> \<not> is_acquired_at k (fe_version data)" for u k
  proof (rule answers_bnd [OF b fence_action_spec [OF c u d _ v(1)]])
    fix x w assume w: "tx_inv E kv t w" "case x of
        Inl reply \<Rightarrow> status reply = 400 \<and> \<not> acceptable E ?kind ?j
      | Inr inner \<Rightarrow> fenced E (now t) ?kind ?j (view kv u) inner (view kv w)"
    show "wp (case x of
        Inl reply \<Rightarrow> ret reply
      | Inr inner \<Rightarrow>
          bnd (get_promise E ?i) (\<lambda>found.
          bnd (expect ''a task's promise exists'' found) (\<lambda>own.
          bnd (preload E (sp_record own)) (\<lambda>records.
          finished E (fence_reply ?kind corr_id inner records)))))
      (answers E kv t (?Q (view kv u))) w"
    proof (cases x)
      case (Inl reply)
      with w have "wp (ret reply) (answers E kv t (?Q (view kv u))) w"
        by (intro answers_ret [OF b w(1)]) (simp add: or_rejected_def)
      with Inl show ?thesis by simp
    next
      case (Inr inner)
      then have f: "fenced E (now t) ?kind ?j (view kv u) inner (view kv w)" using w(2) by simp
      obtain p where "promise_in E (view kv u) ?i = Some p"
        using good_task_promise [OF tx_invD(1) [OF u] k(1)] by metis
      then obtain own where own: "promise_in E (view kv w) ?i = Some own"
        using fenced_dom [OF f, of ?i] by auto
      note fin = ends [OF _ tx_invD(1) [OF u] d]
      show ?thesis
        unfolding Inr sum.case
        by (rule answers_get_promise [OF b c w(1)], simp only: own expect_def option.case bnd_ret,
            rule answers_bnd [OF b preload_spec [OF c w(1)]], rule fin)
          (use k f in \<open>auto simp: fence_answer_def Let_def\<close>)
    qed
  qed simp
  have base: "wp (andthen (try_timeout E [?i, a]) (bnd (get_task E ?i) (\<lambda>found. case found of
      None \<Rightarrow> finished E (err 404 ''Task not found'')
    | Some task \<Rightarrow>
        if \<not> is_acquired_at task (fe_version data) then finished E (err 409 ''Version mismatch'')
        else bnd (fence_action E ?kind ?j) (\<lambda>outcome. case outcome of
            Inl reply \<Rightarrow> ret reply
          | Inr inner \<Rightarrow>
              bnd (get_promise E ?i) (\<lambda>found.
              bnd (expect ''a task's promise exists'' found) (\<lambda>own.
              bnd (preload E (sp_record own)) (\<lambda>records.
              finished E (fence_reply ?kind corr_id inner records)))))))) (answers E kv t (?Q D)) t"
    for D
  proof (rule answers_andthen [OF b try_timeout_spec [OF c begun_inv [OF b]]],
      rule answers_get_task [OF b c], assumption)
    fix x u assume u: "tx_inv E kv t u" "deadlines E (now t) (set [?i, a]) (view kv t) (view kv u)"
    then have d: "deadlines E (now t) {?i, a} (kv (queue t)) (view kv u)"
      by (simp add: begun_view [OF b])
    show "wp (case task_in E (view kv u) ?i of
      None \<Rightarrow> finished E (err 404 ''Task not found'')
    | Some task \<Rightarrow>
        if \<not> is_acquired_at task (fe_version data) then finished E (err 409 ''Version mismatch'')
        else bnd (fence_action E ?kind ?j) (\<lambda>outcome. case outcome of
            Inl reply \<Rightarrow> ret reply
          | Inr inner \<Rightarrow>
              bnd (get_promise E ?i) (\<lambda>found.
              bnd (expect ''a task's promise exists'' found) (\<lambda>own.
              bnd (preload E (sp_record own)) (\<lambda>records.
              finished E (fence_reply ?kind corr_id inner records))))))
      (answers E kv t (?Q D)) u"
      by (intro wp_case_option wp_if act [OF u(1) d] ends [OF u(1) tx_invD(1) [OF u(1)] d])
        (auto simp: fence_answer_def Let_def)
  qed
  show ?thesis
    using base v by (simp add: task_fence_def)
qed

end
