(* ===== verification/Listings.thy ===== *)
theory Listings
  imports Answers
begin

text \<open>
  The listings and searches.  A scan of a prefix yields every record of its kind once, in id
  order; this is proved once for a kind of record whose keys are a prefix and the id, and
  interpreted for the three kinds.  Then what a page is, and that following the cursors of the
  pages yields every item once.
\<close>

section \<open>Scans\<close>

text \<open>
  \<open>kvs\<close> is a scan of a prefix that reads every entry; its records are those of the store, in id
  order.
\<close>

locale listed_store = record_store key enc dec rid ty
  for key :: "string \<Rightarrow> bytes" and enc :: "'a \<Rightarrow> json" and dec :: "json \<Rightarrow> 'a option"
    and rid :: "'a \<Rightarrow> string" and ty :: string +
  fixes pre :: bytes
  assumes key_prefix: "key i = pre @ i"
begin

lemma list_stream_entries:
  assumes "\<forall>(k, b) \<in> set kvs. prefix pre k \<and> V k = Some b"
    and "\<forall>i. V (key i) \<noteq> None \<longrightarrow> record_at E ty dec key V i \<noteq> None"
  shows "\<exists>xs. list_stream E ty dec (map Inr kvs) = Inr xs
    \<and> list_all2 (\<lambda>kb x. record_at E ty dec key V (drop (length pre) (fst kb)) = Some x) kvs xs"
  using assms(1)
proof (induction kvs)
  case Nil
  then show ?case by simp
next
  case (Cons kb kvs)
  obtain k b where kb: "kb = (k, b)" by (cases kb)
  then obtain i where i: "k = key i" "drop (length pre) k = i" and b: "V (key i) = Some b"
    using Cons.prems by (auto simp: key_prefix prefix_def)
  then obtain x where x: "record_at E ty dec key V i = Some x"
    using assms(2) by (metis not_None_eq)
  then have "from_slice E ty dec b = Inr x"
    using b by (simp add: record_at_def split: sum.splits)
  then show ?case
    using Cons kb i x by auto
qed

lemma list_stream_cut:
  assumes "\<forall>(k, b) \<in> set kvs. prefix pre k \<and> V k = Some b"
    and "\<forall>i. V (key i) \<noteq> None \<longrightarrow> record_at E ty dec key V i \<noteq> None"
  shows "list_stream E ty dec (map Inr kvs @ [Inl e]) = Inl (Storage e)"
  using assms(1)
proof (induction kvs)
  case Nil
  then show ?case by simp
next
  case (Cons kb kvs)
  then obtain x where "list_stream E ty dec (map Inr [kb]) = Inr [x]"
    using list_stream_entries [of "[kb]" V E] assms(2) by (auto simp: list_all2_Cons1)
  with Cons show ?case
    by (cases kb) (auto split: sum.splits)
qed

text \<open>The records of the store in id order.\<close>

definition listed :: "('q, 'x) env_scheme \<Rightarrow> store \<Rightarrow> 'a list \<Rightarrow> bool" where
  "listed E V xs \<longleftrightarrow> (\<exists>ids. sorted_wrt (<) ids
     \<and> list_all2 (\<lambda>i x. record_at E ty dec key V i = Some x) ids xs
     \<and> set ids = {i. record_at E ty dec key V i \<noteq> None})"

lemma list_kind_result:
  assumes c: "queue_contract E kv"
    and r: "\<forall>i. kv (queue t) (key i) \<noteq> None \<longrightarrow> record_at E ty dec key (kv (queue t)) i \<noteq> None"
  shows "(\<exists>e. list_kind E ty dec pre t = (Inl (Storage e), t))
    \<or> (\<exists>xs. list_kind E ty dec pre t = (Inr xs, t) \<and> listed E (kv (queue t)) xs)"
proof -
  let ?V = "kv (queue t)"
  obtain kvs where kvs: "lists_prefix ?V pre kvs"
    and stream: "q_kv_entries E (queue t) pre = map Inr kvs
      \<or> (\<exists>n e. q_kv_entries E (queue t) pre = map Inr (take n kvs) @ [Inl e])"
    using contract_entries [OF c] by metis
  have all: "\<forall>(k, b) \<in> set kvs. prefix pre k \<and> ?V k = Some b"
    using kvs by (auto simp: lists_prefix_def)
  from stream show ?thesis
  proof
    assume *: "q_kv_entries E (queue t) pre = map Inr kvs"
    obtain xs where xs: "list_stream E ty dec (map Inr kvs) = Inr xs"
      and rel: "list_all2 (\<lambda>kb x. record_at E ty dec key ?V (drop (length pre) (fst kb)) = Some x) kvs xs"
      using list_stream_entries [OF all r] by blast
    let ?ids = "map (\<lambda>kb. drop (length pre) (fst kb)) kvs"
    have key_ids: "map key ?ids = map fst kvs"
      using all by (auto simp: key_prefix prefix_def)
    have "sorted_wrt (<) (map key ?ids)"
      using kvs unfolding key_ids by (simp add: lists_prefix_def)
    then have "sorted_wrt (<) ?ids"
      by (simp add: sorted_wrt_map key_prefix)
    moreover have "list_all2 (\<lambda>i x. record_at E ty dec key ?V i = Some x) ?ids xs"
      using rel by (simp add: list_all2_map1)
    moreover have "set ?ids = {i. record_at E ty dec key ?V i \<noteq> None}"
    proof -
      have img: "key ` set ?ids = fst ` set kvs"
        using arg_cong [OF key_ids, of set] by (simp only: set_map)
      have "key i \<in> key ` S \<longleftrightarrow> i \<in> S" for i S
        by (auto simp: key_injective)
      from this [of _ "set ?ids"] have "i \<in> set ?ids \<longleftrightarrow> key i \<in> fst ` set kvs" for i
        by (simp only: img)
      also have "key i \<in> fst ` set kvs \<longleftrightarrow> ?V (key i) \<noteq> None" for i
        using kvs by (force simp: lists_prefix_def key_prefix image_iff)
      also have "?V (key i) \<noteq> None \<longleftrightarrow> record_at E ty dec key ?V i \<noteq> None" for i
        using r by (cases "?V (key i)") (auto simp: record_at_def)
      finally show ?thesis by auto
    qed
    ultimately have "listed E ?V xs"
      unfolding listed_def by blast
    with * xs show ?thesis by (simp add: list_kind_def)
  next
    assume "\<exists>n e. q_kv_entries E (queue t) pre = map Inr (take n kvs) @ [Inl e]"
    then obtain n e where *: "q_kv_entries E (queue t) pre = map Inr (take n kvs) @ [Inl e]" by blast
    have "\<forall>(k, b) \<in> set (take n kvs). prefix pre k \<and> ?V k = Some b"
      using all by (auto dest: in_set_takeD)
    from list_stream_cut [OF this r] * show ?thesis by (simp add: list_kind_def)
  qed
qed

end

interpretation listed_promises:
  listed_store promise_key enc_stored_promise dec_stored_promise "\<lambda>p. p_id (sp_record p)"
    "''StoredPromise''" PROMISE_PREFIX
  by unfold_locales (simp add: promise_key_def join_def)

interpretation listed_tasks: listed_store task_key enc_task dec_task t_id "''StoredTask''" TASK_PREFIX
  by unfold_locales (simp add: task_key_def join_def)

interpretation listed_schedules:
  listed_store schedule_key enc_schedule dec_schedule s_id "''ScheduleRecord''" SCHEDULE_PREFIX
  by unfold_locales (simp add: schedule_key_def join_def)

text \<open>In a good store the records carry their ids: a listing is a list sorted by id.\<close>

lemma listed_by_id:
  assumes "sorted_wrt (<) ids" "list_all2 (\<lambda>i x. f i = Some x) ids xs"
    and "\<And>i x. f i = Some x \<Longrightarrow> g x = i"
  shows "map g xs = ids"
  using assms(2) by (induction rule: list_all2_induct) (auto simp: assms(3))

definition lists_records :: "(string \<Rightarrow> 'a option) \<Rightarrow> ('a \<Rightarrow> string) \<Rightarrow> 'a list \<Rightarrow> bool" where
  "lists_records f g xs \<longleftrightarrow> sorted_wrt (<) (map g xs) \<and> (\<forall>x. x \<in> set xs \<longleftrightarrow> f (g x) = Some x)"

lemma lists_recordsI:
  assumes "sorted_wrt (<) ids" "list_all2 (\<lambda>i x. f i = Some x) ids xs" "set ids = {i. f i \<noteq> None}"
    and "\<And>i x. f i = Some x \<Longrightarrow> g x = i"
  shows "lists_records f g xs"
proof -
  have ids: "map g xs = ids" by (rule listed_by_id [OF assms(1,2,4)])
  have "x \<in> set xs \<longleftrightarrow> f (g x) = Some x" for x
  proof
    assume "x \<in> set xs"
    then obtain n where "n < length xs" "xs ! n = x" by (metis in_set_conv_nth)
    then have "f (ids ! n) = Some x"
      using assms(2) list_all2_lengthD [OF assms(2)] by (auto dest: list_all2_nthD2)
    then show "f (g x) = Some x" using assms(4) by metis
  next
    assume x: "f (g x) = Some x"
    then have "g x \<in> set ids" using assms(3) by auto
    then obtain n where n: "n < length ids" "ids ! n = g x" by (metis in_set_conv_nth)
    then have "f (g x) = Some (xs ! n)" using list_all2_nthD [OF assms(2)] by metis
    then have "x = xs ! n" using x by simp
    with n show "x \<in> set xs" using list_all2_lengthD [OF assms(2)] by simp
  qed
  with assms(1) ids show ?thesis by (simp add: lists_records_def)
qed

lemma lists_records_unique:
  assumes "lists_records f g xs" "lists_records f g ys"
  shows "xs = ys"
proof -
  have eq: "set xs = set ys" using assms by (auto simp: lists_records_def)
  then have "map g xs = map g ys"
    using assms by (intro sorted_wrt_less_unique) (auto simp: lists_records_def)
  moreover have "inj_on g (set xs \<union> set ys)"
    using assms by (auto simp: lists_records_def inj_on_def)
  ultimately show ?thesis by (rule map_inj_on)
qed

lemma listed_good:
  assumes "good E V"
  shows "listed_promises.listed E V ps \<Longrightarrow> lists_records (promise_in E V) (\<lambda>p. p_id (sp_record p)) ps"
    and "listed_tasks.listed E V ks \<Longrightarrow> lists_records (task_in E V) t_id ks"
    and "listed_schedules.listed E V ss \<Longrightarrow> lists_records (schedule_in E V) s_id ss"
  using goodD(2,3,6) [OF assms]
  by (auto simp: listed_promises.listed_def listed_tasks.listed_def listed_schedules.listed_def
      promise_in_def [symmetric] task_in_def [symmetric] schedule_in_def [symmetric]
      promise_ok_def task_ok_def schedule_ok_def intro!: lists_recordsI)

lemma listing_specs:
  assumes c: "queue_contract E kv" and inv: "tx_inv E kv t0 t" and base: "view kv t = kv (queue t)"
  shows "wp (list_kind E ''StoredPromise'' dec_stored_promise PROMISE_PREFIX)
      (keeps E kv t0 (\<lambda>xs t'. t' = t \<and> lists_records (promise_in E (view kv t)) (\<lambda>p. p_id (sp_record p)) xs)) t"
    and "wp (tasks E) (keeps E kv t0 (\<lambda>xs t'. t' = t \<and> lists_records (task_in E (view kv t)) t_id xs)) t"
    and "wp (schedules E) (keeps E kv t0 (\<lambda>xs t'. t' = t \<and> lists_records (schedule_in E (view kv t)) s_id xs)) t"
proof -
  note good = tx_invD(1) [OF inv]
  have r: "readable E (kv (queue t))" using goodD(1) [OF good] base by simp
  show "wp (list_kind E ''StoredPromise'' dec_stored_promise PROMISE_PREFIX)
      (keeps E kv t0 (\<lambda>xs t'. t' = t \<and> lists_records (promise_in E (view kv t)) (\<lambda>p. p_id (sp_record p)) xs)) t"
    using listed_promises.list_kind_result [OF c, where t = t] r listed_good(1) [OF good] inv
    by (auto simp: wp_def readable_def promise_in_def base)
  show "wp (tasks E) (keeps E kv t0 (\<lambda>xs t'. t' = t \<and> lists_records (task_in E (view kv t)) t_id xs)) t"
    unfolding tasks_def
    using listed_tasks.list_kind_result [OF c, where t = t] r listed_good(2) [OF good] inv
    by (auto simp: wp_def readable_def task_in_def base)
  show "wp (schedules E) (keeps E kv t0 (\<lambda>xs t'. t' = t \<and> lists_records (schedule_in E (view kv t)) s_id xs)) t"
    unfolding schedules_def
    using listed_schedules.list_kind_result [OF c, where t = t] r listed_good(3) [OF good] inv
    by (auto simp: wp_def readable_def schedule_in_def base)
qed

section \<open>Pages\<close>

text \<open>Following the cursors: the pages from a cursor on, at most \<open>n + 1\<close> of them.\<close>

fun walk :: "nat \<Rightarrow> 'a list \<Rightarrow> ('a \<Rightarrow> string) \<Rightarrow> string option \<Rightarrow> nat \<Rightarrow> 'a list option" where
  "walk n items id_of cursor limit = (case page items id_of cursor limit of
     Inl e \<Rightarrow> None
   | Inr (found, None) \<Rightarrow> Some found
   | Inr (found, Some c) \<Rightarrow>
       (case n of 0 \<Rightarrow> None | Suc m \<Rightarrow> map_option (\<lambda>rest. found @ rest) (walk m items id_of (Some c) limit)))"

declare walk.simps [simp del]

abbreviation items_after :: "'a list \<Rightarrow> ('a \<Rightarrow> string) \<Rightarrow> string option \<Rightarrow> 'a list" where
  "items_after items id_of cursor \<equiv>
     filter (\<lambda>x. case cursor of None \<Rightarrow> True | Some c \<Rightarrow> c < id_of x) items"

lemma page_cases:
  assumes "1 \<le> limit"
  shows "page items id_of cursor limit =
    (let rest = items_after items id_of cursor in
     if length rest \<le> limit then Inr (rest, None)
     else Inr (take limit rest, Some (id_of (last (take limit rest)))))"
proof -
  have "take limit xs \<noteq> []" if "limit < length xs" for xs :: "'a list"
    using that assms by (cases xs; cases limit) auto
  then show ?thesis
    by (auto simp: page_def Let_def min_def split: list.splits)
qed

lemma sorted_last:
  fixes f :: "'a \<Rightarrow> 'b::linorder"
  shows "sorted_wrt (<) (map f xs) \<Longrightarrow> x \<in> set xs \<Longrightarrow> \<not> f (last xs) < f x"
proof (induction xs)
  case Nil
  then show ?case by simp
next
  case (Cons y ys)
  then show ?case by (cases "ys = []") (auto dest: less_asym' intro: order.asym)
qed

lemma items_after_last:
  assumes "sorted_wrt (<) (map id_of items)" "1 \<le> limit"
    and "limit < length (items_after items id_of cursor)"
  shows "items_after items id_of (Some (id_of (last (take limit (items_after items id_of cursor)))))
    = drop limit (items_after items id_of cursor)"
proof -
  let ?rest = "items_after items id_of cursor"
  let ?l = "last (take limit ?rest)"
  have sorted: "sorted_wrt (<) (map id_of ?rest)"
    using assms(1) by (simp add: sorted_wrt_map sorted_wrt_filter)
  have split: "map id_of ?rest = map id_of (take limit ?rest) @ map id_of (drop limit ?rest)"
    by (metis append_take_drop_id map_append)
  have l: "?l \<in> set (take limit ?rest)"
    using assms(2,3) by (intro last_in_set) auto
  then have l_in: "?l \<in> set ?rest" by (rule in_set_takeD)
  have before: "\<not> id_of ?l < id_of x" if x: "x \<in> set (take limit ?rest)" for x
    using sorted_last [OF _ x] sorted unfolding split sorted_wrt_append by blast
  have beyond: "id_of ?l < id_of x" if x: "x \<in> set (drop limit ?rest)" for x
    using sorted l x unfolding split sorted_wrt_append by auto
  have "items_after items id_of (Some (id_of ?l)) = items_after ?rest id_of (Some (id_of ?l))"
    using l_in by (auto intro!: filter_cong split: option.splits)
  also have "\<dots> = filter (\<lambda>x. id_of ?l < id_of x) (take limit ?rest @ drop limit ?rest)"
    by simp
  also have "\<dots> = drop limit ?rest"
    unfolding filter_append using before beyond by (simp add: filter_id_conv)
  finally show ?thesis .
qed

lemma walk_rest:
  assumes "sorted_wrt (<) (map id_of items)" "1 \<le> limit"
    and "length (items_after items id_of cursor) \<le> n"
  shows "walk n items id_of cursor limit = Some (items_after items id_of cursor)"
  using assms(3)
proof (induction n arbitrary: cursor)
  case 0
  then show ?case
    by (subst walk.simps) (simp add: page_cases [OF assms(2)])
next
  case (Suc n)
  let ?rest = "items_after items id_of cursor"
  show ?case
  proof (cases "length ?rest \<le> limit")
    case True
    then show ?thesis by (subst walk.simps) (simp add: page_cases [OF assms(2)])
  next
    case False
    let ?c = "Some (id_of (last (take limit ?rest)))"
    have rest: "items_after items id_of ?c = drop limit ?rest"
      using items_after_last [OF assms(1,2)] False by simp
    have "walk n items id_of ?c limit = Some (drop limit ?rest)"
      using Suc False assms(2) unfolding rest [symmetric] by (intro Suc.IH) (simp only: rest, simp)
    with False show ?thesis
      by (subst walk.simps) (simp add: page_cases [OF assms(2)] Let_def)
  qed
qed

end
