(* ===== verification/Dispatch.thy ===== *)
theory Dispatch
  imports Creation_Handlers Listings
begin

text \<open>
  The schedule requests, the searches, the dispatch of a request by its kind, the delivery of a
  job and the firing of a timer: what each answers and leaves behind, and that all of them keep
  the invariant and refine the abstract protocol.
\<close>

section \<open>Schedules\<close>

text \<open>The schedule requests never change a promise or a task.\<close>

definition only_schedules :: "('q, 'x) env_scheme \<Rightarrow> store \<Rightarrow> store \<Rightarrow> bool" where
  "only_schedules E V W \<longleftrightarrow> promise_in E W = promise_in E V \<and> task_in E W = task_in E V"

definition schedule_created ::
  "('q, 'x) env_scheme \<Rightarrow> i64 \<Rightarrow> schedule_create_data \<Rightarrow> store \<Rightarrow> reply \<Rightarrow> store \<Rightarrow> bool" where
  "schedule_created E time data V reply W \<longleftrightarrow> (case schedule_in E V (sd_id data) of
     Some s \<Rightarrow> W = V \<and> reply = schedule_reply s
   | None \<Rightarrow> (case next_after E (sd_cron data) time of
       None \<Rightarrow> W = V \<and> reply = err 400 ''Invalid cron expression''
     | Some nxt \<Rightarrow> reply = schedule_reply (created_schedule time data nxt)
         \<and> only_schedules E V W
         \<and> schedule_in E W = (schedule_in E V)(sd_id data \<mapsto> created_schedule time data nxt)))"

lemma created_schedule_id [simp]: "s_id (created_schedule time data nxt) = sd_id data"
  by (simp add: created_schedule_def)

lemma schedule_create_spec:
  assumes b: "begun E kv t" and c: "queue_contract E kv"
    and v: "sd_id data \<noteq> []" "CHR '':'' \<notin> set (sd_id data)"
      "om_get (sd_promise_tags data) TAG_TARGET = Some tgt" "is_url E tgt"
      "\<not> lt64 (sd_promise_timeout data) 0"
  shows "wp (schedule_create E data)
    (answers E kv t (schedule_created E (now t) data (kv (queue t)))) t"
proof -
  note inv = begun_inv [OF b]
  have put: "wp (andthen (put_schedule (created_schedule (now t) data nxt)) (
      andthen (schedule_timer (ScheduleAt (s_id (created_schedule (now t) data nxt)) nxt) nxt)
        (finished E (schedule_reply (created_schedule (now t) data nxt)))))
      (answers E kv t (schedule_created E (now t) data (kv (queue t)))) t"
    if none: "schedule_in E (view kv t) (sd_id data) = None"
      and nxt: "next_after E (sd_cron data) (now t) = Some nxt" for nxt
  proof (rule answers_andthen [OF b, where P = "\<lambda>_ u. view kv u = put_s (created_schedule (now t) data nxt) (view kv t)"])
    let ?s = "created_schedule (now t) data nxt"
    have "schedule_ok (sd_id data) ?s"
      using v by (simp add: schedule_ok_def created_schedule_def)
    note g = put_schedule_good [OF tx_invD(1) [OF inv] this]
    show "wp (put_schedule ?s) (keeps E kv t (\<lambda>_ u. view kv u = put_s ?s (view kv t))) t"
      by (rule wp_put_schedule [where kv = kv]) (auto simp: g intro!: tx_inv_step [OF inv])
    fix x u assume u: "tx_inv E kv t u" "view kv u = put_s ?s (view kv t)"
    show "wp (andthen (schedule_timer (ScheduleAt (s_id ?s) nxt) nxt) (finished E (schedule_reply ?s)))
        (answers E kv t (schedule_created E (now t) data (kv (queue t)))) u"
      by (rule answers_silent [OF b u(1) wp_schedule_timer [where kv = kv]])
        (use u none nxt in \<open>auto simp: schedule_created_def only_schedules_def begun_view [OF b]
          schedule_in_put_s intro!: answers_finished [OF b c]\<close>)
  qed
  have "wp (bnd (get_schedule E (sd_id data)) (\<lambda>found. case found of
        Some existing \<Rightarrow> ret (schedule_reply existing)
      | None \<Rightarrow>
      bnd (asks now) (\<lambda>time. case next_after E (sd_cron data) time of
        None \<Rightarrow> ret (err 400 ''Invalid cron expression'')
      | Some nxt \<Rightarrow>
          (let s = created_schedule time data nxt in
           andthen (put_schedule s) (
           andthen (schedule_timer (ScheduleAt (s_id s) nxt) nxt) (
           finished E (schedule_reply s)))))))
      (answers E kv t (schedule_created E (now t) data (kv (queue t)))) t"
    unfolding Let_def
    by (rule answers_get_schedule [OF b c inv], rule wp_case_option, rule wp_bnd,
        simp only: wp_asks sum.case, rule wp_case_option, rule answers_ret [OF b inv],
        (simp add: schedule_created_def begun_view [OF b])[1], rule put, assumption+,
        rule answers_ret [OF b inv])
      (simp add: schedule_created_def begun_view [OF b])
  then show ?thesis
    using v by (simp add: schedule_create_def)
qed

lemma schedule_get_spec:
  assumes b: "begun E kv t" and c: "queue_contract E kv"
  shows "wp (schedule_get E i) (answers E kv t (\<lambda>reply W. W = kv (queue t) \<and>
    reply = (case schedule_in E (kv (queue t)) i of
       Some s \<Rightarrow> schedule_reply s | None \<Rightarrow> err 404 ''Schedule not found''))) t"
  unfolding schedule_get_def
  by (rule answers_get_schedule [OF b c begun_inv [OF b]], rule answers_ret [OF b begun_inv [OF b]])
    (simp add: begun_view [OF b])

lemma schedule_in_del_s: "schedule_in E (del_s i V) = (schedule_in E V)(i := None)"
  by (simp add: fun_eq_iff)

lemma schedule_delete_spec:
  assumes b: "begun E kv t" and c: "queue_contract E kv"
  shows "wp (schedule_delete E i) (answers E kv t (\<lambda>reply W. case schedule_in E (kv (queue t)) i of
       Some s \<Rightarrow> reply = empty_reply \<and> only_schedules E (kv (queue t)) W
         \<and> schedule_in E W = (schedule_in E (kv (queue t)))(i := None)
     | None \<Rightarrow> reply = err 404 ''Schedule not found'' \<and> W = kv (queue t))) t"
proof -
  note inv = begun_inv [OF b]
  have del: "wp (delete_schedule i) (keeps E kv t (\<lambda>_ u. view kv u = del_s i (view kv t))) t"
    by (rule wp_delete_schedule [where kv = kv])
      (auto simp: delete_schedule_good [OF tx_invD(1) [OF inv]] intro!: tx_inv_step [OF inv])
  show ?thesis
    unfolding schedule_delete_def
    by (rule answers_get_schedule [OF b c inv], rule wp_case_option, rule answers_ret [OF b inv],
        (simp add: begun_view [OF b])[1], rule answers_andthen [OF b del], rule answers_finished [OF b c])
      (auto simp: begun_view [OF b] only_schedules_def schedule_in_del_s)
qed

section \<open>Searches\<close>

text \<open>A search answers with one page of the matching records, in id order, and changes nothing.\<close>

lemma paged_spec:
  assumes b: "begun E kv t0" and inv: "tx_inv E kv t0 t" and n: "1 \<le> n"
    and Q: "\<And>found nxt. page items id_of cursor n = Inr (found, nxt) \<Longrightarrow>
      Q (ok (with_cursor (jobj [(name, enc_list enc found)]) nxt)) (kv (queue t0))"
  shows "wp (paged name enc id_of items cursor n) (answers E kv t0 Q) t"
  unfolding paged_def
proof (rule answers_bnd [OF b keeps_read [OF inv]])
  show "\<exists>x. e = Storage x" if "page items id_of cursor n = Inl e" for e
    using that page_cases [OF n, of items id_of cursor] by (simp add: Let_def split: if_splits)
  fix x u assume "tx_inv E kv t0 u" "u = t \<and> page items id_of cursor n = Inr x"
  then show "wp (case x of (found, nxt) \<Rightarrow> ret (ok (with_cursor (jobj [(name, enc_list enc found)]) nxt)))
      (answers E kv t0 Q) u"
    by (cases x) (auto intro!: answers_unchanged [OF b] Q)
qed

definition searched ::
  "string \<Rightarrow> ('a \<Rightarrow> json) \<Rightarrow> ('a \<Rightarrow> string) \<Rightarrow> ('a list \<Rightarrow> bool) \<Rightarrow> string option \<Rightarrow> nat \<Rightarrow> reply \<Rightarrow> bool" where
  "searched name enc id_of items cursor n reply \<longleftrightarrow>
     (\<exists>xs found nxt. items xs \<and> page xs id_of cursor n = Inr (found, nxt)
        \<and> reply = ok (with_cursor (jobj [(name, enc_list enc found)]) nxt))"

text \<open>The records a search looks for: every one that matches, in id order.\<close>

definition matching ::
  "(string \<Rightarrow> 'b option) \<Rightarrow> ('b \<Rightarrow> string) \<Rightarrow> ('b \<Rightarrow> 'a) \<Rightarrow> ('a \<Rightarrow> bool) \<Rightarrow> 'a list \<Rightarrow> bool" where
  "matching f g h P xs \<longleftrightarrow> (\<exists>all. lists_records f g all \<and> xs = filter P (map h all))"

lemma limited_spec:
  assumes "begun E kv t" "\<And>n. search_limit l d = Inr n \<Longrightarrow> 1 \<le> n \<Longrightarrow> wp (m n) (answers E kv t Q) t"
    and "1 \<le> d" "d \<le> MAX_SEARCH_LIMIT" "\<And>r. search_limit l d = Inl r \<Longrightarrow> Q r (kv (queue t))"
  shows "wp (limited l d m) (answers E kv t Q) t"
  unfolding limited_def
  using assms(2,5) search_limit_bounds [OF _ assms(3,4)]
  by (auto intro!: answers_unchanged [OF assms(1) begun_inv [OF assms(1)]] split: sum.split)

lemmas limit_defs = DEFAULT_SEARCH_LIMIT_def DEFAULT_SCHEDULE_SEARCH_LIMIT_def MAX_SEARCH_LIMIT_def

text \<open>The reply of a search: the reply to a bad limit, or a page.\<close>

definition search_reply ::
  "i64 option \<Rightarrow> nat \<Rightarrow> (nat \<Rightarrow> reply \<Rightarrow> bool) \<Rightarrow> reply \<Rightarrow> bool" where
  "search_reply l d R reply \<longleftrightarrow> (case search_limit l d of Inl r \<Rightarrow> reply = r | Inr n \<Rightarrow> R n reply)"

definition promise_matches :: "promise_search_data \<Rightarrow> promise_record \<Rightarrow> bool" where
  "promise_matches data p \<longleftrightarrow> (sq_state data = None \<or> sq_state data = Some (p_state p))
     \<and> tags_match (p_tags p) (sq_tags data)"

lemma promise_search_spec:
  assumes b: "begun E kv t" and c: "queue_contract E kv"
  shows "wp (promise_search E data) (answers E kv t (\<lambda>reply W. W = kv (queue t) \<and>
    search_reply (sq_limit data) DEFAULT_SEARCH_LIMIT (searched ''promises'' enc_promise p_id
      (matching (promise_in E (kv (queue t))) (\<lambda>p. p_id (sp_record p)) sp_record (promise_matches data))
      (sq_cursor data)) reply)) t"
  unfolding promise_search_def
proof (rule limited_spec [OF b])
  note inv = begun_inv [OF b] and base = begun_view [OF b]
  fix n assume n: "search_limit (sq_limit data) DEFAULT_SEARCH_LIMIT = Inr n" "1 \<le> n"
  have P: "filter (\<lambda>p. tags_match (p_tags p) (sq_tags data))
      (filter (\<lambda>p. case sq_state data of None \<Rightarrow> True | Some st \<Rightarrow> p_state p = st) xs)
      = filter (promise_matches data) xs" for xs
    by (cases "sq_state data") (auto simp: promise_matches_def intro!: filter_cong)
  show "wp (bnd (promises E) (\<lambda>all. paged ''promises'' enc_promise p_id
      (filter (\<lambda>p. tags_match (p_tags p) (sq_tags data))
        (filter (\<lambda>p. case sq_state data of None \<Rightarrow> True | Some st \<Rightarrow> p_state p = st) all))
      (sq_cursor data) n)) (answers E kv t (\<lambda>reply W. W = kv (queue t) \<and>
    search_reply (sq_limit data) DEFAULT_SEARCH_LIMIT (searched ''promises'' enc_promise p_id
      (matching (promise_in E (kv (queue t))) (\<lambda>p. p_id (sp_record p)) sp_record (promise_matches data))
      (sq_cursor data)) reply)) t"
    unfolding promises_def bnd_assoc bnd_ret P
    by (rule answers_bnd [OF b listing_specs(1) [OF c inv base]], rule paged_spec [OF b _ n(2)])
      (auto simp: base n search_reply_def searched_def matching_def)
qed (auto simp: limit_defs search_reply_def)

lemma task_search_spec:
  assumes b: "begun E kv t" and c: "queue_contract E kv"
  shows "wp (task_search E data) (answers E kv t (\<lambda>reply W. W = kv (queue t) \<and>
    search_reply (tq_limit data) DEFAULT_SEARCH_LIMIT (searched ''tasks'' enc_task_record tr_id
      (matching (task_in E (kv (queue t))) t_id task_wire
        (\<lambda>r. case tq_state data of None \<Rightarrow> True | Some st \<Rightarrow> tr_state r = st))
      (tq_cursor data)) reply)) t"
  unfolding task_search_def
proof (rule limited_spec [OF b])
  note inv = begun_inv [OF b] and base = begun_view [OF b]
  fix n assume n: "search_limit (tq_limit data) DEFAULT_SEARCH_LIMIT = Inr n" "1 \<le> n"
  show "wp (bnd (tasks E) (\<lambda>all. paged ''tasks'' enc_task_record tr_id
      (filter (\<lambda>r. case tq_state data of None \<Rightarrow> True | Some st \<Rightarrow> tr_state r = st) (map task_wire all))
      (tq_cursor data) n)) (answers E kv t (\<lambda>reply W. W = kv (queue t) \<and>
    search_reply (tq_limit data) DEFAULT_SEARCH_LIMIT (searched ''tasks'' enc_task_record tr_id
      (matching (task_in E (kv (queue t))) t_id task_wire
        (\<lambda>r. case tq_state data of None \<Rightarrow> True | Some st \<Rightarrow> tr_state r = st))
      (tq_cursor data)) reply)) t"
    by (rule answers_bnd [OF b listing_specs(2) [OF c inv base]], rule paged_spec [OF b _ n(2)])
      (auto simp: base n search_reply_def searched_def matching_def)
qed (auto simp: limit_defs search_reply_def)

lemma schedule_search_spec:
  assumes b: "begun E kv t" and c: "queue_contract E kv"
  shows "wp (schedule_search E data) (answers E kv t (\<lambda>reply W. W = kv (queue t) \<and>
    search_reply (hq_limit data) DEFAULT_SCHEDULE_SEARCH_LIMIT (searched ''schedules'' enc_schedule s_id
      (matching (schedule_in E (kv (queue t))) s_id id
        (\<lambda>s. tags_match (s_promise_tags s) (hq_tags data)))
      (hq_cursor data)) reply)) t"
  unfolding schedule_search_def
proof (rule limited_spec [OF b])
  note inv = begun_inv [OF b] and base = begun_view [OF b]
  fix n assume n: "search_limit (hq_limit data) DEFAULT_SCHEDULE_SEARCH_LIMIT = Inr n" "1 \<le> n"
  show "wp (bnd (schedules E) (\<lambda>all. paged ''schedules'' enc_schedule s_id
      (filter (\<lambda>s. tags_match (s_promise_tags s) (hq_tags data)) all) (hq_cursor data) n))
    (answers E kv t (\<lambda>reply W. W = kv (queue t) \<and>
    search_reply (hq_limit data) DEFAULT_SCHEDULE_SEARCH_LIMIT (searched ''schedules'' enc_schedule s_id
      (matching (schedule_in E (kv (queue t))) s_id id
        (\<lambda>s. tags_match (s_promise_tags s) (hq_tags data)))
      (hq_cursor data)) reply)) t"
    by (rule answers_bnd [OF b listing_specs(3) [OF c inv base]], rule paged_spec [OF b _ n(2)])
      (auto simp: base n search_reply_def searched_def matching_def)
qed (auto simp: limit_defs search_reply_def)

section \<open>Every request\<close>

text \<open>A request with data that is refused before any read.\<close>

lemma refused_requests:
  shows "validate_create E c = Some r \<Longrightarrow> promise_create E c = ret r"
    and "validate_callback (cb_awaited d) (cb_awaiter d) = Some r \<Longrightarrow> promise_register_callback E d = ret r"
    and "\<not> is_url E (li_address l) \<Longrightarrow> promise_register_listener E l = ret (err 400 ''Invalid listener address'')"
  by (simp_all add: promise_create_def promise_register_callback_def promise_register_listener_def reject_def)

lemma early_replies:
  assumes "\<not> (\<not> a \<and> \<not> b \<and> \<not> c \<and> v = None \<and> \<not> d \<and> \<not> e)"
    and "\<And>r. v = Some r \<Longrightarrow> status r = 400"
    and "status ra = 400" "status rb = 400" "status rc = 400" "status rd = 400" "status re = 400"
  shows "\<exists>r. (if a then ret ra else if b then ret rb else if c then ret rc
      else reject v (if d then ret rd else if e then ret re else m)) = ret r \<and> status r = 400"
  using assms by (cases v) (auto simp: reject_def)

lemma task_create_refused:
  assumes "\<not> (ac_kind (tc_action data) = ''promise.create'' \<and> tc_pid data \<noteq> [] \<and> \<not> lt64 (tc_ttl data) 1
      \<and> validate_create E (ac_data (tc_action data)) = None
      \<and> om_get (pc_tags (ac_data (tc_action data))) TAG_TARGET \<noteq> None
      \<and> om_get (pc_tags (ac_data (tc_action data))) TAG_DELAY = None)"
  shows "\<exists>r. task_create E data = ret r \<and> status r = 400"
  unfolding task_create_def Let_def
  by (rule early_replies) (use assms validate_create_400 in \<open>simp_all only: simp_thms reply_simps\<close>)

lemma task_fulfill_refused:
  assumes "\<not> (ac_kind (tf_action data) = ''promise.settle'' \<and> ps_id (ac_data (tf_action data)) = tf_id data)"
  shows "\<exists>r. task_fulfill E data = ret r \<and> status r = 400"
  using assms by (auto simp: task_fulfill_def Let_def)

lemma awaited_of_400: "awaited_of i actions ids = Inl r \<Longrightarrow> status r = 400"
  by (induction i actions ids rule: awaited_of.induct)
    (auto simp: validate_callback_def split: if_splits option.splits)

lemma task_suspend_refused:
  assumes "\<not> (ts_actions data \<noteq> [] \<and> (\<exists>ids. awaited_of (ts_id data) (ts_actions data) [] = Inr ids))"
  shows "\<exists>r. task_suspend E data = ret r \<and> status r = 400"
  using assms awaited_of_400 by (auto simp: task_suspend_def split: sum.split)

lemma task_fence_refused:
  assumes "\<not> (\<exists>a. as_str (jget (ac_data (fe_action data)) ''id'') = Some a \<and> a \<noteq> fe_id data
    \<and> origin_of a = origin_of (fe_id data))"
  shows "\<exists>r. task_fence E corr_id data = ret r \<and> status r = 400"
  using assms by (auto simp: task_fence_def split: option.split)

lemma schedule_create_refused:
  assumes "\<not> (sd_id data \<noteq> [] \<and> CHR '':'' \<notin> set (sd_id data) \<and> \<not> lt64 (sd_promise_timeout data) 0
      \<and> (\<exists>tgt. om_get (sd_promise_tags data) TAG_TARGET = Some tgt \<and> is_url E tgt))"
  shows "\<exists>r. schedule_create E data = ret r \<and> status r = 400"
  using assms by (auto simp: schedule_create_def split: option.split)

text \<open>Whatever a request is, its answer is safe: the store stays good and moves by the protocol.\<close>

abbreviation safely :: "('q, 'x) env_scheme \<Rightarrow> ('q \<Rightarrow> store) \<Rightarrow> ('q txn, 'a) tx \<Rightarrow> 'q txn \<Rightarrow> bool" where
  "safely E kv m t \<equiv> wp m (answers E kv t (\<lambda>_ _. True)) t"

lemma safelyI: "wp m (answers E kv t Q) t \<Longrightarrow> safely E kv m t"
  by (erule wp_answers_mono) simp

lemma safely_ret: "begun E kv t \<Longrightarrow> safely E kv (ret r) t"
  by (rule answers_ret) (simp_all add: begun_inv)

lemma safely_refused: "begun E kv t \<Longrightarrow> \<exists>r. m = ret r \<and> P r \<Longrightarrow> safely E kv m t"
  by (elim exE conjE, hypsubst, rule safely_ret)

lemma safely_parsed:
  assumes "begun E kv t" "\<And>d. safely E kv (h d) t"
  shows "safely E kv (parsed E ty dec data h) t"
  unfolding parsed_def by (intro wp_case_option safely_ret assms)

lemma promise_requests_safe:
  assumes b: "begun E kv t" and c: "queue_contract E kv"
  shows "safely E kv (promise_create E d1) t" "safely E kv (promise_get E i) t"
    "safely E kv (promise_settle E d2) t" "safely E kv (promise_register_callback E d3) t"
    "safely E kv (promise_register_listener E d4) t" "safely E kv (promise_search E d5) t"
proof -
  show "safely E kv (promise_create E d1) t"
    by (cases "validate_create E d1")
      (auto simp: refused_requests intro: safelyI [OF promise_create_spec [OF b c]]
        answers_unchanged [OF b begun_inv [OF b]])
  show "safely E kv (promise_register_callback E d3) t"
    by (cases "validate_callback (cb_awaited d3) (cb_awaiter d3)")
      (auto simp: refused_requests intro: safelyI [OF promise_register_callback_spec [OF b c]]
        answers_unchanged [OF b begun_inv [OF b]])
  show "safely E kv (promise_register_listener E d4) t"
    by (cases "is_url E (li_address d4)")
      (auto simp: refused_requests intro: safelyI [OF promise_register_listener_spec [OF b c]]
        answers_unchanged [OF b begun_inv [OF b]])
qed (rule safelyI, rule promise_get_spec promise_settle_spec promise_search_spec; rule b c)+

lemma task_requests_safe:
  assumes b: "begun E kv t" and c: "queue_contract E kv"
  shows "safely E kv (task_get E i) t" "safely E kv (task_halt E i) t" "safely E kv (task_continue E i) t"
    "safely E kv (task_acquire E d1) t" "safely E kv (task_release E d2) t"
    "safely E kv (task_heartbeat E d3) t" "safely E kv (task_search E d4) t"
  by (rule safelyI, rule task_get_spec task_halt_spec task_continue_spec task_acquire_spec
      task_release_spec task_heartbeat_spec task_search_spec; rule b c)+

lemma settling_requests_safe:
  assumes b: "begun E kv t" and c: "queue_contract E kv"
  shows "safely E kv (task_fulfill E d1) t" "safely E kv (task_suspend E d2) t"
    "safely E kv (task_create E d3) t" "safely E kv (task_fence E corr_id d4) t"
proof -
  show "safely E kv (task_fulfill E d1) t"
    using safelyI [OF task_fulfill_spec [OF b c]] safely_refused [OF b task_fulfill_refused] by blast
  show "safely E kv (task_suspend E d2) t"
    using safelyI [OF task_suspend_spec [OF b c]] safely_refused [OF b task_suspend_refused] by blast
  show "safely E kv (task_create E d3) t"
    using safelyI [OF task_create_spec [OF b c]] safely_refused [OF b task_create_refused] by blast
  show "safely E kv (task_fence E corr_id d4) t"
    using safelyI [OF task_fence_spec [OF b c]] safely_refused [OF b task_fence_refused] by blast
qed

lemma schedule_requests_safe:
  assumes b: "begun E kv t" and c: "queue_contract E kv"
  shows "safely E kv (schedule_create E d1) t" "safely E kv (schedule_get E i) t"
    "safely E kv (schedule_delete E i) t" "safely E kv (schedule_search E d2) t"
proof -
  show "safely E kv (schedule_create E d1) t"
    using safelyI [OF schedule_create_spec [OF b c]] safely_refused [OF b schedule_create_refused] by blast
qed (rule safelyI, rule schedule_get_spec schedule_delete_spec schedule_search_spec; rule b c)+

lemmas requests_safe =
  promise_requests_safe task_requests_safe settling_requests_safe schedule_requests_safe

lemma handle_safe:
  assumes "begun E kv t" "queue_contract E kv"
  shows "safely E kv (handle E kind corr_id data) t"
  unfolding handle_def by (intro wp_if safely_parsed safely_ret requests_safe assms)

section \<open>Timers\<close>

text \<open>
  A promise's timer settles the promise while it is pending, and a schedule's timer fires the
  schedule while it is the one scheduled for its next run; any other timer changes nothing.
\<close>

definition timer_fired ::
  "('q, 'x) env_scheme \<Rightarrow> i64 \<Rightarrow> timer \<Rightarrow> store \<Rightarrow> store \<Rightarrow> bool" where
  "timer_fired E time tm V W \<longleftrightarrow> (case tm of
     PromiseTimeout i \<Rightarrow> (case promise_in E V i of
         None \<Rightarrow> W = V
       | Some p \<Rightarrow> if is_pending (sp_record p)
           then settled_store E time i p (expired_record (sp_record p)) V W else W = V)
   | ScheduleAt i at \<Rightarrow> (case schedule_in E V i of
         None \<Rightarrow> W = V
       | Some s \<Rightarrow> if s_next_run_at s = at then fired_store E time s V W else W = V))"

lemma fire_spec:
  assumes b: "begun E kv t" and c: "queue_contract E kv"
  shows "wp (fire E tm) (answers E kv t (\<lambda>_ W. timer_fired E (now t) tm (kv (queue t)) W)) t"
proof (cases tm)
  note inv = begun_inv [OF b] and base = begun_view [OF b]
  case (PromiseTimeout i)
  show ?thesis
    unfolding fire_def PromiseTimeout timer.case
    by (rule answers_get_promise [OF b c inv], intro wp_case_option wp_if answers_ret [OF b inv],
        (simp add: timer_fired_def base split: option.split)+,
        rule answers_bnd [OF b expire_promise_spec [OF c inv]], simp add: base, simp,
        rule answers_commit [OF b c])
      (auto simp: timer_fired_def base)
next
  note inv = begun_inv [OF b] and base = begun_view [OF b]
  case (ScheduleAt i at)
  show ?thesis
    unfolding fire_def ScheduleAt timer.case
    by (rule answers_get_schedule [OF b c inv], intro wp_case_option wp_if answers_ret [OF b inv],
        (simp add: timer_fired_def base split: option.split)+,
        rule answers_andthen [OF b fire_schedule_spec [OF c inv]], simp add: base,
        rule answers_commit [OF b c])
      (auto simp: timer_fired_def base)
qed

section \<open>Delivery\<close>

text \<open>
  An execute job is delivered for a task that is pending, or that was acquired and has lost its
  lease; it is stale for any other.  The message carries the version the task has.
\<close>

definition delivered ::
  "('q, 'x) env_scheme \<Rightarrow> string \<Rightarrow> store \<Rightarrow> json option \<Rightarrow> store \<Rightarrow> bool" where
  "delivered E i D message W \<longleftrightarrow> (case task_in E D i of
     None \<Rightarrow> W = D \<and> message = None
   | Some k \<Rightarrow> (case t_state k of
       TAcquired \<Rightarrow> only_task E i (transition k TPending) D W
         \<and> message = Some (execute_message i (t_version k))
     | TPending \<Rightarrow> W = D \<and> message = Some (execute_message i (t_version k))
     | _ \<Rightarrow> W = D \<and> message = None))"

lemma wp_task_state:
  assumes "st = TPending \<Longrightarrow> wp a Q s" "st = TAcquired \<Longrightarrow> wp b Q s" "st = TSuspended \<Longrightarrow> wp c Q s"
    "st = THalted \<Longrightarrow> wp d Q s" "st = TFulfilled \<Longrightarrow> wp e Q s"
  shows "wp (case st of TPending \<Rightarrow> a | TAcquired \<Rightarrow> b | TSuspended \<Rightarrow> c | THalted \<Rightarrow> d | TFulfilled \<Rightarrow> e) Q s"
  using assms by (simp split: task_state.split)

lemma answers_send:
  assumes "begun E kv t0" "queue_contract E kv" "tx_inv E kv t0 t" "Q x (view kv t)"
  shows "wp (andthen (hold_after_commit i cl) (andthen (commit E) (ret x))) (answers E kv t0 Q) t"
    "wp (andthen (ack_after_commit cl) (andthen (commit E) (ret x))) (answers E kv t0 Q) t"
proof -
  show "wp (andthen (hold_after_commit i cl) (andthen (commit E) (ret x))) (answers E kv t0 Q) t"
    by (rule answers_silent [OF assms(1,3) wp_hold_after [where kv = kv]])
      (use assms in \<open>auto intro!: answers_after_commit [OF assms(1,2)]\<close>)
  show "wp (andthen (ack_after_commit cl) (andthen (commit E) (ret x))) (answers E kv t0 Q) t"
    by (rule answers_silent [OF assms(1,3) wp_ack_after [where kv = kv]])
      (use assms in \<open>auto intro!: answers_after_commit [OF assms(1,2)]\<close>)
qed

lemma deliver_unblock_spec:
  assumes b: "begun E kv t" and c: "queue_contract E kv"
    and p: "from_slice E ''Delivery'' dec_delivery (c_payload cl) = Inr (Unblock message)"
  shows "wp (deliver E cl) (answers E kv t (\<lambda>x W. x = Some message \<and> W = kv (queue t))) t"
  unfolding deliver_def
  by (rule wp_bnd, simp only: wp_reads p sum.case delivery.case,
      rule answers_send(2) [OF b c begun_inv [OF b]])
    (simp add: begun_view [OF b])

lemma deliver_execute_spec:
  assumes b: "begun E kv t" and c: "queue_contract E kv"
    and p: "from_slice E ''Delivery'' dec_delivery (c_payload cl) = Inr (Execute i)"
  shows "wp (deliver E cl)
    (answers E kv t (after_deadlines E (now t) {i} (kv (queue t)) (delivered E i))) t"
proof -
  have acquired: "wp (andthen (put_task (transition k TPending)) (andthen (hold_after_commit i cl)
        (andthen (commit E) (ret (Some (execute_message i (t_version k)))))))
      (answers E kv t (delivered E i (view kv u))) u"
    if u: "tx_inv E kv t u" and k: "task_in E (view kv u) i = Some k" "t_state k = TAcquired" for u k
  proof (rule answers_andthen [OF b keeps_only_task [OF u k(1)]])
    show "task_ok i (transition k TPending)" "task_write k (transition k TPending)"
      using moved_ok goodD(3) [OF tx_invD(1) [OF u] k(1)] k(2) by auto
  qed (use k in \<open>auto simp: delivered_def intro!: answers_send [OF b c]\<close>)
  show ?thesis
    unfolding deliver_def Let_def
    by (rule wp_bnd, simp only: wp_reads p sum.case delivery.case, rule answers_deadline [OF b c],
        rule answers_get_task [OF b c], assumption,
        intro wp_case_option wp_task_state answers_send [OF b c] acquired)
      (auto simp: delivered_def)
qed

end
