(* ===== verification/Store.thy ===== *)
theory Store
  imports Dispatch
begin

text \<open>
  \<open>src/store.rs\<close>: the options of a store and of the queue it opens, the state shared by the
  store and its networks, and the worker that fires timers.  The lock is modelled by the
  sequence of the operations that take it: each runs one transaction over the queue and the
  held claims and leaves both as the transaction left them.
\<close>

section \<open>Options\<close>

text \<open>Durations are in milliseconds.\<close>

record store_options =
  retry_timeout :: nat
  preload_max :: nat
  poll_interval :: nat

definition default_options :: store_options where
  "default_options = \<lparr>retry_timeout = 30000, preload_max = 10, poll_interval = 250\<rparr>"

definition with_retry_timeout :: "nat \<Rightarrow> store_options \<Rightarrow> store_options" where
  "with_retry_timeout d opts = opts\<lparr>retry_timeout := d\<rparr>"

definition with_preload_limit :: "nat \<Rightarrow> store_options \<Rightarrow> store_options" where
  "with_preload_limit n opts = opts\<lparr>preload_max := n\<rparr>"

definition with_poll_interval :: "nat \<Rightarrow> store_options \<Rightarrow> store_options" where
  "with_poll_interval d opts = opts\<lparr>poll_interval := d\<rparr>"

text \<open>The fields of the queue's configuration that the store sets.\<close>

record queue_config =
  max_attempts :: nat
  retry_backoff_base :: nat
  retry_backoff_max :: nat
  keep_done_jobs :: "nat option"

record open_options =
  default_queue_config :: queue_config
  queue_config :: "string \<Rightarrow> queue_config option"

definition queue_options :: "queue_config \<Rightarrow> open_options" where
  "queue_options preset =
     \<lparr>default_queue_config = preset\<lparr>max_attempts := 2 ^ 32 - 1, retry_backoff_base := 0,
        retry_backoff_max := 0, keep_done_jobs := None\<rparr>,
      queue_config = [TIMER_QUEUE \<mapsto> preset\<lparr>max_attempts := 2 ^ 32 - 1\<rparr>]\<rparr>"

section \<open>Shared state\<close>

record 'q world =
  w_queue :: 'q
  w_held :: held

text \<open>\<open>from_queue\<close>: no claim is held when a store opens.\<close>

definition from_queue :: "'q \<Rightarrow> 'q world" where
  "from_queue q = \<lparr>w_queue = q, w_held = (\<lambda>_. None)\<rparr>"

definition shared_now :: "('q, 'x) env_scheme \<Rightarrow> 'q world \<Rightarrow> i64" where
  "shared_now E w = clamp_i64 (q_now_ms E (w_queue w))"

definition shared_txn :: "('q, 'x) env_scheme \<Rightarrow> store_options \<Rightarrow> 'q world \<Rightarrow> 'q txn" where
  "shared_txn E opts w = new_txn (w_queue w) (w_held w) (preload_max opts) (shared_now E w)"

text \<open>One transaction under the lock.\<close>

definition locked ::
  "('q, 'x) env_scheme \<Rightarrow> store_options \<Rightarrow> ('q txn, 'a) tx \<Rightarrow> 'q world \<Rightarrow> (error + 'a) \<times> 'q world" where
  "locked E opts m w = (case m (shared_txn E opts w) of
     (r, t) \<Rightarrow> (r, \<lparr>w_queue = queue t, w_held = held t\<rparr>))"

text \<open>\<open>process\<close> of the timer worker, on a claimed job's payload.\<close>

definition process_timer ::
  "('q, 'x) env_scheme \<Rightarrow> store_options \<Rightarrow> blob \<Rightarrow> 'q world \<Rightarrow> (error + unit) \<times> 'q world" where
  "process_timer E opts payload w = (case from_slice E ''Timer'' dec_timer payload of
     Inl e \<Rightarrow> (Inl e, w)
   | Inr tm \<Rightarrow> locked E opts (fire E tm) w)"

section \<open>What a transaction under the lock keeps\<close>

text \<open>A store whose queue keeps its contract and whose records are good.\<close>

definition serving :: "('q, 'x) env_scheme \<Rightarrow> ('q \<Rightarrow> store) \<Rightarrow> 'q world \<Rightarrow> bool" where
  "serving E kv w \<longleftrightarrow> queue_contract E kv \<and> good E (kv (w_queue w))"

definition abs_world :: "('q, 'x) env_scheme \<Rightarrow> ('q \<Rightarrow> store) \<Rightarrow> 'q world \<Rightarrow> protocol" where
  "abs_world E kv w = abs_store E (kv (w_queue w))"

lemma shared_txn_simps [simp]:
  "queue (shared_txn E opts w) = w_queue w" "held (shared_txn E opts w) = w_held w"
  "now (shared_txn E opts w) = shared_now E w"
  by (simp_all add: shared_txn_def new_txn_def)

lemma begun_shared: "serving E kv w \<Longrightarrow> begun E kv (shared_txn E opts w)"
  unfolding shared_txn_def by (rule begun_new_txn) (simp add: serving_def)

lemma locked_answers:
  assumes "serving E kv w" "wp m (answers E kv (shared_txn E opts w) Q) (shared_txn E opts w)"
    and "locked E opts m w = (r, w')"
  shows "serving E kv w'" "protocol_step\<^sup>*\<^sup>* (abs_world E kv w) (abs_world E kv w')"
    and "r = Inl e \<Longrightarrow> \<exists>x. e = Storage x"
    and "r = Inr x \<Longrightarrow> Q x (kv (w_queue w'))"
    and "r = Inl e \<Longrightarrow> kv (w_queue w') = kv (w_queue w) \<or> (\<exists>x. Q x (kv (w_queue w')))"
proof -
  obtain t where t: "m (shared_txn E opts w) = (r, t)" "w' = \<lparr>w_queue = queue t, w_held = held t\<rparr>"
    using assms(3) by (auto simp: locked_def split: prod.splits)
  have a: "answers E kv (shared_txn E opts w) Q r t" using wpD [OF assms(2) t(1)] .
  show "serving E kv w'" "protocol_step\<^sup>*\<^sup>* (abs_world E kv w) (abs_world E kv w')"
    using a assms(1) t(2) by (simp_all add: serving_def answers_def abs_world_def)
  show "r = Inl e \<Longrightarrow> \<exists>x. e = Storage x" "r = Inr x \<Longrightarrow> Q x (kv (w_queue w'))"
    "r = Inl e \<Longrightarrow> kv (w_queue w') = kv (w_queue w) \<or> (\<exists>x. Q x (kv (w_queue w')))"
    using a t(2) by (auto simp: answers_def)
qed

lemma process_timer_serving:
  assumes "serving E kv w" "process_timer E opts payload w = (r, w')"
  shows "serving E kv w'" "protocol_step\<^sup>*\<^sup>* (abs_world E kv w) (abs_world E kv w')"
  using assms locked_answers [OF assms(1) fire_spec [OF begun_shared [OF assms(1)]], of opts]
  by (auto simp: process_timer_def serving_def split: sum.splits)

end
