(* ===== verification/Network.thy ===== *)
theory Network
  imports Store
begin

text \<open>
  \<open>src/network.rs\<close>: the addresses of a network, its builder, the requests it applies, the loops
  that deliver the jobs of its addresses to its subscribers, and their start and stop.
\<close>

section \<open>Networks\<close>

text \<open>A delivery loop is named by its address and queue; a subscriber by a number.\<close>

record delivery_loop =
  dl_address :: string
  dl_queue :: string

record network =
  n_pid :: string
  n_group :: string
  n_unicast :: string
  n_anycast :: string
  n_subscribers :: "nat list"
  n_workers :: "delivery_loop list"

record network_builder =
  b_pid :: "string option"
  b_group :: "string option"

definition new_builder :: network_builder where
  "new_builder = \<lparr>b_pid = None, b_group = None\<rparr>"

definition with_pid :: "string \<Rightarrow> network_builder \<Rightarrow> network_builder" where
  "with_pid i b = b\<lparr>b_pid := Some i\<rparr>"

definition with_group :: "string \<Rightarrow> network_builder \<Rightarrow> network_builder" where
  "with_group g b = b\<lparr>b_group := Some g\<rparr>"

definition anycast_address :: "string \<Rightarrow> string" where
  "anycast_address grp = ''poll://any@'' @ grp"

definition unicast_address :: "string \<Rightarrow> string \<Rightarrow> string" where
  "unicast_address grp pid = ''poll://uni@'' @ grp @ ''/'' @ pid"

text \<open>
  The format \<open>{:x}\<close> of a number, and \<open>generated_pid\<close>: the process id, the nanoseconds since the
  epoch and the number of ids generated before.  \<open>generated\<close> below is its result.
\<close>

fun show_hex :: "nat \<Rightarrow> string" where
  "show_hex n = (if n < 16 then [hex_lower n] else show_hex (n div 16) @ [hex_lower (n mod 16)])"

declare show_hex.simps [simp del]

definition generated_pid :: "nat \<Rightarrow> nat \<Rightarrow> nat \<Rightarrow> string" where
  "generated_pid process nanos n = show_hex process @ show_hex nanos @ show_hex n"

definition build :: "string \<Rightarrow> network_builder \<Rightarrow> network" where
  "build generated b =
     (let pid = (case b_pid b of None \<Rightarrow> generated | Some p \<Rightarrow> p);
          grp = (case b_group b of None \<Rightarrow> ''default'' | Some g \<Rightarrow> g)
      in \<lparr>n_pid = pid, n_group = grp, n_unicast = unicast_address grp pid,
          n_anycast = anycast_address grp, n_subscribers = [], n_workers = []\<rparr>)"

definition target_resolver :: "string \<Rightarrow> string" where
  "target_resolver tgt = ''poll://any@'' @ tgt"

definition start :: "('q, 'x) env_scheme \<Rightarrow> network \<Rightarrow> network" where
  "start E n =
     (if n_workers n \<noteq> [] then n
      else n\<lparr>n_workers := map (\<lambda>address. \<lparr>dl_address = address, dl_queue = address_queue E address\<rparr>)
        [n_unicast n, n_anycast n]\<rparr>)"

definition stop :: "network \<Rightarrow> network" where
  "stop n = n\<lparr>n_workers := [], n_subscribers := []\<rparr>"

definition recv :: "nat \<Rightarrow> network \<Rightarrow> network" where
  "recv callback n = n\<lparr>n_subscribers := n_subscribers n @ [callback]\<rparr>"

section \<open>Requests\<close>

definition error_text :: "('q, 'x) env_scheme \<Rightarrow> error \<Rightarrow> string" where
  "error_text E e = (case e of
     Storage q \<Rightarrow> ''storage error: '' @ x_queue_error_text E q
   | Decode m \<Rightarrow> ''stored record does not decode: '' @ m
   | Panic m \<Rightarrow> m)"

text \<open>
  \<open>send_timed\<close>: the time and the response, or \<open>None\<close> when the handler panics.  A malformed
  envelope is answered without the lock.
\<close>

definition reply_of :: "('q, 'x) env_scheme \<Rightarrow> error + reply \<Rightarrow> reply option" where
  "reply_of E r = (case r of
     Inr reply \<Rightarrow> Some reply
   | Inl (Panic _) \<Rightarrow> None
   | Inl e \<Rightarrow> Some (err 500 (error_text E e)))"

definition send_timed ::
  "('q, 'x) env_scheme \<Rightarrow> store_options \<Rightarrow> string \<Rightarrow> 'q world \<Rightarrow> (i64 \<times> string) option \<times> 'q world" where
  "send_timed E opts raw w = (case parse_request E raw of
     Inl (kind, corr_id, reply) \<Rightarrow>
       (Some (shared_now E w, x_json_text E (response kind corr_id reply)), w)
   | Inr request \<Rightarrow>
       (case locked E opts (handle E (rq_kind request) (hd_corr_id (rq_head request)) (rq_data request)) w of
          (r, w') \<Rightarrow>
            (map_option (\<lambda>reply. (shared_now E w,
               x_json_text E (response (rq_kind request) (hd_corr_id (rq_head request)) reply)))
               (reply_of E r), w')))"

definition send :: "('q, 'x) env_scheme \<Rightarrow> store_options \<Rightarrow> string \<Rightarrow> 'q world \<Rightarrow> string option \<times> 'q world" where
  "send E opts raw w = (case send_timed E opts raw w of (out, w') \<Rightarrow> (map_option snd out, w'))"

section \<open>Delivery\<close>

text \<open>
  \<open>deliver\<close> of a loop: the message is passed to every subscriber, after the kernel has
  committed what the delivery does.
\<close>

definition deliver_claim ::
  "('q, 'x) env_scheme \<Rightarrow> store_options \<Rightarrow> nat list \<Rightarrow> claim \<Rightarrow> 'q world \<Rightarrow>
   (error + (nat \<times> string) list) \<times> 'q world" where
  "deliver_claim E opts subscribers c w = (case locked E opts (deliver E c) w of
     (Inl e, w') \<Rightarrow> (Inl e, w')
   | (Inr None, w') \<Rightarrow> (Inr [], w')
   | (Inr (Some message), w') \<Rightarrow>
       (Inr (map (\<lambda>s. (s, x_json_text E message)) subscribers), w'))"

text \<open>
  One round of \<open>run\<close> that is not stopped: whether the loop goes on, and what it has passed to
  the subscribers.  A failed claim ends the loop and a failed delivery does not.
\<close>

definition delivery_round ::
  "('q, 'x) env_scheme \<Rightarrow> store_options \<Rightarrow> delivery_loop \<Rightarrow> nat list \<Rightarrow> 'q world \<Rightarrow>
   bool \<times> (nat \<times> string) list \<times> 'q world" where
  "delivery_round E opts l subscribers w =
     (case q_claim E (w_queue w) (dl_queue l) (retry_timeout opts) of
        (Inl e, q') \<Rightarrow> (False, [], w\<lparr>w_queue := q'\<rparr>)
      | (Inr None, q') \<Rightarrow> (True, [], w\<lparr>w_queue := q'\<rparr>)
      | (Inr (Some c), q') \<Rightarrow>
          (case deliver_claim E opts subscribers c (w\<lparr>w_queue := q'\<rparr>) of
             (Inl e, w') \<Rightarrow> (True, [], w')
           | (Inr messages, w') \<Rightarrow> (True, messages, w')))"

section \<open>What networks keep\<close>

lemma build_addresses:
  "n_unicast (build g b) = unicast_address (n_group (build g b)) (n_pid (build g b))"
  "n_anycast (build g b) = anycast_address (n_group (build g b))"
  by (simp_all add: build_def Let_def)

text \<open>
  The ids generated in one process are distinct while the clock's readings have one width.
\<close>

lemma show_hex_inject: "show_hex m = show_hex n \<longleftrightarrow> m = n"
proof
  have hex: "a < 16 \<Longrightarrow> b < 16 \<Longrightarrow> hex_lower a = hex_lower b \<Longrightarrow> a = b" for a b
    by (auto simp: hex_lower_def char_of_eq_iff take_bit_eq_mod split: if_splits)
  have some: "show_hex k \<noteq> []" "[] \<noteq> show_hex k" for k by (subst show_hex.simps, simp)+
  show "show_hex m = show_hex n \<Longrightarrow> m = n"
  proof (induction m arbitrary: n rule: show_hex.induct)
    case (1 m)
    consider "m < 16" "n < 16" | "\<not> m < 16" "\<not> n < 16" | "m < 16 \<longleftrightarrow> \<not> n < 16" by blast
    then show ?case
    proof cases
      case 1
      then show ?thesis using "1.prems" hex by (simp add: show_hex.simps [of m] show_hex.simps [of n])
    next
      case 2
      then have "show_hex (m div 16) = show_hex (n div 16)" "hex_lower (m mod 16) = hex_lower (n mod 16)"
        using "1.prems" by (simp_all add: show_hex.simps [of m] show_hex.simps [of n])
      then have "m div 16 = n div 16" "m mod 16 = n mod 16"
        using "1.IH" 2 hex by simp_all
      then show ?thesis by (metis div_mult_mod_eq)
    next
      case 3
      then show ?thesis
        using "1.prems" some by (cases "m < 16") (simp_all add: show_hex.simps [of m] show_hex.simps [of n])
    qed
  qed
qed simp

lemma generated_pid_distinct:
  assumes "length (show_hex t) = length (show_hex u)"
  shows "generated_pid process t m = generated_pid process u n \<longleftrightarrow> t = u \<and> m = n"
  using assms by (auto simp: generated_pid_def show_hex_inject)

lemma start_idem: "start E (start E n) = start E n"
  by (simp add: start_def)

lemma send_timed_serving:
  assumes "serving E kv w" "send_timed E opts raw w = (out, w')"
  shows "serving E kv w'" "protocol_step\<^sup>*\<^sup>* (abs_world E kv w) (abs_world E kv w')" "out \<noteq> None"
proof -
  have c: "queue_contract E kv" using assms(1) by (simp add: serving_def)
  note handled = locked_answers [OF assms(1) handle_safe [OF begun_shared [OF assms(1)] c]]
  have "serving E kv w' \<and> protocol_step\<^sup>*\<^sup>* (abs_world E kv w) (abs_world E kv w') \<and> out \<noteq> None"
  proof (cases "parse_request E raw")
    case (Inl x)
    with assms show ?thesis by (cases x) (auto simp: send_timed_def)
  next
    case (Inr request)
    obtain r u where run: "locked E opts (handle E (rq_kind request) (hd_corr_id (rq_head request))
        (rq_data request)) w = (r, u)"
      by (metis surj_pair)
    have "reply_of E r \<noteq> None"
      using handled(3) [OF run] by (cases r) (auto simp: reply_of_def)
    with Inr assms(2) run handled(1,2) [OF run] show ?thesis
      by (auto simp: send_timed_def)
  qed
  then show "serving E kv w'" "protocol_step\<^sup>*\<^sup>* (abs_world E kv w) (abs_world E kv w')" "out \<noteq> None"
    by simp_all
qed

text \<open>A payload that does not decode is refused before the transaction does anything.\<close>

lemma deliver_undecodable:
  assumes "from_slice E ''Delivery'' dec_delivery (c_payload c) = Inl e"
  shows "deliver E c t = (Inl e, t)"
  using assms by (simp add: deliver_def run_bnd)

lemma deliver_claim_serving:
  assumes "serving E kv w" "deliver_claim E opts subs c w = (r, w')"
  shows "serving E kv w'" "protocol_step\<^sup>*\<^sup>* (abs_world E kv w) (abs_world E kv w')"
proof -
  have q: "queue_contract E kv" using assms(1) by (simp add: serving_def)
  obtain r0 where run: "locked E opts (deliver E c) w = (r0, w')"
    using assms(2) by (auto simp: deliver_claim_def split: prod.splits sum.splits option.splits)
  have "serving E kv w' \<and> protocol_step\<^sup>*\<^sup>* (abs_world E kv w) (abs_world E kv w')"
  proof (cases "from_slice E ''Delivery'' dec_delivery (c_payload c)")
    case (Inl e)
    with run assms(1) show ?thesis
      by (auto simp: locked_def deliver_undecodable serving_def abs_world_def)
  next
    case (Inr d)
    show ?thesis
    proof (cases d)
      case (Execute i)
      with Inr locked_answers(1,2) [OF assms(1) deliver_execute_spec [OF begun_shared [OF assms(1)] q] run]
      show ?thesis by simp
    next
      case (Unblock m)
      with Inr locked_answers(1,2) [OF assms(1) deliver_unblock_spec [OF begun_shared [OF assms(1)] q] run]
      show ?thesis by simp
    qed
  qed
  then show "serving E kv w'" "protocol_step\<^sup>*\<^sup>* (abs_world E kv w) (abs_world E kv w')"
    by simp_all
qed

lemma delivery_round_serving:
  assumes "serving E kv w" "delivery_round E opts l subs w = (go, out, w')"
  shows "serving E kv w'" "protocol_step\<^sup>*\<^sup>* (abs_world E kv w) (abs_world E kv w')"
proof -
  obtain r q' where claim: "q_claim E (w_queue w) (dl_queue l) (retry_timeout opts) = (r, q')"
    by (metis surj_pair)
  have "kv q' = kv (w_queue w)"
    using contract_claims(4) [OF _ claim] assms(1) by (simp add: serving_def)
  then have s: "serving E kv (w\<lparr>w_queue := q'\<rparr>)" "abs_world E kv (w\<lparr>w_queue := q'\<rparr>) = abs_world E kv w"
    using assms(1) by (simp_all add: serving_def abs_world_def)
  have "serving E kv w' \<and> protocol_step\<^sup>*\<^sup>* (abs_world E kv w) (abs_world E kv w')"
    using assms(2) claim s deliver_claim_serving [OF s(1), of opts subs]
    by (auto simp: delivery_round_def split: sum.splits option.splits prod.splits)
  then show "serving E kv w'" "protocol_step\<^sup>*\<^sup>* (abs_world E kv w) (abs_world E kv w')"
    by simp_all
qed

end
