(* ===== verification/World.thy ===== *)
theory World
  imports Network
begin

text \<open>
  The running system: requests, timers and deliveries interleaved in any order, with whatever
  the queue and the application do in between.  Two locales state what makes an invariant of
  a transition system and a refinement of one by another; they are interpreted on the system.
\<close>

section \<open>Invariants and refinements\<close>

locale invariant_machine =
  fixes step :: "'s \<Rightarrow> 's \<Rightarrow> bool" and inv :: "'s \<Rightarrow> bool"
  assumes step_inv: "inv s \<Longrightarrow> step s s' \<Longrightarrow> inv s'"
begin

lemma reach_inv: "step\<^sup>*\<^sup>* s s' \<Longrightarrow> inv s \<Longrightarrow> inv s'"
  by (induction rule: rtranclp_induct) (auto intro: step_inv)

end

locale refining_machine = invariant_machine step inv
  for step :: "'s \<Rightarrow> 's \<Rightarrow> bool" and inv :: "'s \<Rightarrow> bool" +
  fixes abs :: "'s \<Rightarrow> 'a" and astep :: "'a \<Rightarrow> 'a \<Rightarrow> bool"
  assumes step_refines: "inv s \<Longrightarrow> step s s' \<Longrightarrow> astep\<^sup>*\<^sup>* (abs s) (abs s')"
begin

lemma reach_refines: "step\<^sup>*\<^sup>* s s' \<Longrightarrow> inv s \<Longrightarrow> astep\<^sup>*\<^sup>* (abs s) (abs s')"
  by (induction rule: rtranclp_induct) (auto intro: rtranclp_trans step_refines dest: reach_inv)

text \<open>What the abstract machine keeps, the system keeps.\<close>

lemma reach_stable:
  assumes "\<And>a a'. P a \<Longrightarrow> astep a a' \<Longrightarrow> P a'" "step\<^sup>*\<^sup>* s s'" "inv s" "P (abs s)"
  shows "P (abs s')"
  using reach_refines [OF assms(2,3)] assms(4)
  by (induction rule: rtranclp_induct) (auto intro: assms(1))

end

section \<open>The system\<close>

text \<open>
  The keys of the crate.  The application and the queue itself (clock, reaper, claims) may
  change everything else.
\<close>

definition same_namespace :: "store \<Rightarrow> store \<Rightarrow> bool" where
  "same_namespace V W \<longleftrightarrow> (\<forall>k. prefix ''resonate/'' k \<longrightarrow> W k = V k)"

text \<open>
  The steps of the system, in any order.  A round of a delivery loop claims a job and delivers it;
  since the loop claims outside the lock, a claim may also be delivered any time after it was
  taken (\<open>in_hand\<close>), with other steps in between.
\<close>

inductive store_step ::
  "('q, 'x) env_scheme \<Rightarrow> ('q \<Rightarrow> store) \<Rightarrow> store_options \<Rightarrow> 'q world \<Rightarrow> 'q world \<Rightarrow> bool"
  for E kv opts where
  request: "send_timed E opts raw w = (out, w') \<Longrightarrow> store_step E kv opts w w'"
| timer: "process_timer E opts payload w = (r, w') \<Longrightarrow> store_step E kv opts w w'"
| delivery: "delivery_round E opts l subs w = (go, out, w') \<Longrightarrow> store_step E kv opts w w'"
| in_hand: "deliver_claim E opts subs c w = (out, w') \<Longrightarrow> store_step E kv opts w w'"
| queue: "same_namespace (kv (w_queue w)) (kv q') \<Longrightarrow> store_step E kv opts w (w\<lparr>w_queue := q'\<rparr>)"
| reopen: "same_namespace (kv (w_queue w)) (kv q') \<Longrightarrow> store_step E kv opts w (from_queue q')"

lemma crate_keys [simp]:
  "prefix ''resonate/'' (promise_key i)" "prefix ''resonate/'' (task_key i)"
  "prefix ''resonate/'' (schedule_key i)"
  by (simp_all add: promise_key_def task_key_def schedule_key_def prefix_defs)

lemma same_namespace_records:
  assumes "same_namespace V W"
  shows "promise_in E W = promise_in E V" "task_in E W = task_in E V" "schedule_in E W = schedule_in E V"
    and "good E V \<Longrightarrow> good E W" "abs_store E W = abs_store E V"
proof -
  have keys: "W (promise_key i) = V (promise_key i)" "W (task_key i) = V (task_key i)"
    "W (schedule_key i) = V (schedule_key i)" for i
    using assms by (simp_all add: same_namespace_def)
  show eq: "promise_in E W = promise_in E V" "task_in E W = task_in E V" "schedule_in E W = schedule_in E V"
    by (simp_all add: in_defs record_at_def fun_eq_iff keys)
  show "good E V \<Longrightarrow> good E W" "abs_store E W = abs_store E V"
    by (simp_all add: good_def readable_def abs_store_def eq keys)
qed

lemma store_step_serving:
  assumes "serving E kv w" "store_step E kv opts w w'"
  shows "serving E kv w' \<and> protocol_step\<^sup>*\<^sup>* (abs_world E kv w) (abs_world E kv w')"
  using assms(2)
proof cases
  case (request raw out)
  then show ?thesis using send_timed_serving [OF assms(1)] by blast
next
  case (timer payload r)
  then show ?thesis using process_timer_serving [OF assms(1)] by blast
next
  case (delivery l subs go out)
  then show ?thesis using delivery_round_serving [OF assms(1)] by blast
next
  case (in_hand subs c out)
  then show ?thesis using deliver_claim_serving [OF assms(1)] by blast
next
  case (queue q')
  then show ?thesis
    using assms(1) same_namespace_records(4,5) [OF queue(2), of E]
    by (simp add: serving_def abs_world_def)
next
  case (reopen q')
  then show ?thesis
    using assms(1) same_namespace_records(4,5) [OF reopen(2), of E]
    by (simp add: serving_def abs_world_def from_queue_def)
qed

interpretation served:
  refining_machine "store_step E kv opts" "serving E kv" "abs_world E kv" protocol_step
  for E :: "('q, 'x) env_scheme" and kv :: "'q \<Rightarrow> store" and opts :: store_options
  by unfold_locales (use store_step_serving in blast)+

text \<open>A store that is empty is good.\<close>

lemma good_empty: "(\<And>k. prefix ''resonate/'' k \<Longrightarrow> V k = None) \<Longrightarrow> good E V"
  by (simp add: good_def readable_def in_defs record_at_def)

end
