(* ===== verification/Outcomes.thy ===== *)
theory Outcomes
  imports World
begin

text \<open>
  What every operation does to the records, in a few kinds of change: a relation between the
  store an operation begins with and the one it leaves behind holds of every request, timer and
  delivery when it holds of each of these changes and of the deadlines before them.  The proofs
  read the specifications of the handlers and look at no handler again.
\<close>

section \<open>The interface\<close>

text \<open>The operation \<open>m\<close>, begun in \<open>t\<close>, leaves a store in the relation \<open>R\<close> to the one it began with.\<close>

abbreviation related ::
  "('q, 'x) env_scheme \<Rightarrow> (i64 \<Rightarrow> store \<Rightarrow> store \<Rightarrow> bool) \<Rightarrow> ('q \<Rightarrow> store) \<Rightarrow> ('q txn, 'a) tx \<Rightarrow> 'q txn \<Rightarrow> bool" where
  "related E R kv m t \<equiv> wp m (answers E kv t (\<lambda>_ W. R (now t) (kv (queue t)) W)) t"

locale outcome_relation =
  fixes E :: "('q, 'x) env_scheme" and R :: "i64 \<Rightarrow> store \<Rightarrow> store \<Rightarrow> bool"
  assumes of_same: "R time V V"
    and of_records: "R time V X \<Longrightarrow> promise_in E W = promise_in E X \<Longrightarrow> task_in E W = task_in E X \<Longrightarrow> R time V W"
    and of_deadlines: "good E D \<Longrightarrow> deadlines E time ids V D \<Longrightarrow> R time D W \<Longrightarrow> R time V W"
    and of_promise: "promise_in E V i = Some p \<Longrightarrow> only_promise E i p' V W \<Longrightarrow> sp_record p' = sp_record p \<Longrightarrow>
      set (sp_callbacks p) \<subseteq> set (sp_callbacks p') \<Longrightarrow> R time V W"
    and of_creation: "good E V \<Longrightarrow> created_store E mode r V W \<Longrightarrow> promise_in E V (p_id r) = None \<Longrightarrow> R time V W"
    and of_settlement: "good E V \<Longrightarrow> promise_in E V i = Some p \<Longrightarrow> is_pending (sp_record p) \<Longrightarrow>
      settles (sp_record p) r \<Longrightarrow> settled_store E time i p r V W \<Longrightarrow> R time V W"
    and of_resumption: "task_change E i (resumed w j) V W \<Longrightarrow> R time V W"
    and of_move: "task_in E V i = Some k \<Longrightarrow> task_write k k' \<Longrightarrow> t_state k' \<noteq> TSuspended \<Longrightarrow>
      only_task E i k' V W \<Longrightarrow> R time V W"
    and of_suspension: "task_in E V i = Some k \<Longrightarrow> task_write k k' \<Longrightarrow> t_state k' = TSuspended \<Longrightarrow>
      registered_on E i ids V X \<Longrightarrow> only_task E i k' X W \<Longrightarrow>
      j \<in> ids \<Longrightarrow> promise_in E V j = Some p \<Longrightarrow> is_pending (sp_record p) \<Longrightarrow> R time V W"
begin

lemma related_answers:
  assumes "wp m (answers E kv t Q) t" "\<And>x W. Q x W \<Longrightarrow> R (now t) (kv (queue t)) W"
  shows "related E R kv m t"
  by (rule wp_answers_mono [OF assms(1)]) (use assms(2) in blast)

lemma related_deadlines:
  assumes "wp m (answers E kv t (after_deadlines E (now t) ids (kv (queue t)) S)) t"
    and "\<And>D x W. good E D \<Longrightarrow> deadlines E (now t) ids (kv (queue t)) D \<Longrightarrow> S D x W \<Longrightarrow> R (now t) D W"
  shows "related E R kv m t"
  by (rule related_answers [OF assms(1)]) (auto simp: after_deadlines_def intro: of_deadlines assms(2))

lemma related_or_lost:
  assumes "wp m (answers E kv t (or_lost (kv (queue t)) (after_deadlines E (now t) ids (kv (queue t)) S))) t"
    and "\<And>D x W. good E D \<Longrightarrow> deadlines E (now t) ids (kv (queue t)) D \<Longrightarrow> S D x W \<Longrightarrow> R (now t) D W"
  shows "related E R kv m t"
  by (rule related_answers [OF assms(1)])
    (auto simp: or_lost_def after_deadlines_def of_same intro: of_deadlines assms(2))

lemma related_ret: "begun E kv t \<Longrightarrow> related E R kv (ret r) t"
  by (rule answers_ret) (simp_all add: begun_inv of_same)

lemma related_refused: "begun E kv t \<Longrightarrow> \<exists>r. m = ret r \<and> P r \<Longrightarrow> related E R kv m t"
  by (elim exE conjE, hypsubst, rule related_ret)

section \<open>The kinds of change\<close>

lemma of_created_or_found: "good E D \<Longrightarrow> created_or_found E time d D reply W \<Longrightarrow> R time D W"
  by (auto simp: created_or_found_def of_same split: option.splits
      intro: of_creation [where r = "created_record time d None"])

lemma of_settled_promise:
  assumes "good E D" "deadlines E time ids V D" "ps_id d \<in> ids" "settled_promise E time d D reply W"
  shows "R time D W"
proof (cases "promise_in E D (ps_id d)")
  case None
  with assms show ?thesis by (simp add: settled_promise_def of_same)
next
  case (Some p)
  then obtain r where "settled_or_kept E time (ps_state d) (ps_value d) (ps_id d) p D r W"
    using assms(4) by (auto simp: settled_promise_def)
  then show ?thesis
    using of_settlement [OF assms(1) Some _ by_client] deadlines_live(1) [OF assms(2,3) Some]
    by (auto simp: settled_or_kept_def of_same split: if_splits)
qed

lemma of_callback: "callback_registered E d D reply W \<Longrightarrow> R time D W"
  using of_promise [of D _ _ "with_callback p (cb_awaiter d)" W for p] of_resumption
  by (auto simp: callback_registered_def of_same split: option.splits if_splits)

lemma of_listener: "listener_registered E d D reply W \<Longrightarrow> R time D W"
  using of_promise [of D _ _ "with_listener p (li_address d)" W for p]
  by (auto simp: listener_registered_def of_same split: option.splits if_splits)

lemmas write_rules = task_write_def task_moves_simps is_acquired_at_def

lemma of_acquisition:
  assumes "task_in E V i = Some k" "t_state k = TPending" "only_task E i (acquired k pid ttl) V W"
  shows "R time V W"
  by (rule of_move [OF assms(1) _ _ assms(3)]) (simp_all add: write_rules assms(2))

lemma of_transition:
  assumes "task_in E V i = Some k" "only_task E i ((transition k st)\<lparr>t_job := job\<rparr>) V W"
    and "(t_state k, st) \<in> {(TAcquired, TPending), (THalted, TPending)}
      \<or> st = THalted \<and> t_state k \<in> {TPending, TAcquired, TSuspended}"
  shows "R time V W"
  by (rule of_move [OF assms(1) _ _ assms(2)]) (use assms(3) in \<open>auto simp: write_rules\<close>)

lemma transition_job [simp]: "(transition k st)\<lparr>t_job := t_job k\<rparr> = transition k st"
  by (simp add: transition_def)

lemma of_acquired: "acquired_task E d D reply W \<Longrightarrow> R time D W"
  using of_acquisition by (auto simp: acquired_task_def of_same split: option.splits if_splits)

lemma of_moved:
  "released_task E d D reply W \<Longrightarrow> R time D W" "halted_task E i D reply W \<Longrightarrow> R time D W"
  "continued_task E i D reply W \<Longrightarrow> R time D W"
proof -
  show "released_task E d D reply W \<Longrightarrow> R time D W"
    using of_transition [where i = "tv_id d" and k = k and job = "t_job k" and st = TPending for k]
    by (auto simp: released_task_def of_same is_acquired_at_def split: option.splits if_splits)
  show "halted_task E i D reply W \<Longrightarrow> R time D W"
    using of_transition [where i = i and k = k and job = "t_job k" and st = THalted for k]
    by (auto simp: halted_task_def of_same split: option.splits if_splits) (metis task_state.exhaust)
  show "continued_task E i D reply W \<Longrightarrow> R time D W"
    using of_transition [where i = i and job = "Some j" and st = TPending for j]
    by (auto simp: continued_task_def of_same split: option.splits if_splits)
qed

lemma of_fulfilled:
  assumes "good E D" "deadlines E time ids V D" "tf_id d \<in> ids" "fulfilled E time d D reply W"
  shows "R time D W"
proof -
  consider "W = D" | p where "promise_in E D (tf_id d) = Some p" "is_pending (sp_record p)"
      "settled_store E time (tf_id d) p (settled_record time (ps_state (ac_data (tf_action d)))
        (ps_value (ac_data (tf_action d))) (sp_record p)) D W"
    using assms(4) by (auto simp: fulfilled_def Let_def split: option.splits)
  then show ?thesis
  proof cases
    case (2 p)
    show ?thesis
      by (rule of_settlement [OF assms(1) 2(1,2) by_client 2(3)]) (rule deadlines_live(1) [OF assms(2,3) 2(1,2)])
  qed (simp add: of_same)
qed

lemma of_suspended:
  assumes "suspended E i v ids D reply W" "ids \<noteq> []"
  shows "R time D W"
proof (cases "W = D")
  case False
  then obtain k where k: "task_in E D i = Some k" "is_acquired_at k v"
    using assms(1) by (auto simp: suspended_def split: option.splits)
  with False assms(1) obtain ps where ps: "awaitable E D ids = Inr ps"
    by (auto simp: suspended_def split: sum.splits)
  show ?thesis
  proof (cases "\<exists>p \<in> set ps. \<not> is_pending (sp_record p)")
    case True
    with False assms(1) k ps have "only_task E i (k\<lparr>t_resumes := om_empty\<rparr>) D W"
      by (simp add: suspended_def)
    then show ?thesis by (rule of_move [OF k(1), rotated 2]) (use k(2) in \<open>simp_all add: write_rules\<close>)
  next
    case pending: False
    with False assms(1) k ps obtain X where X: "registered_on E i (set ids) D X"
      "only_task E i (transition (k\<lparr>t_resumes := om_empty\<rparr>) TSuspended) X W"
      by (auto simp: suspended_def)
    obtain j rest where ids: "ids = j # rest" using assms(2) by (cases ids) auto
    then obtain p where p: "promise_in E D j = Some p" "p \<in> set ps"
      using awaitable_promises [OF ps] by (auto simp: list_all2_Cons1)
    show ?thesis
      by (rule of_suspension [OF k(1) _ _ X _ p(1)]) (use pending p k(2) ids in \<open>auto simp: write_rules\<close>)
  qed
qed (simp add: of_same)

lemma of_task_created:
  assumes "good E D" "task_created E time d D reply W"
  shows "R time D W"
proof -
  let ?c = "ac_data (tc_action d)"
  consider "W = D" | k where "task_in E D (pc_id ?c) = Some k" "t_state k = TPending"
      "only_task E (pc_id ?c) (acquired k (tc_pid d) (tc_ttl d)) D W"
    | "promise_in E D (pc_id ?c) = None"
      "created_store E (Acquire (tc_pid d) (tc_ttl d)) (created_record time ?c None) D W"
    using assms(2) by (auto simp: task_created_def Let_def split: option.splits if_splits)
  then show ?thesis
  proof cases
    case (2 k)
    then show ?thesis by (rule of_acquisition)
  next
    case 3
    show ?thesis by (rule of_creation [OF assms(1) 3(2)]) (simp add: 3(1))
  qed (simp add: of_same)
qed

lemma of_fenced:
  assumes "good E D" "deadlines E time ids V D" "a \<in> ids" "as_str (jget j ''id'') = Some a"
    and "fenced E time kind j D inner W"
  shows "R time D W"
  using assms(5) unfolding fenced_def
proof (elim disjE exE conjE)
  show "R time D W" if "created_or_found E time d D inner W" for d
    by (rule of_created_or_found [OF assms(1) that])
  show "R time D W" if "dec_promise_settle j = Some d" "settled_promise E time d D inner W" for d
    using of_settled_promise [OF assms(1,2) _ that(2)] dec_settle_id [OF that(1) assms(4)] assms(3) by simp
qed

lemma of_schedules: "only_schedules E V W \<Longrightarrow> R time V W"
  using of_records [OF of_same] by (simp add: only_schedules_def)

lemma of_fired:
  assumes "good E V" "fired_store E time s V W"
  shows "R time V W"
proof -
  obtain X where X: "promise_in E W = promise_in E X" "task_in E W = task_in E X" "R time V X"
    using assms(2) of_creation [OF assms(1)] of_same [of time V] by (auto simp: fired_store_def split: if_splits)
  show ?thesis by (rule of_records [OF X(3,1,2)])
qed

lemma of_timer:
  assumes "good E V" "timer_fired E time tm V W"
  shows "R time V W"
proof (cases tm)
  case (PromiseTimeout i)
  then consider "W = V" | p where "promise_in E V i = Some p" "is_pending (sp_record p)"
      "settled_store E time i p (expired_record (sp_record p)) V W"
    using assms(2) by (auto simp: timer_fired_def split: option.splits if_splits)
  then show ?thesis
    using of_settlement [OF assms(1) _ _ by_deadline] of_same by cases blast+
next
  case (ScheduleAt i at)
  then consider "W = V" | s where "fired_store E time s V W"
    using assms(2) by (auto simp: timer_fired_def split: option.splits if_splits)
  then show ?thesis using of_same of_fired [OF assms(1)] by cases blast+
qed

lemma of_delivered: "delivered E i D message W \<Longrightarrow> R time D W"
  using of_transition [where i = i and k = k and job = "t_job k" and st = TPending for k]
  by (auto simp: delivered_def of_same split: option.splits task_state.splits)

section \<open>Every operation\<close>

lemma promise_requests_related:
  assumes b: "begun E kv t" and c: "queue_contract E kv"
  shows "related E R kv (promise_create E d1) t" "related E R kv (promise_get E i) t"
    "related E R kv (promise_settle E d2) t" "related E R kv (promise_register_callback E d3) t"
    "related E R kv (promise_register_listener E d4) t" "related E R kv (promise_search E d5) t"
proof -
  note unchanged = answers_unchanged [OF b begun_inv [OF b]]
  show "related E R kv (promise_create E d1) t"
    by (cases "validate_create E d1")
      (auto simp: refused_requests of_same intro!: unchanged intro: related_deadlines [OF promise_create_spec [OF b c]]
        of_created_or_found)
  show "related E R kv (promise_register_callback E d3) t"
    by (cases "validate_callback (cb_awaited d3) (cb_awaiter d3)")
      (auto simp: refused_requests of_same intro!: unchanged
        intro: related_deadlines [OF promise_register_callback_spec [OF b c]] of_callback)
  show "related E R kv (promise_register_listener E d4) t"
    by (cases "is_url E (li_address d4)")
      (auto simp: refused_requests of_same intro!: unchanged
        intro: related_deadlines [OF promise_register_listener_spec [OF b c]] of_listener)
  show "related E R kv (promise_get E i) t"
    by (rule related_deadlines [OF promise_get_spec [OF b c]]) (simp add: got_promise_def of_same)
  show "related E R kv (promise_settle E d2) t"
    by (rule related_deadlines [OF promise_settle_spec [OF b c]]) (auto intro: of_settled_promise)
  show "related E R kv (promise_search E d5) t"
    by (rule related_answers [OF promise_search_spec [OF b c]]) (simp add: of_same)
qed

lemma task_requests_related:
  assumes b: "begun E kv t" and c: "queue_contract E kv"
  shows "related E R kv (task_get E i) t" "related E R kv (task_halt E i) t" "related E R kv (task_continue E i) t"
    "related E R kv (task_acquire E d1) t" "related E R kv (task_release E d2) t"
    "related E R kv (task_heartbeat E d3) t" "related E R kv (task_search E d4) t"
proof -
  show "related E R kv (task_get E i) t"
    by (rule related_deadlines [OF task_get_spec [OF b c]]) (simp add: got_task_def of_same)
  show "related E R kv (task_halt E i) t"
    by (rule related_deadlines [OF task_halt_spec [OF b c]]) (rule of_moved)
  show "related E R kv (task_continue E i) t"
    by (rule related_deadlines [OF task_continue_spec [OF b c]]) (rule of_moved)
  show "related E R kv (task_acquire E d1) t"
    by (rule related_deadlines [OF task_acquire_spec [OF b c]]) (rule of_acquired)
  show "related E R kv (task_release E d2) t"
    by (rule related_deadlines [OF task_release_spec [OF b c]]) (rule of_moved)
  show "related E R kv (task_heartbeat E d3) t"
    by (rule related_answers [OF task_heartbeat_spec [OF b c]]) (simp add: of_same)
  show "related E R kv (task_search E d4) t"
    by (rule related_answers [OF task_search_spec [OF b c]]) (simp add: of_same)
qed

lemma settling_requests_related:
  assumes b: "begun E kv t" and c: "queue_contract E kv"
  shows "related E R kv (task_fulfill E d1) t" "related E R kv (task_suspend E d2) t"
    "related E R kv (task_create E d3) t" "related E R kv (task_fence E corr_id d4) t"
proof -
  have "related E R kv (task_fulfill E d1) t"
    if "ac_kind (tf_action d1) = ''promise.settle''" "ps_id (ac_data (tf_action d1)) = tf_id d1"
    by (rule related_or_lost [OF task_fulfill_spec [OF b c that]]) (rule of_fulfilled, auto)
  then show "related E R kv (task_fulfill E d1) t"
    using related_refused [OF b task_fulfill_refused] by blast
  have "related E R kv (task_suspend E d2) t"
    if v: "ts_actions d2 \<noteq> []" "awaited_of (ts_id d2) (ts_actions d2) [] = Inr ids" for ids
  proof (rule related_or_lost [OF task_suspend_spec [OF b c v]])
    have "ids \<noteq> []" using v awaited_of_ids [OF v(2)] by simp
    then show "R (now t) D W" if "suspended E (ts_id d2) (ts_version d2) ids D x W" for D x W
      using of_suspended that by blast
  qed
  then show "related E R kv (task_suspend E d2) t"
    using related_refused [OF b task_suspend_refused] by blast
  have "related E R kv (task_create E d3) t"
    if "ac_kind (tc_action d3) = ''promise.create''" "tc_pid d3 \<noteq> []" "\<not> lt64 (tc_ttl d3) 1"
      "validate_create E (ac_data (tc_action d3)) = None"
      "om_get (pc_tags (ac_data (tc_action d3))) TAG_TARGET = Some tgt"
      "om_get (pc_tags (ac_data (tc_action d3))) TAG_DELAY = None" for tgt
    by (rule related_deadlines [OF task_create_spec [OF b c that]]) (rule of_task_created)
  then show "related E R kv (task_create E d3) t"
    using related_refused [OF b task_create_refused] by blast
  have "related E R kv (task_fence E corr_id d4) t"
    if v: "as_str (jget (ac_data (fe_action d4)) ''id'') = Some a" "a \<noteq> fe_id d4" "origin_of a = origin_of (fe_id d4)" for a
  proof (rule related_answers [OF task_fence_spec [OF b c v]])
    fix x W
    assume "or_rejected (acceptable E (ac_kind (fe_action d4)) (ac_data (fe_action d4))) (kv (queue t))
      (after_deadlines E (now t) {fe_id d4, a} (kv (queue t)) (fence_answer E (now t) corr_id d4)) x W"
    then consider "W = kv (queue t)" | D where "good E D" "deadlines E (now t) {fe_id d4, a} (kv (queue t)) D"
        "fence_answer E (now t) corr_id d4 D x W"
      by (auto simp: or_rejected_def after_deadlines_def)
    then show "R (now t) (kv (queue t)) W"
    proof cases
      case (2 D)
      have "R (now t) D W"
        using 2(3) of_fenced [OF 2(1,2) _ v(1)]
        by (auto simp: fence_answer_def Let_def of_same split: option.splits if_splits)
      then show ?thesis by (rule of_deadlines [OF 2(1,2)])
    qed (simp add: of_same)
  qed
  then show "related E R kv (task_fence E corr_id d4) t"
    using related_refused [OF b task_fence_refused] by blast
qed

lemma schedule_requests_related:
  assumes b: "begun E kv t" and c: "queue_contract E kv"
  shows "related E R kv (schedule_create E d1) t" "related E R kv (schedule_get E i) t"
    "related E R kv (schedule_delete E i) t" "related E R kv (schedule_search E d2) t"
proof -
  have "related E R kv (schedule_create E d1) t"
    if "sd_id d1 \<noteq> []" "CHR '':'' \<notin> set (sd_id d1)" "om_get (sd_promise_tags d1) TAG_TARGET = Some tgt"
      "is_url E tgt" "\<not> lt64 (sd_promise_timeout d1) 0" for tgt
    by (rule related_answers [OF schedule_create_spec [OF b c that]])
      (auto simp: schedule_created_def of_same split: option.splits intro: of_schedules)
  then show "related E R kv (schedule_create E d1) t"
    using related_refused [OF b schedule_create_refused] by blast
  show "related E R kv (schedule_get E i) t"
    by (rule related_answers [OF schedule_get_spec [OF b c]]) (simp add: of_same)
  show "related E R kv (schedule_delete E i) t"
    by (rule related_answers [OF schedule_delete_spec [OF b c]])
      (auto simp: of_same split: option.splits intro: of_schedules)
  show "related E R kv (schedule_search E d2) t"
    by (rule related_answers [OF schedule_search_spec [OF b c]]) (simp add: of_same)
qed

lemma related_parsed:
  assumes "begun E kv t" "\<And>d. related E R kv (h d) t"
  shows "related E R kv (parsed E ty dec data h) t"
  unfolding parsed_def by (intro wp_case_option related_ret assms)

lemma handle_related:
  assumes "begun E kv t" "queue_contract E kv"
  shows "related E R kv (handle E kind corr_id data) t"
  unfolding handle_def
  by (intro wp_if related_parsed related_ret promise_requests_related task_requests_related
      settling_requests_related schedule_requests_related assms)

lemma fire_related:
  assumes b: "begun E kv t" and c: "queue_contract E kv"
  shows "related E R kv (fire E tm) t"
  by (rule related_answers [OF fire_spec [OF b c]]) (use b of_timer begun_def in blast)

lemma deliver_related:
  assumes b: "begun E kv t" and c: "queue_contract E kv"
    and d: "from_slice E ''Delivery'' dec_delivery (c_payload cl) = Inr d"
  shows "related E R kv (deliver E cl) t"
proof (cases d)
  case (Execute i)
  show ?thesis
    by (rule related_deadlines [OF deliver_execute_spec [OF b c]]) (use d Execute of_delivered in auto)
next
  case (Unblock m)
  show ?thesis
    by (rule related_answers [OF deliver_unblock_spec [OF b c]]) (use d Unblock of_same in auto)
qed

end

end
