(* ===== verification/Waiting.thy ===== *)
theory Waiting
  imports Outcomes
begin

text \<open>
  No wake-up is lost: every operation keeps the invariant \<open>waiting\<close> of \<open>Kernel_Specs\<close>, that a
  suspended task is registered on a pending promise or its own promise is past its deadline.
  It holds of each kind of change that \<open>Outcomes\<close> names, and hence of every operation.
\<close>

section \<open>Changes of the records that keep it\<close>

lemma waiting_mono:
  assumes "waiting E time V"
    and "\<And>i k. task_in E W i = Some k \<Longrightarrow> t_state k = TSuspended \<Longrightarrow>
      registered E W i \<or> (\<exists>k0. task_in E V i = Some k0 \<and> t_state k0 = TSuspended)"
    and "\<And>i p. promise_in E V i = Some p \<Longrightarrow> \<exists>p'. promise_in E W i = Some p'
      \<and> sp_record p' = sp_record p \<and> set (sp_callbacks p) \<subseteq> set (sp_callbacks p')"
  shows "waiting E time W"
  unfolding waiting_def
proof (intro allI impI)
  fix i k assume k: "task_in E W i = Some k" "t_state k = TSuspended"
  from assms(2) [OF k] show "registered E W i \<or> overdue E time W i"
  proof
    assume "\<exists>k0. task_in E V i = Some k0 \<and> t_state k0 = TSuspended"
    then consider "registered E V i" | "overdue E time V i" using assms(1) by (auto simp: waiting_def)
    then show ?thesis
    proof cases
      case 1
      then obtain j p where p: "promise_in E V j = Some p" "is_pending (sp_record p)" "i \<in> set (sp_callbacks p)"
        by (auto simp: registered_def)
      with assms(3) [OF p(1)] show ?thesis unfolding registered_def by (metis subsetD)
    next
      case 2
      then show ?thesis using assms(3) unfolding overdue_def by metis
    qed
  qed simp
qed

lemma waiting_same:
  "promise_in E W = promise_in E V \<Longrightarrow> task_in E W = task_in E V \<Longrightarrow> waiting E time W = waiting E time V"
  by (simp add: waiting_def registered_def overdue_def)

lemma waiting_task:
  assumes "waiting E time V" "promise_in E W = promise_in E V"
    and "\<And>j. j \<noteq> i \<Longrightarrow> task_in E W j = task_in E V j"
    and "\<And>k. task_in E W i = Some k \<Longrightarrow> t_state k \<noteq> TSuspended \<or> task_in E V i = Some k"
  shows "waiting E time W"
proof (rule waiting_mono [OF assms(1)])
  show "registered E W j \<or> (\<exists>k0. task_in E V j = Some k0 \<and> t_state k0 = TSuspended)"
    if "task_in E W j = Some k" "t_state k = TSuspended" for j k
    using that assms(3) [of j] assms(4) [of k] by (cases "j = i") auto
qed (simp add: assms(2))

lemma waiting_only_task:
  "waiting E time V \<Longrightarrow> only_task E i k V W \<Longrightarrow> t_state k \<noteq> TSuspended \<Longrightarrow> waiting E time W"
  by (erule waiting_task [where i = i]) (auto simp: only_task_def)

lemma waiting_only_promise:
  assumes "waiting E time V" "only_promise E i p' V W" "promise_in E V i = Some p"
    and "sp_record p' = sp_record p" "set (sp_callbacks p) \<subseteq> set (sp_callbacks p')"
  shows "waiting E time W"
  by (rule waiting_mono [OF assms(1)]) (use assms(2-5) in \<open>auto simp: only_promise_def\<close>)

lemma waiting_created:
  assumes "waiting E time V" "created_store E mode r V W" "promise_in E V (p_id r) = None"
  shows "waiting E time W"
proof (rule waiting_mono [OF assms(1)])
  show "registered E W j \<or> (\<exists>k0. task_in E V j = Some k0 \<and> t_state k0 = TSuspended)"
    if "task_in E W j = Some k" "t_state k = TSuspended" for j k
    using that assms(2) by (cases "j = p_id r")
      (auto simp: created_store_def starts_def split: option.splits if_splits create_mode.splits)
qed (use assms(2,3) in \<open>auto simp: created_store_def\<close>)

lemma waiting_resumed:
  assumes "waiting E time V" "task_change E i (resumed w j) V W"
  shows "waiting E time W"
  by (rule waiting_task [OF assms(1), of W i])
    (use assms(2) in \<open>auto simp: task_change_def resumed_def split: option.splits task_state.splits if_splits\<close>)

lemma waiting_suspended:
  assumes "waiting E time D" "registered_on E i ids D R" "only_task E i k R W"
    and "j \<in> ids" "promise_in E D j = Some p" "is_pending (sp_record p)"
  shows "waiting E time W"
proof (rule waiting_mono [OF assms(1)])
  have promises: "promise_in E W m = map_option (\<lambda>p. if m \<in> ids then with_callback p i else p) (promise_in E D m)" for m
    using assms(2,3) by (simp add: registered_on_def only_task_def)
  then have "promise_in E W j = Some (with_callback p i)" using assms(4,5) by simp
  then have "registered E W i"
    using assms(6) unfolding registered_def by (intro exI [where x = j]) auto
  then show "registered E W m \<or> (\<exists>k0. task_in E D m = Some k0 \<and> t_state k0 = TSuspended)"
    if "task_in E W m = Some k'" "t_state k' = TSuspended" for m k'
    using that assms(2,3) by (cases "m = i") (auto simp: registered_on_def only_task_def)
  show "\<exists>p'. promise_in E W m = Some p' \<and> sp_record p' = sp_record q \<and> set (sp_callbacks q) \<subseteq> set (sp_callbacks p')"
    if "promise_in E D m = Some q" for m q
    using that by (auto simp: promises)
qed

section \<open>Every operation keeps it\<close>

text \<open>Every kind of change does, so every operation does.\<close>

abbreviation patient :: "('q, 'x) env_scheme \<Rightarrow> i64 \<Rightarrow> store \<Rightarrow> store \<Rightarrow> bool" where
  "patient E time V W \<equiv> waiting E time V \<longrightarrow> waiting E time W"

interpretation patience: outcome_relation E "patient E"
  for E :: "('q, 'x) env_scheme"
proof (unfold_locales; (intro impI)?)
  fix time V W i p r mode j and k k' :: stored_task and ids X w
  show "waiting E time W" if "waiting E time V \<longrightarrow> waiting E time X" "promise_in E W = promise_in E X"
    "task_in E W = task_in E X" "waiting E time V" for X
    using that waiting_same by blast
  show "waiting E time W" if "waiting E time D \<longrightarrow> waiting E time W" "deadlines E time ids V D" "waiting E time V" for D ids
    using that by (simp add: deadlines_def)
  show "waiting E time W" if "promise_in E V i = Some p" "only_promise E i p' V W" "sp_record p' = sp_record p"
    "set (sp_callbacks p) \<subseteq> set (sp_callbacks p')" "waiting E time V" for p'
    using waiting_only_promise [OF that(5,2,1,3,4)] .
  show "waiting E time W" if "created_store E mode r V W" "promise_in E V (p_id r) = None" "waiting E time V"
    using waiting_created [OF that(3,1,2)] .
  show "waiting E time W" if "good E V" "promise_in E V i = Some p" "is_pending (sp_record p)"
    "settles (sp_record p) r" "settled_store E time i p r V W" "waiting E time V"
    using settled_store_waiting [OF that] .
  show "waiting E time W" if "task_change E i (resumed w j) V W" "waiting E time V"
    using waiting_resumed [OF that(2,1)] .
  show "waiting E time W" if "only_task E i k' V W" "t_state k' \<noteq> TSuspended" "waiting E time V"
    using waiting_only_task [OF that(3,1,2)] .
  show "waiting E time W" if "registered_on E i ids V X" "only_task E i k' X W" "j \<in> ids"
    "promise_in E V j = Some p" "is_pending (sp_record p)" "waiting E time V"
    using waiting_suspended [OF that(6,1,2,3,4,5)] .
qed simp_all

section \<open>Over every run whose clock goes forward\<close>

text \<open>
  The steps of the system as the clock of the queue sees them: no step turns it back.  A round
  of a delivery loop is a step of the queue, the claim, followed by the delivery of the claim.
\<close>

inductive timed_step ::
  "('q, 'x) env_scheme \<Rightarrow> ('q \<Rightarrow> store) \<Rightarrow> store_options \<Rightarrow> 'q world \<Rightarrow> 'q world \<Rightarrow> bool"
  for E kv opts where
  timed_request: "send_timed E opts raw w = (out, w') \<Longrightarrow> le64 (shared_now E w) (shared_now E w') \<Longrightarrow>
    timed_step E kv opts w w'"
| timed_timer: "process_timer E opts payload w = (r, w') \<Longrightarrow> le64 (shared_now E w) (shared_now E w') \<Longrightarrow>
    timed_step E kv opts w w'"
| timed_delivery: "deliver_claim E opts subs c w = (out, w') \<Longrightarrow> le64 (shared_now E w) (shared_now E w') \<Longrightarrow>
    timed_step E kv opts w w'"
| timed_queue: "same_namespace (kv (w_queue w)) (kv (w_queue w')) \<Longrightarrow> le64 (shared_now E w) (shared_now E w') \<Longrightarrow>
    timed_step E kv opts w w'"

definition attending :: "('q, 'x) env_scheme \<Rightarrow> ('q \<Rightarrow> store) \<Rightarrow> 'q world \<Rightarrow> bool" where
  "attending E kv w \<longleftrightarrow> serving E kv w \<and> waiting E (shared_now E w) (kv (w_queue w))"

lemma same_namespace_refl: "same_namespace V V"
  by (simp add: same_namespace_def)

lemma delivery_round_timed:
  assumes q: "queue_contract E kv" and r: "delivery_round E opts l subs w = (go, out, w')"
    and claim: "q_claim E (w_queue w) (dl_queue l) (retry_timeout opts) = (c, q')"
    and "le64 (shared_now E w) (shared_now E (w\<lparr>w_queue := q'\<rparr>))"
    and "le64 (shared_now E (w\<lparr>w_queue := q'\<rparr>)) (shared_now E w')"
  shows "(timed_step E kv opts)\<^sup>*\<^sup>* w w'"
proof -
  have first: "timed_step E kv opts w (w\<lparr>w_queue := q'\<rparr>)"
    by (rule timed_queue) (simp_all add: contract_claims(4) [OF q claim] same_namespace_refl assms(4))
  consider "w' = w\<lparr>w_queue := q'\<rparr>" | cl out' where "deliver_claim E opts subs cl (w\<lparr>w_queue := q'\<rparr>) = (out', w')"
    using r claim by (auto simp: delivery_round_def split: sum.splits option.splits prod.splits)
  then show ?thesis
  proof cases
    case 1
    then show ?thesis using first by blast
  next
    case 2
    from first timed_delivery [OF this assms(5)] show ?thesis by (meson rtranclp.simps)
  qed
qed

lemma locked_patient:
  assumes "attending E kv w" "related E (patient E) kv m (shared_txn E opts w)" "locked E opts m w = (r, w')"
    and "le64 (shared_now E w) (shared_now E w')"
  shows "attending E kv w'"
proof -
  have w: "serving E kv w" "waiting E (shared_now E w) (kv (w_queue w))"
    using assms(1) by (simp_all add: attending_def)
  have "waiting E (shared_now E w) (kv (w_queue w'))"
    using locked_answers(4,5) [OF w(1) assms(2,3)] w(2) by (cases r) auto
  then show ?thesis
    using locked_answers(1) [OF w(1) assms(2,3)] waiting_later [OF _ assms(4)] by (simp add: attending_def)
qed

lemma timed_step_attending:
  assumes "attending E kv w" "timed_step E kv opts w w'"
  shows "attending E kv w'"
  using assms(2)
proof cases
  have w: "serving E kv w" and c: "queue_contract E kv"
    using assms(1) by (simp_all add: attending_def serving_def)
  note b = begun_shared [OF w, of opts]
  {
    case (timed_request raw out)
    then consider "w' = w" | kind corr_id data r where "locked E opts (handle E kind corr_id data) w = (r, w')"
      by (auto simp: send_timed_def split: sum.splits prod.splits)
    then show ?thesis
      using assms(1) locked_patient [OF assms(1) patience.handle_related [OF b c] _ timed_request(2)] by cases blast+
  next
    case (timed_timer payload r)
    then consider "w' = w" | tm where "locked E opts (fire E tm) w = (r, w')"
      by (auto simp: process_timer_def split: sum.splits)
    then show ?thesis
      using assms(1) locked_patient [OF assms(1) patience.fire_related [OF b c] _ timed_timer(2)] by cases blast+
  next
    case (timed_delivery subs cl out)
    then obtain r where run: "locked E opts (deliver E cl) w = (r, w')"
      by (auto simp: deliver_claim_def split: sum.splits option.splits prod.splits)
    show ?thesis
    proof (cases "from_slice E ''Delivery'' dec_delivery (c_payload cl)")
      case (Inl e)
      with run have "w' = w" by (auto simp: locked_def deliver_undecodable shared_txn_def new_txn_def)
      then show ?thesis using assms(1) by simp
    next
      case (Inr d)
      show ?thesis by (rule locked_patient [OF assms(1) patience.deliver_related [OF b c Inr] run timed_delivery(2)])
    qed
  next
    case timed_queue
    have "waiting E (shared_now E w') (kv (w_queue w'))"
      using assms(1) waiting_later [of E, OF _ timed_queue(2)]
      unfolding waiting_same [OF same_namespace_records(1,2) [OF timed_queue(1)]] attending_def by blast
    then show ?thesis
      using w same_namespace_records(4) [OF timed_queue(1), of E] by (simp add: attending_def serving_def)
  }
qed

interpretation attended: invariant_machine "timed_step E kv opts" "attending E kv"
  for E :: "('q, 'x) env_scheme" and kv :: "'q \<Rightarrow> store" and opts :: store_options
  by unfold_locales (rule timed_step_attending)

lemma waiting_empty: "(\<And>k. prefix ''resonate/'' k \<Longrightarrow> V k = None) \<Longrightarrow> waiting E time V"
  by (simp add: waiting_def in_defs record_at_def)

end
