(* ===== verification/Versions.thy ===== *)
theory Versions
  imports Outcomes
begin

text \<open>
  Versions count acquisitions: every step of the system keeps the version of every task, or
  acquires the task and advances its version by one.
\<close>

section \<open>Every operation\<close>

definition claimed_once :: "stored_task \<Rightarrow> stored_task \<Rightarrow> bool" where
  "claimed_once k k' \<longleftrightarrow>
     t_version k' = t_version k + (if t_state k' = TAcquired \<and> t_state k \<noteq> TAcquired then 1 else 0)
     \<and> (t_state k = TFulfilled \<longrightarrow> t_state k' = TFulfilled)"

definition counted :: "('q, 'x) env_scheme \<Rightarrow> store \<Rightarrow> store \<Rightarrow> bool" where
  "counted E V W \<longleftrightarrow> (\<forall>i k. task_in E V i = Some k \<longrightarrow> (\<exists>k'. task_in E W i = Some k' \<and> claimed_once k k'))"

lemma claimed_once_refl [simp]: "claimed_once k k"
  by (simp add: claimed_once_def)

lemma claimed_once_write:
  assumes "task_write k k'"
  shows "claimed_once k k'"
proof -
  consider "task_moves (t_state k, t_version k) (t_state k', t_version k')"
    | "t_state k' = t_state k" "t_version k' = t_version k"
    using assms by (auto simp: task_write_def)
  then show ?thesis
  proof cases
    case 1
    then show ?thesis by cases (auto simp: claimed_once_def)
  qed (simp add: claimed_once_def)
qed

lemma kept_claimed:
  assumes k: "kept_version k k'" and k': "claimed_once k' k''"
  shows "claimed_once k k''"
proof -
  have "t_version k' = t_version k" "t_state k = TFulfilled \<longrightarrow> t_state k'' = TFulfilled"
    "t_state k'' = TAcquired \<and> t_state k' \<noteq> TAcquired \<longleftrightarrow> t_state k'' = TAcquired \<and> t_state k \<noteq> TAcquired"
    using k k' unfolding kept_version_def claimed_once_def by (blast, blast, metis task_state.distinct(13,14))
  then show ?thesis using k' unfolding claimed_once_def by (simp only:)
qed

lemma unclaimed_counted: "unclaimed E V D \<Longrightarrow> counted E D W \<Longrightarrow> counted E V W"
  unfolding unclaimed_def counted_def using kept_claimed by metis

lemma counted_same: "task_in E W = task_in E V \<Longrightarrow> counted E V W"
  by (simp add: counted_def)

lemma counted_one:
  assumes "task_in E V i = Some k" "claimed_once k k'" "task_in E W = (task_in E V)(i \<mapsto> k')"
  shows "counted E V W"
  unfolding counted_def assms(3)
proof (intro allI impI)
  show "\<exists>u'. ((task_in E V)(i \<mapsto> k')) j = Some u' \<and> claimed_once u u'" if "task_in E V j = Some u" for j u
    using that assms(1,2) by (cases "j = i") auto
qed

lemma unclaimed_resumed:
  assumes "task_change E i (resumed w j) V W"
  shows "unclaimed E V W"
  unfolding unclaimed_def
proof (intro allI impI)
  show "\<exists>k'. task_in E W m = Some k' \<and> kept_version k k'" if "task_in E V m = Some k" for m k
    using that assms kept_version_resumed by (cases "m = i") (auto simp: task_change_def)
qed

lemma counted_created:
  assumes "good E V" "created_store E mode r V W" "promise_in E V (p_id r) = None"
  shows "counted E V W"
  unfolding counted_def
proof (intro allI impI)
  fix i k assume k: "task_in E V i = Some k"
  obtain p where "promise_in E V i = Some p" using good_task_promise [OF assms(1) k] by blast
  then have "i \<noteq> p_id r" using assms(3) by auto
  then have "task_in E W i = task_in E V i" using assms(2) unfolding created_store_def by blast
  with k show "\<exists>k'. task_in E W i = Some k' \<and> claimed_once k k'" by simp
qed

interpretation counting: outcome_relation E "\<lambda>_. counted E" for E :: "('q, 'x) env_scheme"
proof unfold_locales
  fix V W i p r mode j and k k' :: stored_task and ids X w and time :: i64
  show "counted E V W" if "counted E V X" "task_in E W = task_in E X" for X
    using that by (simp add: counted_def)
  show "counted E V W" if "deadlines E time ids V D" "counted E D W" for D ids
    by (rule unclaimed_counted [OF _ that(2)]) (use that(1) in \<open>simp add: deadlines_def\<close>)
  show "counted E V W" if "only_promise E i p' V W" for p'
    by (rule counted_same) (use that in \<open>simp add: only_promise_def\<close>)
  show "counted E V W" if "good E V" "created_store E mode r V W" "promise_in E V (p_id r) = None"
    using counted_created [OF that] .
  show "counted E V W" if "good E V" "promise_in E V i = Some p" "is_pending (sp_record p)"
    "settles (sp_record p) r" "settled_store E time i p r V W"
    using unclaimed_counted [OF settled_store_unclaimed [OF that] counted_same [OF refl]] .
  show "counted E V W" if "task_change E i (resumed w j) V W"
    using unclaimed_counted [OF unclaimed_resumed [OF that] counted_same [OF refl]] .
  show "counted E V W" if "task_in E V i = Some k" "task_write k k'" "only_task E i k' V W"
    by (rule counted_one [OF that(1) claimed_once_write [OF that(2)]]) (use that(3) in \<open>simp add: only_task_def\<close>)
  show "counted E V W" if "task_in E V i = Some k" "task_write k k'" "registered_on E i ids V X" "only_task E i k' X W"
    by (rule counted_one [OF that(1) claimed_once_write [OF that(2)]])
      (use that(3,4) in \<open>simp add: only_task_def registered_on_def\<close>)
qed (simp_all add: counted_same)

section \<open>Every step of the system\<close>

lemma locked_counted:
  assumes "serving E kv w" "related E (\<lambda>_. counted E) kv m (shared_txn E opts w)" "locked E opts m w = (r, w')"
  shows "counted E (kv (w_queue w)) (kv (w_queue w'))"
  using locked_answers(4,5) [OF assms] counted_same [of E "kv (w_queue w')" "kv (w_queue w)"] by (cases r) auto

lemma deliver_counted:
  assumes "serving E kv w" "deliver_claim E opts subs c w = (out, w')"
  shows "counted E (kv (w_queue w)) (kv (w_queue w'))"
proof -
  obtain r where run: "locked E opts (deliver E c) w = (r, w')"
    using assms(2) by (auto simp: deliver_claim_def split: sum.splits option.splits prod.splits)
  show ?thesis
  proof (cases "from_slice E ''Delivery'' dec_delivery (c_payload c)")
    case (Inl e)
    with run have "w' = w" by (auto simp: locked_def deliver_undecodable shared_txn_def new_txn_def)
    then show ?thesis by (simp add: counted_same)
  next
    case (Inr d)
    show ?thesis
      by (rule locked_counted [OF assms(1) counting.deliver_related [OF begun_shared [OF assms(1)] _ Inr] run])
        (use assms(1) in \<open>simp add: serving_def\<close>)
  qed
qed

lemma store_step_counted:
  assumes w: "serving E kv w" and "store_step E kv opts w w'"
  shows "counted E (kv (w_queue w)) (kv (w_queue w'))"
proof -
  have c: "queue_contract E kv" using w by (simp add: serving_def)
  note b = begun_shared [OF w, of opts] and same = counted_same [OF refl]
  from assms(2) show ?thesis
  proof cases
    case (request raw out)
    then consider "w' = w" | kind corr_id data r where "locked E opts (handle E kind corr_id data) w = (r, w')"
      by (auto simp: send_timed_def split: sum.splits prod.splits)
    then show ?thesis using same locked_counted [OF w counting.handle_related [OF b c]] by cases blast+
  next
    case (timer payload r)
    then consider "w' = w" | tm where "locked E opts (fire E tm) w = (r, w')"
      by (auto simp: process_timer_def split: sum.splits)
    then show ?thesis using same locked_counted [OF w counting.fire_related [OF b c]] by cases blast+
  next
    case (delivery l subs go out)
    obtain x q' where claim: "q_claim E (w_queue w) (dl_queue l) (retry_timeout opts) = (x, q')"
      by (metis surj_pair)
    have kv: "kv q' = kv (w_queue w)" using contract_claims(4) [OF c claim] by simp
    then have q': "serving E kv (w\<lparr>w_queue := q'\<rparr>)" using w by (simp add: serving_def)
    consider "w' = w\<lparr>w_queue := q'\<rparr>" | cl out' where "deliver_claim E opts subs cl (w\<lparr>w_queue := q'\<rparr>) = (out', w')"
      using delivery claim by (auto simp: delivery_round_def split: sum.splits option.splits prod.splits)
    then show ?thesis using kv same deliver_counted [OF q'] by cases auto
  next
    case (in_hand subs cl out)
    then show ?thesis by (rule deliver_counted [OF w])
  next
    case (queue q')
    then show ?thesis using counted_same [OF same_namespace_records(2)] by simp
  next
    case (reopen q')
    then show ?thesis using counted_same [OF same_namespace_records(2)] by (simp add: from_queue_def)
  qed
qed

section \<open>Every run\<close>

text \<open>The task \<open>i\<close> is acquired in \<open>w\<close>, and the steps of a run that acquire it.\<close>

definition is_acquired :: "('q, 'x) env_scheme \<Rightarrow> ('q \<Rightarrow> store) \<Rightarrow> string \<Rightarrow> 'q world \<Rightarrow> bool" where
  "is_acquired E kv i w \<longleftrightarrow> (\<exists>k. task_in E (kv (w_queue w)) i = Some k \<and> t_state k = TAcquired)"

definition acquisitions ::
  "('q, 'x) env_scheme \<Rightarrow> ('q \<Rightarrow> store) \<Rightarrow> string \<Rightarrow> (nat \<Rightarrow> 'q world) \<Rightarrow> nat \<Rightarrow> nat set" where
  "acquisitions E kv i f n = {s. s < n \<and> \<not> is_acquired E kv i (f s) \<and> is_acquired E kv i (f (Suc s))}"

lemma acquisitions_Suc:
  "acquisitions E kv i f (Suc n) = (if \<not> is_acquired E kv i (f n) \<and> is_acquired E kv i (f (Suc n))
     then insert n (acquisitions E kv i f n) else acquisitions E kv i f n)"
  by (auto simp: acquisitions_def less_Suc_eq)

lemma acquisitions_finite [simp]: "finite (acquisitions E kv i f n)"
  by (simp add: acquisitions_def)

lemma card_acquisitions_Suc:
  "card (acquisitions E kv i f (Suc n)) = card (acquisitions E kv i f n)
     + (if \<not> is_acquired E kv i (f n) \<and> is_acquired E kv i (f (Suc n)) then 1 else 0)"
  by (auto simp: acquisitions_Suc) (simp add: acquisitions_def)

lemma run_serving:
  assumes "\<forall>s < n. store_step E kv opts (f s) (f (Suc s))" "serving E kv (f 0)"
  shows "serving E kv (f n)"
  using assms
proof (induction n)
  case (Suc n)
  then have "serving E kv (f n)" by simp
  then show ?case using store_step_serving [of E kv "f n" opts "f (Suc n)"] Suc.prems(1) by simp
qed

lemma run_counts:
  assumes "\<forall>s < n. store_step E kv opts (f s) (f (Suc s))" "serving E kv (f 0)"
    and "task_in E (kv (w_queue (f 0))) i = Some k"
  shows "\<exists>k'. task_in E (kv (w_queue (f n))) i = Some k'
    \<and> t_version k' = t_version k + of_nat (card (acquisitions E kv i f n))
    \<and> (t_state k = TFulfilled \<longrightarrow> t_state k' = TFulfilled \<and> acquisitions E kv i f n = {})"
  using assms
proof (induction n)
  case 0
  then show ?case by (simp add: acquisitions_def)
next
  case (Suc n)
  then obtain k' where k': "task_in E (kv (w_queue (f n))) i = Some k'"
    "t_version k' = t_version k + of_nat (card (acquisitions E kv i f n))"
    "t_state k = TFulfilled \<longrightarrow> t_state k' = TFulfilled \<and> acquisitions E kv i f n = {}"
    by auto
  have "serving E kv (f n)" by (rule run_serving [where f = f and n = n and opts = opts]) (use Suc.prems(1,2) in simp_all)
  from store_step_counted [OF this, of opts "f (Suc n)"] obtain k'' where
    k'': "task_in E (kv (w_queue (f (Suc n)))) i = Some k''" "claimed_once k' k''"
    using Suc.prems(1) k'(1) unfolding counted_def by blast
  have "\<not> is_acquired E kv i (f n) \<and> is_acquired E kv i (f (Suc n)) \<longleftrightarrow> t_state k'' = TAcquired \<and> t_state k' \<noteq> TAcquired"
    using k'(1) k''(1) by (auto simp: is_acquired_def)
  then have "t_version k'' = t_version k + of_nat (card (acquisitions E kv i f (Suc n)))"
    "t_state k = TFulfilled \<longrightarrow> t_state k'' = TFulfilled \<and> acquisitions E kv i f (Suc n) = {}"
    using k'(2,3) k''(2) by (auto simp: claimed_once_def card_acquisitions_Suc)
      (auto simp: claimed_once_def acquisitions_Suc)
  with k''(1) show ?case by blast
qed

text \<open>While the version stays below the bound of its width, it counts the acquisitions as a number.\<close>

lemma version_counts:
  fixes v :: i64
  assumes "sint v + int m < 2 ^ 63"
  shows "sint (v + of_nat m) = sint v + int m"
proof -
  have "- (2 ^ 63) \<le> sint v" using sint_ge [of v] by simp
  then have range: "- (2 ^ 63) \<le> sint v + int m" "sint v + int m < 2 ^ 63" using assms by simp_all
  have "v + of_nat m = word_of_int (sint v + int m)" by simp
  then have "sint (v + of_nat m) = signed_take_bit 63 (sint v + int m)" by (simp only: signed_of_int) simp
  then show ?thesis using signed_take_bit_int_eq_self [of 63, OF range] by simp
qed

end
