(* ===== verification/Memory_Queue.thy ===== *)
theory Memory_Queue
  imports World
begin

text \<open>
  A queue in memory that keeps the contract: the namespace is an ordered map, a job is pending
  or leased until a time, a claim of a job is valid while it is leased, and the requests the
  queue has accepted are logged.  The properties are
  evaluated on it, so that their hypotheses are seen to hold.
\<close>

record mem_job =
  mj_queue :: string
  mj_payload :: blob
  mj_run_at :: nat
  mj_lease :: "nat option"

record mem =
  m_kv :: "(bytes, blob) omap"
  m_clock :: nat
  m_next :: nat
  m_jobs :: "(string, mem_job) omap"
  m_accepted :: "enqueue_request list"

definition mem_empty :: mem where
  "mem_empty = \<lparr>m_kv = om_empty, m_clock = 0, m_next = 0, m_jobs = om_empty, m_accepted = []\<rparr>"

definition mem_store :: "mem \<Rightarrow> store" where
  "mem_store m = om_get (m_kv m)"

definition mem_claim :: "string \<Rightarrow> mem_job \<Rightarrow> claim" where
  "mem_claim i j = \<lparr>c_queue = mj_queue j, c_id = i, c_payload = mj_payload j, c_rest = 0\<rparr>"

definition mem_leased :: "mem \<Rightarrow> claim \<Rightarrow> bool" where
  "mem_leased m c = (case om_get (m_jobs m) (c_id c) of
     None \<Rightarrow> False | Some j \<Rightarrow> mj_lease j \<noteq> None)"

definition mem_set_lease :: "string \<Rightarrow> nat option \<Rightarrow> mem \<Rightarrow> mem" where
  "mem_set_lease i l m = (case om_get (m_jobs m) i of
     None \<Rightarrow> m | Some j \<Rightarrow> m\<lparr>m_jobs := om_insert i (j\<lparr>mj_lease := l\<rparr>) (m_jobs m)\<rparr>)"

definition mem_take :: "string \<Rightarrow> nat \<Rightarrow> mem \<Rightarrow> claim option \<times> mem" where
  "mem_take i l m = (case om_get (m_jobs m) i of
     None \<Rightarrow> (None, m)
   | Some j \<Rightarrow> if mj_lease j \<noteq> None then (None, m)
       else (Some (mem_claim i j), mem_set_lease i (Some (m_clock m + l)) m))"

definition mem_due :: "mem \<Rightarrow> string \<Rightarrow> string list" where
  "mem_due m q = map fst (filter (\<lambda>(i, j). mj_queue j = q \<and> mj_lease j = None \<and> mj_run_at j \<le> m_clock m)
     (entries (m_jobs m)))"

definition job_name :: "nat \<Rightarrow> string" where
  "job_name n = ''job'' @ show_nat n"

text \<open>A job without an id gets one of the queue's own, which is never issued.\<close>

definition own_name :: "nat \<Rightarrow> string" where
  "own_name n = ''own'' @ show_nat n"

fun mem_enqueue :: "enqueue_request list \<Rightarrow> mem \<Rightarrow> mem" where
  "mem_enqueue [] m = m"
| "mem_enqueue (r # rs) m =
     (let i = (case e_id r of Some i \<Rightarrow> i | None \<Rightarrow> own_name (m_next m));
          j = \<lparr>mj_queue = e_queue r, mj_payload = e_payload r,
               mj_run_at = (case e_run_at r of None \<Rightarrow> 0 | Some at \<Rightarrow> at), mj_lease = None\<rparr>
      in mem_enqueue rs (m\<lparr>m_next := m_next m + 1, m_jobs := om_insert i j (m_jobs m),
           m_accepted := r # m_accepted m\<rparr>))"

definition mem_apply :: "effects \<Rightarrow> mem \<Rightarrow> mem" where
  "mem_apply ef m = mem_enqueue (ef_enqueues ef)
     (m\<lparr>m_kv := fold om_delete (ef_kv_deletes ef)
        (fold (\<lambda>(k, v). om_insert k v) (entries (ef_kv_writes ef)) (m_kv m))\<rparr>)"

definition mem_end :: "claim \<Rightarrow> mem \<Rightarrow> mem" where
  "mem_end c m = m\<lparr>m_jobs := om_delete (c_id c) (m_jobs m)\<rparr>"

text \<open>An operation on a claim that is leased, or the report that it is lost.\<close>

definition mem_settle :: "(mem \<Rightarrow> mem) \<Rightarrow> claim \<Rightarrow> mem \<Rightarrow> (queue_error + unit) \<times> mem" where
  "mem_settle f c m = (if mem_leased m c then (Inr (), f m) else (Inl ClaimLost, m))"

definition mem_url :: "string \<Rightarrow> bool" where
  "mem_url u = starts_with u ''poll://''"

definition mem_cron :: "string \<Rightarrow> bool" where
  "mem_cron c \<longleftrightarrow> c = ''* * * * *''"

definition mem_cron_next :: "string \<Rightarrow> i64 \<Rightarrow> i64 option" where
  "mem_cron_next c t = Some (t + 60000)"

definition mem_any_time :: "i64 \<Rightarrow> bool" where
  "mem_any_time t = True"

definition mem_digest :: "bytes \<Rightarrow> bytes" where
  "mem_digest b = b"

text \<open>
  The texts that parse: a request to create the promise \<open>hello\<close>, with a target, one to register
  a listener on it, and one to acquire the task \<open>idle\<close>.
\<close>

definition create_json :: json where
  "create_json = jobj
     [(''kind'', JString ''promise.create''), (''head'', jobj [(''corrId'', JString ''1'')]),
      (''data'', jobj [(''id'', JString ''hello''), (''timeoutAt'', JInt 500),
         (''tags'', jobj [(''resonate:target'', JString ''poll://any@g'')])])]"

definition listen_json :: json where
  "listen_json = jobj
     [(''kind'', JString ''promise.register_listener''), (''head'', jobj [(''corrId'', JString ''2'')]),
      (''data'', jobj [(''awaited'', JString ''hello''), (''address'', JString ''poll://uni@g/p2'')])]"

definition acquire_json :: json where
  "acquire_json = jobj
     [(''kind'', JString ''task.acquire''), (''head'', jobj [(''corrId'', JString ''3'')]),
      (''data'', jobj [(''id'', JString ''idle''), (''version'', JInt 0), (''pid'', JString ''p2''), (''ttl'', JInt 100)])]"

definition mem_parse :: "string \<Rightarrow> string + json" where
  "mem_parse s = (if s = ''create'' then Inr create_json
     else if s = ''listen'' then Inr listen_json
     else if s = ''acquire'' then Inr acquire_json else Inl ''unparsed'')"

definition mem_text :: "json \<Rightarrow> string" where
  "mem_text j = []"

definition mem_serde_error :: "string \<Rightarrow> json \<Rightarrow> string" where
  "mem_serde_error ty j = ty"

definition mem_error_text :: "queue_error \<Rightarrow> string" where
  "mem_error_text e = []"

definition mem_get :: "mem \<Rightarrow> bytes \<Rightarrow> queue_error + blob option" where
  "mem_get m k = Inr (om_get (m_kv m) k)"

definition mem_entries :: "mem \<Rightarrow> bytes \<Rightarrow> (queue_error + bytes \<times> blob) list" where
  "mem_entries m p = map Inr (filter (\<lambda>(k, v). prefix p k) (entries (m_kv m)))"

definition mem_record :: "mem \<Rightarrow> string \<Rightarrow> queue_error + blob option" where
  "mem_record m i = Inr (map_option mj_payload (om_get (m_jobs m) i))"

definition mem_next_id :: "mem \<Rightarrow> string \<times> mem" where
  "mem_next_id m = (job_name (m_next m), m\<lparr>m_next := m_next m + 1\<rparr>)"

definition mem_expiry :: "mem \<Rightarrow> string \<Rightarrow> string \<Rightarrow> nat option" where
  "mem_expiry m q i = Option.bind (om_get (m_jobs m) i) mj_lease"

definition mem_renew :: "mem \<Rightarrow> claim \<Rightarrow> nat \<Rightarrow> (queue_error + unit) \<times> mem" where
  "mem_renew m c l = mem_settle (mem_set_lease (c_id c) (Some (m_clock m + l))) c m"

definition mem_claim_by_id :: "mem \<Rightarrow> string \<Rightarrow> nat \<Rightarrow> (queue_error + claim_outcome) \<times> mem" where
  "mem_claim_by_id m i l = (case mem_take i l m of
     (Some c, m') \<Rightarrow> (Inr (Claimed c), m')
   | (None, m') \<Rightarrow> (Inr (if om_get (m_jobs m) i = None then NotFound else NotClaimable), m'))"

definition mem_claim_next :: "mem \<Rightarrow> string \<Rightarrow> nat \<Rightarrow> (queue_error + claim option) \<times> mem" where
  "mem_claim_next m q l = (case mem_due m q of
     [] \<Rightarrow> (Inr None, m)
   | i # _ \<Rightarrow> (case mem_take i l m of (c, m') \<Rightarrow> (Inr c, m')))"

definition mem_commit :: "mem \<Rightarrow> effects \<Rightarrow> (queue_error + unit) \<times> mem" where
  "mem_commit m ef = (Inr (), mem_apply ef m)"

definition mem_end_with :: "claim \<Rightarrow> effects \<Rightarrow> mem \<Rightarrow> mem" where
  "mem_end_with c ef m = mem_end c (mem_apply ef m)"

definition mem_ack_with :: "mem \<Rightarrow> claim \<Rightarrow> effects \<Rightarrow> (queue_error + unit) \<times> mem" where
  "mem_ack_with m c ef = mem_settle (mem_end_with c ef) c m"

definition mem_ack :: "mem \<Rightarrow> claim \<Rightarrow> (queue_error + unit) \<times> mem" where
  "mem_ack m c = mem_settle (mem_end c) c m"

definition mem_nack :: "mem \<Rightarrow> claim \<Rightarrow> string \<Rightarrow> (queue_error + unit) \<times> mem" where
  "mem_nack m c reason = mem_settle (mem_set_lease (c_id c) None) c m"

definition mem_env :: "mem env" where
  "mem_env =
     \<lparr>x_url_parses = mem_url, x_cron_parses = mem_cron, x_cron_next = mem_cron_next,
      x_timestamp_ok = mem_any_time, x_sha256 = mem_digest, x_max_queue_name = 128,
      x_json_parse = mem_parse, x_json_text = mem_text, x_serde_error = mem_serde_error,
      x_queue_error_text = mem_error_text,
      q_now_ms = m_clock, q_kv_get = mem_get, q_kv_entries = mem_entries, q_job_record = mem_record,
      q_next_job_id = mem_next_id, q_lease_expiry = mem_expiry, q_renew_lease = mem_renew,
      q_claim_by_id = mem_claim_by_id, q_claim = mem_claim_next, q_commit_effects = mem_commit,
      q_ack_with = mem_ack_with, q_ack = mem_ack, q_nack = mem_nack\<rparr>"

lemmas mem_ops = mem_get_def mem_entries_def mem_record_def mem_next_id_def mem_expiry_def
  mem_renew_def mem_claim_by_id_def mem_claim_next_def mem_commit_def mem_end_with_def
  mem_ack_with_def mem_ack_def mem_nack_def

lemma mem_env_simps [simp]:
  "x_url_parses mem_env = mem_url" "x_cron_parses mem_env = mem_cron"
  "x_cron_next mem_env = mem_cron_next" "x_timestamp_ok mem_env = mem_any_time"
  "x_sha256 mem_env = mem_digest" "x_max_queue_name mem_env = 128"
  "x_json_parse mem_env = mem_parse" "x_json_text mem_env = mem_text"
  "x_serde_error mem_env = mem_serde_error" "x_queue_error_text mem_env = mem_error_text"
  "q_now_ms mem_env = m_clock" "q_kv_get mem_env = mem_get" "q_kv_entries mem_env = mem_entries"
  "q_job_record mem_env = mem_record" "q_next_job_id mem_env = mem_next_id"
  "q_lease_expiry mem_env = mem_expiry" "q_renew_lease mem_env = mem_renew"
  "q_claim_by_id mem_env = mem_claim_by_id" "q_claim mem_env = mem_claim_next"
  "q_commit_effects mem_env = mem_commit" "q_ack_with mem_env = mem_ack_with"
  "q_ack mem_env = mem_ack" "q_nack mem_env = mem_nack"
  by (simp_all add: mem_env_def)

section \<open>The queue keeps the contract\<close>

lemma mem_store_simps [simp]:
  "mem_store (mem_set_lease i l m) = mem_store m"
  "mem_store (mem_end c m) = mem_store m"
  "mem_store (m\<lparr>m_next := n\<rparr>) = mem_store m"
  "mem_store (m\<lparr>m_clock := n\<rparr>) = mem_store m"
  by (simp_all add: mem_store_def mem_set_lease_def mem_end_def split: option.split)

lemma mem_store_enqueue [simp]: "mem_store (mem_enqueue rs m) = mem_store m"
  by (induction rs m rule: mem_enqueue.induct) (simp_all add: mem_store_def Let_def)

lemma mem_take_store: "mem_take i l m = (c, m') \<Longrightarrow> mem_store m' = mem_store m"
  by (auto simp: mem_take_def split: option.splits if_splits)

lemma mem_settle_store:
  "(\<And>m. mem_store (f m) = mem_store m) \<Longrightarrow> mem_settle f c m = (r, m') \<Longrightarrow> mem_store m' = mem_store m"
  by (auto simp: mem_settle_def split: if_splits)

lemma om_get_fold_delete:
  "om_get (fold om_delete ks m) k = (if k \<in> set ks then None else om_get m k)"
  by (induction ks arbitrary: m) auto

lemma mem_store_apply: "mem_store (mem_apply ef m) = apply_effects ef (mem_store m)"
proof
  fix k
  have "om_get (fold (\<lambda>(k, v). om_insert k v) xs m) k =
      (case map_of (rev xs) k of None \<Rightarrow> om_get m k | Some v \<Rightarrow> Some v)"
    for xs :: "(bytes \<times> blob) list" and m
    by (induction xs arbitrary: m) (auto simp: map_add_def split: option.splits)
  moreover have "map_of (rev (entries w)) k = om_get w k" for w :: "(bytes, blob) omap"
    by (simp flip: om_get_of_list)
  ultimately show "mem_store (mem_apply ef m) k = apply_effects ef (mem_store m) k"
    by (simp add: mem_apply_def apply_effects_def mem_store_def [abs_def] om_get_fold_delete
        mem_store_enqueue [unfolded mem_store_def] split: option.split)
qed

lemma mem_contract: "queue_contract mem_env mem_store"
proof -
  have scan: "lists_prefix (mem_store m) p (filter (\<lambda>(k, v). prefix p k) (entries (m_kv m)))" for m p
  proof -
    have "ascending (filter (\<lambda>(k, v). prefix p k) (entries (m_kv m)))" by simp
    then show ?thesis
      by (auto simp: lists_prefix_def ascending_def in_entries mem_store_def)
  qed
  have "reads_ok mem_env mem_store"
    using scan by (auto simp: reads_ok_def mem_ops mem_store_def)
  moreover have "settles_ok mem_env mem_store"
    by (auto simp: settles_ok_def mem_ops mem_settle_def mem_store_apply split: if_splits)
  moreover have "claims_ok mem_env mem_store"
    by (auto simp: claims_ok_def mem_ops mem_settle_def mem_take_def
        split: option.split list.split prod.split)
  ultimately show ?thesis by (simp add: queue_contract_def)
qed

end
