(* ===== verification/Ledger.thy ===== *)
theory Ledger
  imports Waiting
begin

text \<open>
  The books of a queue: which jobs it has accepted, which job ids it has issued and which jobs an
  acknowledgement has ended.  A job that has ended is never delivered again, so a task that waits
  for a delivery, or whose worker may lose its lease, must not lose its job to an acknowledgement.
  This theory states what the books are, the invariant of a store and of a transaction with regard
  to them, and a calculus of operations that keep it.
\<close>

section \<open>The books\<close>

text \<open>
  What the queue has accepted, issued and ended, and the queue's own invariant, under which its
  operations keep their contract.
\<close>

record 'q ledger =
  l_valid :: "'q \<Rightarrow> bool"
  l_jobs :: "'q \<Rightarrow> enqueue_request set"
  l_issued :: "'q \<Rightarrow> string set"
  l_ended :: "'q \<Rightarrow> string set"

definition kept_books :: "'q ledger \<Rightarrow> 'q \<Rightarrow> 'q \<Rightarrow> bool" where
  "kept_books G q q' \<longleftrightarrow> l_valid G q' \<and> l_jobs G q' = l_jobs G q
     \<and> l_issued G q \<subseteq> l_issued G q' \<and> l_ended G q' \<subseteq> l_ended G q"

text \<open>
  An operation with effects accepts their jobs with their writes, or does neither; it ends the
  jobs of \<open>S\<close> at most.
\<close>

definition booked_effects ::
  "('q \<Rightarrow> store) \<Rightarrow> 'q ledger \<Rightarrow> string set \<Rightarrow> effects \<Rightarrow> 'q \<Rightarrow> queue_error + unit \<Rightarrow> 'q \<Rightarrow> bool" where
  "booked_effects kv G S ef q r q' \<longleftrightarrow> l_valid G q' \<and> l_issued G q \<subseteq> l_issued G q'
     \<and> (r \<noteq> Inr () \<and> kv q' = kv q \<and> l_jobs G q' = l_jobs G q \<and> l_ended G q' \<subseteq> l_ended G q
        \<or> kv q' = apply_effects ef (kv q) \<and> l_jobs G q' = l_jobs G q \<union> set (ef_enqueues ef)
          \<and> l_ended G q' \<subseteq> l_ended G q \<union> S)"

text \<open>
  A claim is of an accepted request: of the one with its id, or of one without an id, under an id
  of the queue's own, which it issues to nobody.
\<close>

definition known_claim :: "'q ledger \<Rightarrow> 'q \<Rightarrow> claim \<Rightarrow> bool" where
  "known_claim G q c \<longleftrightarrow> (\<exists>r \<in> l_jobs G q. e_payload r = c_payload c
     \<and> (case e_id r of Some j \<Rightarrow> c_id c = j | None \<Rightarrow> c_id c \<notin> l_issued G q))"

definition booked_claims :: "('q, 'x) env_scheme \<Rightarrow> 'q ledger \<Rightarrow> bool" where
  "booked_claims E G \<longleftrightarrow> (\<forall>q. l_valid G q \<longrightarrow>
     (\<forall>j q'. q_next_job_id E q = (j, q') \<longrightarrow>
        kept_books G q q' \<and> j \<notin> l_issued G q \<and> j \<in> l_issued G q' \<and> j \<notin> l_ended G q)
     \<and> (\<forall>c l r q'. q_renew_lease E q c l = (r, q') \<longrightarrow> kept_books G q q')
     \<and> (\<forall>j l r q'. q_claim_by_id E q j l = (r, q') \<longrightarrow> kept_books G q q'
        \<and> (\<forall>c. r = Inr (Claimed c) \<longrightarrow> c_id c = j \<and> known_claim G q c))
     \<and> (\<forall>n l r q'. q_claim E q n l = (r, q') \<longrightarrow> kept_books G q q'
        \<and> (\<forall>c. r = Inr (Some c) \<longrightarrow> known_claim G q' c))
     \<and> (\<forall>c m r q'. q_nack E q c m = (r, q') \<longrightarrow> kept_books G q q')
     \<and> (\<forall>j b. q_job_record E q j = Inr (Some b) \<longrightarrow> j \<notin> l_ended G q))"

definition booked_settlements :: "('q, 'x) env_scheme \<Rightarrow> ('q \<Rightarrow> store) \<Rightarrow> 'q ledger \<Rightarrow> bool" where
  "booked_settlements E kv G \<longleftrightarrow> (\<forall>q. l_valid G q \<longrightarrow>
     (\<forall>c r q'. q_ack E q c = (r, q') \<longrightarrow> l_valid G q' \<and> l_jobs G q' = l_jobs G q
        \<and> l_issued G q \<subseteq> l_issued G q' \<and> l_ended G q' \<subseteq> insert (c_id c) (l_ended G q))
     \<and> (\<forall>ef r q'. (\<forall>e \<in> set (ef_enqueues ef). \<forall>j. e_id e = Some j \<longrightarrow> j \<in> l_issued G q) \<longrightarrow>
        q_commit_effects E q ef = (r, q') \<longrightarrow> booked_effects kv G {} ef q r q')
     \<and> (\<forall>c ef r q'. (\<forall>e \<in> set (ef_enqueues ef). \<forall>j. e_id e = Some j \<longrightarrow> j \<in> l_issued G q) \<longrightarrow>
        q_ack_with E q c ef = (r, q') \<longrightarrow> booked_effects kv G {c_id c} ef q r q'))"

text \<open>The contract of a queue with books.\<close>

definition keeps_books :: "('q, 'x) env_scheme \<Rightarrow> ('q \<Rightarrow> store) \<Rightarrow> 'q ledger \<Rightarrow> bool" where
  "keeps_books E kv G \<longleftrightarrow> queue_contract E kv \<and> booked_claims E G \<and> booked_settlements E kv G"

lemma books_contract: "keeps_books E kv G \<Longrightarrow> queue_contract E kv"
  by (simp add: keeps_books_def)

lemma books_claims:
  assumes "keeps_books E kv G" "l_valid G q"
  shows "q_next_job_id E q = (j, q') \<Longrightarrow>
      kept_books G q q' \<and> j \<notin> l_issued G q \<and> j \<in> l_issued G q' \<and> j \<notin> l_ended G q"
    and "q_renew_lease E q c l = (r, q') \<Longrightarrow> kept_books G q q'"
    and "q_claim_by_id E q j l = (r1, q') \<Longrightarrow> kept_books G q q'"
    and "q_claim_by_id E q j l = (Inr (Claimed c), q') \<Longrightarrow> c_id c = j \<and> known_claim G q c"
    and "q_claim E q n l = (r2, q') \<Longrightarrow> kept_books G q q'"
    and "q_claim E q n l = (Inr (Some c), q') \<Longrightarrow> known_claim G q' c"
    and "q_nack E q c m = (r3, q') \<Longrightarrow> kept_books G q q'"
    and "q_job_record E q j = Inr (Some b) \<Longrightarrow> j \<notin> l_ended G q"
proof -
  note all = assms(1) [unfolded keeps_books_def booked_claims_def, THEN conjunct2, THEN conjunct1, THEN spec,
    of q, THEN mp, OF assms(2)]
  show "q_next_job_id E q = (j, q') \<Longrightarrow>
      kept_books G q q' \<and> j \<notin> l_issued G q \<and> j \<in> l_issued G q' \<and> j \<notin> l_ended G q"
    and "q_renew_lease E q c l = (r, q') \<Longrightarrow> kept_books G q q'"
    and "q_claim_by_id E q j l = (r1, q') \<Longrightarrow> kept_books G q q'"
    and "q_claim_by_id E q j l = (Inr (Claimed c), q') \<Longrightarrow> c_id c = j \<and> known_claim G q c"
    and "q_claim E q n l = (r2, q') \<Longrightarrow> kept_books G q q'"
    and "q_claim E q n l = (Inr (Some c), q') \<Longrightarrow> known_claim G q' c"
    and "q_nack E q c m = (r3, q') \<Longrightarrow> kept_books G q q'"
    and "q_job_record E q j = Inr (Some b) \<Longrightarrow> j \<notin> l_ended G q"
    using all by (elim conjE; metis)+
qed

lemma books_settlements:
  assumes "keeps_books E kv G" "l_valid G q"
  shows "q_ack E q c = (r, q') \<Longrightarrow> l_valid G q' \<and> l_jobs G q' = l_jobs G q
      \<and> l_issued G q \<subseteq> l_issued G q' \<and> l_ended G q' \<subseteq> insert (c_id c) (l_ended G q)"
    and "\<forall>e \<in> set (ef_enqueues ef). \<forall>j. e_id e = Some j \<longrightarrow> j \<in> l_issued G q \<Longrightarrow>
      q_commit_effects E q ef = (r, q') \<Longrightarrow> booked_effects kv G {} ef q r q'"
    and "\<forall>e \<in> set (ef_enqueues ef). \<forall>j. e_id e = Some j \<longrightarrow> j \<in> l_issued G q \<Longrightarrow>
      q_ack_with E q c ef = (r, q') \<Longrightarrow> booked_effects kv G {c_id c} ef q r q'"
proof -
  note all = assms(1) [unfolded keeps_books_def booked_settlements_def, THEN conjunct2, THEN conjunct2, THEN spec,
    of q, THEN mp, OF assms(2)]
  show "q_ack E q c = (r, q') \<Longrightarrow> l_valid G q' \<and> l_jobs G q' = l_jobs G q
      \<and> l_issued G q \<subseteq> l_issued G q' \<and> l_ended G q' \<subseteq> insert (c_id c) (l_ended G q)"
    and "\<forall>e \<in> set (ef_enqueues ef). \<forall>j. e_id e = Some j \<longrightarrow> j \<in> l_issued G q \<Longrightarrow>
      q_commit_effects E q ef = (r, q') \<Longrightarrow> booked_effects kv G {} ef q r q'"
    and "\<forall>e \<in> set (ef_enqueues ef). \<forall>j. e_id e = Some j \<longrightarrow> j \<in> l_issued G q \<Longrightarrow>
      q_ack_with E q c ef = (r, q') \<Longrightarrow> booked_effects kv G {c_id c} ef q r q'"
    using all by (elim conjE; metis)+
qed

section \<open>Tasks and their jobs\<close>

definition executes :: "('q, 'x) env_scheme \<Rightarrow> blob \<Rightarrow> string \<Rightarrow> bool" where
  "executes E b i \<longleftrightarrow> from_slice E ''Delivery'' dec_delivery b = Inr (Execute i)"

text \<open>\<open>j\<close> is the id of a request of \<open>R\<close> to execute the task \<open>i\<close>.\<close>

definition job_of :: "('q, 'x) env_scheme \<Rightarrow> enqueue_request set \<Rightarrow> string \<Rightarrow> string \<Rightarrow> bool" where
  "job_of E R j i \<longleftrightarrow> (\<exists>r \<in> R. e_id r = Some j \<and> executes E (e_payload r) i)"

text \<open>The states in which a task depends on its job.\<close>

definition working :: "stored_task \<Rightarrow> bool" where
  "working k \<longleftrightarrow> t_state k = TPending \<or> t_state k = TAcquired"

text \<open>
  A task that is not fulfilled has a job among the requests \<open>R\<close>, and when it depends on it, the
  job is not in \<open>N\<close>.
\<close>

definition employed :: "('q, 'x) env_scheme \<Rightarrow> enqueue_request set \<Rightarrow> string set \<Rightarrow> stored_task \<Rightarrow> bool" where
  "employed E R N k \<longleftrightarrow> (t_state k \<noteq> TFulfilled \<longrightarrow>
     (\<exists>j. t_job k = Some j \<and> job_of E R j (t_id k) \<and> (working k \<longrightarrow> j \<notin> N)))"

definition in_order ::
  "('q, 'x) env_scheme \<Rightarrow> enqueue_request set \<Rightarrow> string set \<Rightarrow> store \<Rightarrow> bool" where
  "in_order E R N V \<longleftrightarrow>
     (\<forall>i p. promise_in E V i = Some p \<longrightarrow> p_id (sp_record p) = i)
     \<and> (\<forall>i k. task_in E V i = Some k \<longrightarrow> t_id k = i \<and> employed E R N k
        \<and> (\<exists>p. promise_in E V i = Some p \<and> (t_state k \<noteq> TFulfilled \<longrightarrow> is_pending (sp_record p))))"

text \<open>
  The ids of the requests are issued ones, of one request each, and only a request with an id
  executes a task.
\<close>

definition told_apart :: "('q, 'x) env_scheme \<Rightarrow> enqueue_request set \<Rightarrow> string set \<Rightarrow> bool" where
  "told_apart E R I \<longleftrightarrow>
     (\<forall>r \<in> R. \<forall>i. executes E (e_payload r) i \<longrightarrow> e_id r \<noteq> None)
     \<and> (\<forall>r \<in> R. \<forall>j. e_id r = Some j \<longrightarrow> j \<in> I)
     \<and> (\<forall>r \<in> R. \<forall>s \<in> R. e_id r = e_id s \<longrightarrow> e_id r \<noteq> None \<longrightarrow> e_payload r = e_payload s)"

definition holds_own :: "('q, 'x) env_scheme \<Rightarrow> enqueue_request set \<Rightarrow> held \<Rightarrow> bool" where
  "holds_own E R h \<longleftrightarrow> (\<forall>i c. h i = Some c \<longrightarrow> job_of E R (c_id c) i)"

definition books ::
  "('q, 'x) env_scheme \<Rightarrow> ('q \<Rightarrow> store) \<Rightarrow> 'q ledger \<Rightarrow> 'q \<Rightarrow> held \<Rightarrow> bool" where
  "books E kv G q h \<longleftrightarrow> l_valid G q \<and> in_order E (l_jobs G q) (l_ended G q) (kv q)
     \<and> told_apart E (l_jobs G q) (l_issued G q) \<and> holds_own E (l_jobs G q) h"

lemma executes_same: "executes E b i \<Longrightarrow> executes E b i' \<Longrightarrow> i = i'"
  by (simp add: executes_def)

lemma job_of_mono: "job_of E R j i \<Longrightarrow> R \<subseteq> R' \<Longrightarrow> job_of E R' j i"
  by (auto simp: job_of_def)

lemma job_of_same:
  assumes "told_apart E R I" "job_of E R j i" "job_of E R j i'"
  shows "i = i'"
  using assms executes_same unfolding told_apart_def job_of_def by (metis option.distinct(1))

lemma job_of_issued: "told_apart E R I \<Longrightarrow> job_of E R j i \<Longrightarrow> j \<in> I"
  by (auto simp: told_apart_def job_of_def)

lemma employed_mono: "employed E R N k \<Longrightarrow> R \<subseteq> R' \<Longrightarrow> N' \<subseteq> N \<Longrightarrow> employed E R' N' k"
  unfolding employed_def by (blast intro: job_of_mono)

lemma in_order_mono: "in_order E R N V \<Longrightarrow> R \<subseteq> R' \<Longrightarrow> N' \<subseteq> N \<Longrightarrow> in_order E R' N' V"
  unfolding in_order_def by (meson employed_mono)

lemma told_apart_mono: "told_apart E R I \<Longrightarrow> I \<subseteq> I' \<Longrightarrow> told_apart E R I'"
  unfolding told_apart_def by blast

lemma holds_own_mono: "holds_own E R h \<Longrightarrow> R \<subseteq> R' \<Longrightarrow> holds_own E R' h"
  unfolding holds_own_def by (blast intro: job_of_mono)

lemma holds_own_upd:
  "holds_own E R h \<Longrightarrow> holds_own E R (h(i := None))"
  "holds_own E R h \<Longrightarrow> job_of E R (c_id c) i \<Longrightarrow> holds_own E R (h(i := Some c))"
  by (auto simp: holds_own_def)

text \<open>The claim of a job that executes a task has the id of the task's job.\<close>

lemma known_claim_job:
  assumes "known_claim G q c" "told_apart E (l_jobs G q) (l_issued G q)" "executes E (c_payload c) i"
  shows "job_of E (l_jobs G q) (c_id c) i"
  using assms unfolding known_claim_def told_apart_def job_of_def by (fastforce split: option.splits)

lemma known_claim_of:
  assumes c: "known_claim G q c" "told_apart E (l_jobs G q) (l_issued G q)"
    and j: "told_apart E R I" "l_jobs G q \<subseteq> R" "job_of E R (c_id c) i" "c_id c \<in> l_issued G q"
  shows "job_of E (l_jobs G q) (c_id c) i"
proof -
  obtain r where r: "r \<in> l_jobs G q" "e_id r = Some (c_id c)"
    using c(1) j(4) by (auto simp: known_claim_def split: option.splits)
  obtain s where s: "s \<in> R" "e_id s = Some (c_id c)" "executes E (e_payload s) i"
    using j(3) by (auto simp: job_of_def)
  have "e_payload r = e_payload s"
    using j(1,2) r s unfolding told_apart_def by (metis option.distinct(1) subsetD)
  with r s(3) show ?thesis by (auto simp: job_of_def)
qed

end
