(* ===== verification/Accounts.thy ===== *)
theory Accounts
  imports Ledger
begin

text \<open>
  A calculus of operations that keep the books of the queue in order.  A judgement names the facts
  that a transaction can rely on before an operation and those it can rely on afterwards.
\<close>

section \<open>Transactions in order\<close>

definition requests :: "'q ledger \<Rightarrow> 'q txn \<Rightarrow> enqueue_request set" where
  "requests G t = l_jobs G (queue t) \<union> set (enqueues t)"

text \<open>
  The work that may follow the commit: a claim is released only for a task that does not depend on
  its job, acknowledged only when it is not the claim of a task that does, and held only for the
  task that its job executes.
\<close>

fun due :: "('q, 'x) env_scheme \<Rightarrow> enqueue_request set \<Rightarrow> store \<Rightarrow> after \<Rightarrow> bool" where
  "due E R V (Ack c) \<longleftrightarrow> (\<forall>i k. task_in E V i = Some k \<longrightarrow> working k \<longrightarrow> t_job k \<noteq> Some (c_id c))"
| "due E R V (Hold i c) \<longleftrightarrow> job_of E R (c_id c) i"
| "due E R V (Release i) \<longleftrightarrow> (\<forall>k. task_in E V i = Some k \<longrightarrow> \<not> working k)"
| "due E R V (Nack i) \<longleftrightarrow> True"
| "due E R V (ClaimJob i j l) \<longleftrightarrow> job_of E R j i"

text \<open>What a transaction in progress has planned: it releases the claims of fulfilled tasks only.\<close>

fun planned :: "('q, 'x) env_scheme \<Rightarrow> enqueue_request set \<Rightarrow> store \<Rightarrow> after \<Rightarrow> bool" where
  "planned E R V (Ack c) \<longleftrightarrow> False"
| "planned E R V (Hold i c) \<longleftrightarrow> False"
| "planned E R V (Release i) \<longleftrightarrow> (\<exists>k. task_in E V i = Some k \<and> t_state k = TFulfilled)"
| "planned E R V (Nack i) \<longleftrightarrow> True"
| "planned E R V (ClaimJob i j l) \<longleftrightarrow> job_of E R j i"

definition ready :: "('q, 'x) env_scheme \<Rightarrow> ('q \<Rightarrow> store) \<Rightarrow> 'q ledger \<Rightarrow> 'q txn \<Rightarrow> bool" where
  "ready E kv G t \<longleftrightarrow> books E kv G (queue t) (held t)
     \<and> in_order E (requests G t) (l_ended G (queue t)) (view kv t)
     \<and> told_apart E (requests G t) (l_issued G (queue t))
     \<and> (\<forall>a \<in> set (after t). due E (requests G t) (view kv t) a)"

definition sound :: "('q, 'x) env_scheme \<Rightarrow> ('q \<Rightarrow> store) \<Rightarrow> 'q ledger \<Rightarrow> 'q txn \<Rightarrow> bool" where
  "sound E kv G t \<longleftrightarrow> books E kv G (queue t) (held t)
     \<and> in_order E (requests G t) (l_ended G (queue t)) (view kv t)
     \<and> told_apart E (requests G t) (l_issued G (queue t))
     \<and> (\<forall>a \<in> set (after t). planned E (requests G t) (view kv t) a)"

lemma planned_due: "planned E R V a \<Longrightarrow> due E R V a"
  by (cases a) (auto simp: working_def)

lemma sound_ready: "sound E kv G t \<Longrightarrow> ready E kv G t"
  by (auto simp: sound_def ready_def intro: planned_due)

lemma sound_books: "sound E kv G t \<Longrightarrow> books E kv G (queue t) (held t)"
  by (simp add: sound_def)

lemma planned_mono: "planned E R V a \<Longrightarrow> R \<subseteq> R' \<Longrightarrow> planned E R' V a"
  by (cases a) (auto intro: job_of_mono)

section \<open>Facts\<close>

text \<open>
  \<open>Asked r\<close>: the request is accepted or buffered.  \<open>Standing j\<close>: the job has not ended.  \<open>Known i\<close>,
  \<open>Present i\<close>: there is a promise, a task \<open>i\<close>.  \<open>Done i\<close>: the task is fulfilled.  \<open>Absent i\<close>: there is
  no task.  \<open>Open i\<close>: the promise is pending and the task, if any, not fulfilled.  \<open>Idle i\<close>: the task
  does not depend on its job.
\<close>

datatype fact = Asked enqueue_request | Standing string | Known string | Present string | Done string
  | Absent string | Open string | Idle string

fun true_of ::
  "('q, 'x) env_scheme \<Rightarrow> enqueue_request set \<Rightarrow> string set \<Rightarrow> store \<Rightarrow> fact \<Rightarrow> bool" where
  "true_of E R N V (Asked r) \<longleftrightarrow> r \<in> R"
| "true_of E R N V (Standing j) \<longleftrightarrow> j \<notin> N"
| "true_of E R N V (Known i) \<longleftrightarrow> promise_in E V i \<noteq> None"
| "true_of E R N V (Present i) \<longleftrightarrow> task_in E V i \<noteq> None"
| "true_of E R N V (Done i) \<longleftrightarrow> (\<exists>k. task_in E V i = Some k \<and> t_state k = TFulfilled)"
| "true_of E R N V (Absent i) \<longleftrightarrow> task_in E V i = None"
| "true_of E R N V (Open i) \<longleftrightarrow> (\<exists>p. promise_in E V i = Some p \<and> is_pending (sp_record p))
     \<and> (\<forall>k. task_in E V i = Some k \<longrightarrow> t_state k \<noteq> TFulfilled)"
| "true_of E R N V (Idle i) \<longleftrightarrow> (\<exists>k. task_in E V i = Some k \<and> \<not> working k)"

definition facts :: "('q, 'x) env_scheme \<Rightarrow> ('q \<Rightarrow> store) \<Rightarrow> 'q ledger \<Rightarrow> 'q txn \<Rightarrow> fact set" where
  "facts E kv G t = Collect (true_of E (requests G t) (l_ended G (queue t)) (view kv t))"

lemma facts_iff [simp]:
  "f \<in> facts E kv G t \<longleftrightarrow> true_of E (requests G t) (l_ended G (queue t)) (view kv t) f"
  by (simp add: facts_def)

text \<open>The facts that every operation keeps, and those that a move of a task keeps.\<close>

fun firm :: "fact \<Rightarrow> bool" where
  "firm (Absent i) \<longleftrightarrow> False"
| "firm (Open i) \<longleftrightarrow> False"
| "firm (Idle i) \<longleftrightarrow> False"
| "firm _ \<longleftrightarrow> True"

fun lasting :: "fact \<Rightarrow> bool" where
  "lasting (Absent i) \<longleftrightarrow> False"
| "lasting (Idle i) \<longleftrightarrow> False"
| "lasting _ \<longleftrightarrow> True"

lemma firm_lasting: "firm f \<Longrightarrow> lasting f"
  by (cases f) simp_all

section \<open>The judgement\<close>

text \<open>
  An operation accounts for what it does, from the facts \<open>H\<close>: an error leaves a queue with its books
  in order, and success a transaction in order and a result in the relation \<open>R\<close> to the facts.  With
  \<open>fin\<close> it is the end of a transaction, which leaves the queue in order in either case.
\<close>

definition outcome ::
  "('q, 'x) env_scheme \<Rightarrow> ('q \<Rightarrow> store) \<Rightarrow> 'q ledger \<Rightarrow> bool \<Rightarrow> (fact set \<Rightarrow> 'a \<Rightarrow> bool) \<Rightarrow>
   error + 'a \<Rightarrow> 'q txn \<Rightarrow> bool" where
  "outcome E kv G fin R r t \<longleftrightarrow> (case r of
     Inl _ \<Rightarrow> books E kv G (queue t) (held t)
   | Inr x \<Rightarrow> if fin then books E kv G (queue t) (held t)
       else sound E kv G t \<and> R (facts E kv G t) x)"

lemma outcome_simps [simp]:
  "outcome E kv G fin R (Inl e) t = books E kv G (queue t) (held t)"
  "outcome E kv G True R r t = books E kv G (queue t) (held t)"
  "outcome E kv G False R (Inr x) t = (sound E kv G t \<and> R (facts E kv G t) x)"
  by (simp_all add: outcome_def split: sum.split)

definition accounts ::
  "('q, 'x) env_scheme \<Rightarrow> ('q \<Rightarrow> store) \<Rightarrow> 'q ledger \<Rightarrow> bool \<Rightarrow> fact set \<Rightarrow> ('q txn, 'a) tx \<Rightarrow>
   (fact set \<Rightarrow> 'a \<Rightarrow> bool) \<Rightarrow> bool" where
  "accounts E kv G fin H m R \<longleftrightarrow> (\<forall>t. sound E kv G t \<longrightarrow> H \<subseteq> facts E kv G t \<longrightarrow>
     wp m (outcome E kv G fin R) t)"

lemma accountsI:
  assumes "\<And>t. sound E kv G t \<Longrightarrow> H \<subseteq> facts E kv G t \<Longrightarrow> wp m (outcome E kv G fin R) t"
  shows "accounts E kv G fin H m R"
  using assms by (simp add: accounts_def)

lemma accountsD:
  "accounts E kv G fin H m R \<Longrightarrow> sound E kv G t \<Longrightarrow> H \<subseteq> facts E kv G t \<Longrightarrow> wp m (outcome E kv G fin R) t"
  by (simp add: accounts_def)

lemma outcome_mono:
  "outcome E kv G fin R r t \<Longrightarrow> (\<And>H x. R H x \<Longrightarrow> S H x) \<Longrightarrow> outcome E kv G fin S r t"
  by (auto simp: outcome_def split: sum.splits)

lemma accounts_mono:
  assumes "accounts E kv G fin H m R" "H \<subseteq> H'" "\<And>H' x. R H' x \<Longrightarrow> S H' x"
  shows "accounts E kv G fin H' m S"
proof (rule accountsI)
  fix t assume "sound E kv G t" "H' \<subseteq> facts E kv G t"
  with assms(1,2) have "wp m (outcome E kv G fin R) t" by (blast intro: accountsD)
  then show "wp m (outcome E kv G fin S) t" by (rule wp_mono) (erule outcome_mono, rule assms(3))
qed

lemma accounts_less: "accounts E kv G fin H m R \<Longrightarrow> H \<subseteq> H' \<Longrightarrow> accounts E kv G fin H' m R"
  by (rule accounts_mono)

text \<open>An operation that keeps a transaction in order can also be its end.\<close>

lemma accounts_end: "accounts E kv G False H m R \<Longrightarrow> accounts E kv G fin H m R"
proof (rule accountsI)
  fix t assume "accounts E kv G False H m R" "sound E kv G t" "H \<subseteq> facts E kv G t"
  then have "wp m (outcome E kv G False R) t" by (rule accountsD)
  then show "wp m (outcome E kv G fin R) t"
    by (rule wp_mono) (auto simp: outcome_def sound_books split: sum.splits)
qed

lemma accounts_ret: "(\<And>H'. H \<subseteq> H' \<Longrightarrow> R H' x) \<Longrightarrow> accounts E kv G fin H (ret x) R"
  by (rule accounts_end) (simp add: accounts_def)

lemma accounts_fail: "accounts E kv G fin H (fail e) R"
  by (simp add: accounts_def sound_books)

lemma accounts_asks: "(\<And>H' x. H \<subseteq> H' \<Longrightarrow> R H' x) \<Longrightarrow> accounts E kv G fin H (asks h) R"
  by (rule accounts_end) (simp add: accounts_def)

lemma accounts_reads: "(\<And>H' x. H \<subseteq> H' \<Longrightarrow> R H' x) \<Longrightarrow> accounts E kv G fin H (reads f) R"
  by (rule accounts_end) (auto simp: accounts_def outcome_def sound_books split: sum.split)

lemma accounts_bnd:
  assumes "accounts E kv G False H m R" "\<And>x H'. R H' x \<Longrightarrow> accounts E kv G fin H' (f x) S"
  shows "accounts E kv G fin H (bnd m f) S"
proof (rule accountsI)
  fix t assume "sound E kv G t" "H \<subseteq> facts E kv G t"
  with assms(1) have "wp m (outcome E kv G False R) t" by (rule accountsD)
  then show "wp (bnd m f) (outcome E kv G fin S) t"
    by (rule wp_bndI) (use assms(2) in \<open>auto intro: accountsD\<close>)
qed

lemma accounts_andthen:
  assumes "accounts E kv G False H m R" "\<And>x H'. R H' x \<Longrightarrow> accounts E kv G fin H' n S"
  shows "accounts E kv G fin H (andthen m n) S"
  unfolding andthen_def by (rule accounts_bnd [OF assms])

text \<open>After the end only the reply is left to be returned.\<close>

lemma accounts_reply:
  assumes "accounts E kv G True H m R"
  shows "accounts E kv G True H (bnd m (\<lambda>x. ret (f x))) S" "accounts E kv G True H (andthen m (ret y)) S"
proof -
  have wp: "wp m (\<lambda>r t'. books E kv G (queue t') (held t')) t"
    if "sound E kv G t" "H \<subseteq> facts E kv G t" for t
    by (rule wp_mono [OF accountsD [OF assms that]]) simp
  show "accounts E kv G True H (bnd m (\<lambda>x. ret (f x))) S"
    by (rule accountsI, rule wp_bndI [OF wp]) simp_all
  show "accounts E kv G True H (andthen m (ret y)) S"
    by (rule accountsI, rule wp_andthenI [OF wp]) simp_all
qed

text \<open>What most operations do: the facts stay.\<close>

abbreviation stays :: "fact set \<Rightarrow> fact set \<Rightarrow> 'a \<Rightarrow> bool" where
  "stays H \<equiv> \<lambda>H' _. H \<subseteq> H'"

text \<open>What a settlement keeps, and what a move of a task keeps.\<close>

abbreviation firmly :: "fact set \<Rightarrow> fact set \<Rightarrow> 'a \<Rightarrow> bool" where
  "firmly H \<equiv> stays (H \<inter> Collect firm)"

abbreviation lastly :: "fact set \<Rightarrow> fact set \<Rightarrow> 'a \<Rightarrow> bool" where
  "lastly H \<equiv> stays (H \<inter> Collect lasting)"

lemma accounts_stays: "accounts E kv G False H' m (stays H') \<Longrightarrow> H \<subseteq> H' \<Longrightarrow> accounts E kv G False H' m (stays H)"
  by (erule accounts_mono) auto

lemma accounts_then:
  assumes "accounts E kv G False H m (stays H)"
  shows "(\<And>x. accounts E kv G fin H (f x) R) \<Longrightarrow> accounts E kv G fin H (bnd m f) R"
    and "accounts E kv G fin H n R \<Longrightarrow> accounts E kv G fin H (andthen m n) R"
  using assms by (auto intro: accounts_bnd accounts_andthen accounts_less)

text \<open>From firm facts only, a settlement keeps all of them.\<close>

definition all_firm :: "fact set \<Rightarrow> bool" where
  "all_firm H \<longleftrightarrow> H \<subseteq> Collect firm"

lemma all_firmI: "all_firm {}" "all_firm (H \<inter> Collect firm)"
  by (simp_all add: all_firm_def)

lemma accounts_for_each:
  assumes "\<And>x. x \<in> set xs \<Longrightarrow> accounts E kv G False H (f x) (stays H)"
  shows "accounts E kv G False H (for_each f xs) (stays H)"
  using assms
proof (induction xs)
  case Nil
  show ?case by (simp add: accounts_ret)
next
  case (Cons x xs)
  then show ?case by (auto intro: accounts_then(2))
qed

lemma accounts_expect: "accounts E kv G False H (expect msg x) (\<lambda>H' y. H \<subseteq> H' \<and> x = Some y)"
  by (cases x) (simp_all add: expect_def accounts_ret accounts_fail)

lemma accounts_if:
  "(b \<Longrightarrow> accounts E kv G fin H m R) \<Longrightarrow> (\<not> b \<Longrightarrow> accounts E kv G fin H n R) \<Longrightarrow>
   accounts E kv G fin H (if b then m else n) R"
  by simp

lemma accounts_option:
  "(x = None \<Longrightarrow> accounts E kv G fin H m R) \<Longrightarrow> (\<And>y. x = Some y \<Longrightarrow> accounts E kv G fin H (f y) R) \<Longrightarrow>
   accounts E kv G fin H (case x of None \<Rightarrow> m | Some y \<Rightarrow> f y) R"
  by (simp split: option.split)

lemma accounts_sum:
  "(\<And>y. x = Inl y \<Longrightarrow> accounts E kv G fin H (f y) R) \<Longrightarrow> (\<And>z. x = Inr z \<Longrightarrow> accounts E kv G fin H (g z) R) \<Longrightarrow>
   accounts E kv G fin H (case x of Inl y \<Rightarrow> f y | Inr z \<Rightarrow> g z) R"
  by (simp split: sum.split)

lemma accounts_states:
  assumes "st = TPending \<Longrightarrow> accounts E kv G fin H a R" "st = TAcquired \<Longrightarrow> accounts E kv G fin H b R"
    "st = TSuspended \<Longrightarrow> accounts E kv G fin H c R" "st = THalted \<Longrightarrow> accounts E kv G fin H d R"
    "st = TFulfilled \<Longrightarrow> accounts E kv G fin H e R"
  shows "accounts E kv G fin H (case st of TPending \<Rightarrow> a | TAcquired \<Rightarrow> b | TSuspended \<Rightarrow> c | THalted \<Rightarrow> d | TFulfilled \<Rightarrow> e) R"
  using assms by (simp split: task_state.split)

section \<open>Reads\<close>

definition hired :: "('q, 'x) env_scheme \<Rightarrow> fact set \<Rightarrow> stored_task \<Rightarrow> bool" where
  "hired E H k \<longleftrightarrow> (t_state k \<noteq> TFulfilled \<longrightarrow>
     (\<exists>j r. t_job k = Some j \<and> Asked r \<in> H \<and> e_id r = Some j \<and> executes E (e_payload r) (t_id k)
        \<and> (working k \<longrightarrow> Standing j \<in> H)))"

lemma hired_facts [simp]:
  "hired E (facts E kv G t) k \<longleftrightarrow> employed E (requests G t) (l_ended G (queue t)) k"
  by (auto simp: hired_def employed_def job_of_def)

lemma hired_mono: "hired E H k \<Longrightarrow> H \<subseteq> H' \<Longrightarrow> hired E H' k"
  unfolding hired_def by blast

text \<open>A task as it stands in the store.\<close>

definition stands :: "('q, 'x) env_scheme \<Rightarrow> fact set \<Rightarrow> stored_task \<Rightarrow> bool" where
  "stands E H k \<longleftrightarrow> hired E H k \<and> Present (t_id k) \<in> H \<and> Known (t_id k) \<in> H
     \<and> (\<not> working k \<longrightarrow> Idle (t_id k) \<in> H)
     \<and> (if t_state k = TFulfilled then Done (t_id k) \<in> H else Open (t_id k) \<in> H)"

definition read_promise :: "fact set \<Rightarrow> string \<Rightarrow> stored_promise option \<Rightarrow> bool" where
  "read_promise H i x \<longleftrightarrow> (case x of None \<Rightarrow> Absent i \<in> H
     | Some p \<Rightarrow> p_id (sp_record p) = i \<and> Known i \<in> H \<and> (Open i \<in> H \<longrightarrow> is_pending (sp_record p)))"

definition read_task :: "('q, 'x) env_scheme \<Rightarrow> fact set \<Rightarrow> string \<Rightarrow> stored_task option \<Rightarrow> bool" where
  "read_task E H i x \<longleftrightarrow> (case x of None \<Rightarrow> Absent i \<in> H \<and> Present i \<notin> H | Some k \<Rightarrow> t_id k = i \<and> stands E H k)"

lemma accounts_get:
  assumes c: "queue_contract E kv"
  shows "accounts E kv G False H (get_promise E i) (\<lambda>H' x. H \<subseteq> H' \<and> read_promise H' i x)"
    and "accounts E kv G False H (get_task E i) (\<lambda>H' x. H \<subseteq> H' \<and> read_task E H' i x)"
    and "accounts E kv G False H (get_schedule E i) (stays H)"
proof -
  have p: "read_promise (facts E kv G t) i (promise_in E (view kv t) i)"
    and k: "read_task E (facts E kv G t) i (task_in E (view kv t) i)" if "sound E kv G t" for t
  proof -
    have V: "in_order E (requests G t) (l_ended G (queue t)) (view kv t)" using that by (simp add: sound_def)
    show "read_promise (facts E kv G t) i (promise_in E (view kv t) i)"
      using V unfolding read_promise_def in_order_def
      by (cases "promise_in E (view kv t) i"; cases "task_in E (view kv t) i") fastforce+
    show "read_task E (facts E kv G t) i (task_in E (view kv t) i)"
      using V unfolding read_task_def in_order_def stands_def by (fastforce split: option.split)
  qed
  show "accounts E kv G False H (get_promise E i) (\<lambda>H' x. H \<subseteq> H' \<and> read_promise H' i x)"
  proof (rule accountsI)
    fix t assume "sound E kv G t" "H \<subseteq> facts E kv G t"
    with promise_store.get_json_view [OF c refl, of i t] p
    show "wp (get_promise E i) (outcome E kv G False (\<lambda>H' x. H \<subseteq> H' \<and> read_promise H' i x)) t"
      by (auto simp: get_promise_def promise_in_def sound_books)
  qed
  show "accounts E kv G False H (get_task E i) (\<lambda>H' x. H \<subseteq> H' \<and> read_task E H' i x)"
  proof (rule accountsI)
    fix t assume "sound E kv G t" "H \<subseteq> facts E kv G t"
    with task_store.get_json_view [OF c refl, of i t] k
    show "wp (get_task E i) (outcome E kv G False (\<lambda>H' x. H \<subseteq> H' \<and> read_task E H' i x)) t"
      by (auto simp: get_task_def task_in_def sound_books)
  qed
  show "accounts E kv G False H (get_schedule E i) (stays H)"
    unfolding get_schedule_def by (rule accounts_reads)
qed

section \<open>Writes\<close>

text \<open>An operation that only writes records.\<close>

definition writes_to ::
  "('q \<Rightarrow> store) \<Rightarrow> 'q txn \<Rightarrow> store \<Rightarrow> 'q txn \<Rightarrow> bool" where
  "writes_to kv t V t' \<longleftrightarrow> queue t' = queue t \<and> held t' = held t \<and> enqueues t' = enqueues t
     \<and> after t' = after t \<and> view kv t' = V"

lemma accounts_write:
  assumes run: "\<And>t. \<exists>t'. m t = (Inr x, t') \<and> writes_to kv t (f (view kv t)) t'"
    and order: "\<And>R N V. in_order E R N V \<Longrightarrow> H \<subseteq> Collect (true_of E R N V) \<Longrightarrow> in_order E R N (f V)"
    and still: "\<And>R N V i. H \<subseteq> Collect (true_of E R N V) \<Longrightarrow> true_of E R N V (Done i) \<Longrightarrow> true_of E R N (f V) (Done i)"
    and R: "\<And>R N V. in_order E R N V \<Longrightarrow> H \<subseteq> Collect (true_of E R N V) \<Longrightarrow> S (Collect (true_of E R N (f V))) x"
  shows "accounts E kv G False H m S"
proof (rule accountsI)
  fix t assume t: "sound E kv G t" "H \<subseteq> facts E kv G t"
  let ?R = "requests G t" and ?N = "l_ended G (queue t)" and ?V = "view kv t"
  obtain t' where t': "m t = (Inr x, t')" "writes_to kv t (f ?V) t'" using run by blast
  have same: "requests G t' = ?R" "l_ended G (queue t') = ?N" "view kv t' = f ?V"
    using t'(2) by (simp_all add: writes_to_def requests_def)
  have true: "H \<subseteq> Collect (true_of E ?R ?N ?V)" "in_order E ?R ?N ?V"
    using t by (simp_all add: facts_def sound_def)
  have "planned E ?R (f ?V) a" if "planned E ?R ?V a" for a
    using that still [OF true(1)] by (cases a) auto
  then have "sound E kv G t'"
    using t(1) t'(2) order [OF true(2,1)] by (simp add: sound_def same) (simp add: writes_to_def)
  moreover have "S (facts E kv G t') x"
    using R [OF true(2,1)] by (simp add: facts_def same)
  ultimately show "wp m (outcome E kv G False S) t" using t'(1) by (simp add: wp_def)
qed

lemma writes_put:
  "writes_to kv t (put_p p (view kv t)) (put_json (promise_key (p_id (sp_record p))) (enc_stored_promise p) t)"
  "writes_to kv t (put_t k (view kv t)) (put_json (task_key (t_id k)) (enc_task k) t)"
  "writes_to kv t (put_s s (view kv t)) (put_json (schedule_key (s_id s)) (enc_schedule s) t)"
  "writes_to kv t (del_s i (view kv t)) (t\<lparr>writes := om_insert (schedule_key i) None (writes t)\<rparr>)"
  by (simp_all add: writes_to_def put_defs)

lemma run_put:
  "\<exists>t'. put_promise p t = (Inr (), t') \<and> writes_to kv t (put_p p (view kv t)) t'"
  "\<exists>t'. put_task k t = (Inr (), t') \<and> writes_to kv t (put_t k (view kv t)) t'"
  "\<exists>t'. put_schedule s t = (Inr (), t') \<and> writes_to kv t (put_s s (view kv t)) t'"
  "\<exists>t'. delete_schedule i t = (Inr (), t') \<and> writes_to kv t (del_s i (view kv t)) t'"
  using writes_put by (simp_all add: put_promise_def put_task_def put_schedule_def delete_schedule_def)

text \<open>What a write leaves as it was.\<close>

lemma true_of_other [simp]:
  "true_of E R N (put_s s V) f = true_of E R N V f" "true_of E R N (del_s i V) f = true_of E R N V f"
  by (cases f; simp)+

text \<open>A promise that is written pending, new or not, and one that is written settled.\<close>

lemma accounts_put_pending:
  assumes p: "is_pending (sp_record p)"
  shows "accounts E kv G False H (put_promise p) (\<lambda>H' _. H \<subseteq> H' \<and> Known (p_id (sp_record p)) \<in> H'
     \<and> (Absent (p_id (sp_record p)) \<in> H \<longrightarrow> Open (p_id (sp_record p)) \<in> H'))"
proof (rule accounts_write [OF run_put(1)])
  fix R N V assume V: "in_order E R N V" "H \<subseteq> Collect (true_of E R N V)"
  show "in_order E R N (put_p p V)" using V(1) p by (auto simp: in_order_def)
  have "true_of E R N (put_p p V) f" if "true_of E R N V f" for f
    using that p by (cases f) auto
  then show "H \<subseteq> Collect (true_of E R N (put_p p V)) \<and> Known (p_id (sp_record p)) \<in> Collect (true_of E R N (put_p p V))
     \<and> (Absent (p_id (sp_record p)) \<in> H \<longrightarrow> Open (p_id (sp_record p)) \<in> Collect (true_of E R N (put_p p V)))"
    using V p by auto
qed simp

lemma accounts_put_settled:
  assumes "Done (p_id (sp_record p)) \<in> H \<or> Absent (p_id (sp_record p)) \<in> H"
  shows "accounts E kv G False H (put_promise p)
    (\<lambda>H' _. (\<forall>f \<in> H. (\<forall>i. f \<noteq> Open i) \<longrightarrow> f \<in> H') \<and> Known (p_id (sp_record p)) \<in> H')"
proof (rule accounts_write [OF run_put(1)])
  fix R N V assume V: "in_order E R N V" "H \<subseteq> Collect (true_of E R N V)"
  then have "true_of E R N V (Done (p_id (sp_record p))) \<or> true_of E R N V (Absent (p_id (sp_record p)))"
    using assms by blast
  then show "in_order E R N (put_p p V)" using V(1) by (auto simp: in_order_def)
  have "true_of E R N (put_p p V) f" if "true_of E R N V f" "\<forall>i. f \<noteq> Open i" for f
    using that by (cases f) auto
  then show "(\<forall>f \<in> H. (\<forall>i. f \<noteq> Open i) \<longrightarrow> f \<in> Collect (true_of E R N (put_p p V)))
      \<and> Known (p_id (sp_record p)) \<in> Collect (true_of E R N (put_p p V))"
    using V(2) by auto
qed simp

text \<open>A task that is moved, and one that is fulfilled.\<close>

lemma hired_true [simp]:
  "hired E (Collect (true_of E R N V)) k \<longleftrightarrow> employed E R N k"
  by (auto simp: hired_def employed_def job_of_def)

lemma accounts_put_task:
  assumes k: "hired E H k" "Open (t_id k) \<in> H" "t_state k \<noteq> TFulfilled"
  shows "accounts E kv G False H (put_task k) (\<lambda>H' _. H \<inter> Collect lasting \<subseteq> H' \<and> stands E H' k)"
proof (rule accounts_write [OF run_put(2)])
  fix R N V assume V: "in_order E R N V" "H \<subseteq> Collect (true_of E R N V)"
  have emp: "employed E R N k" using hired_mono [OF k(1) V(2)] by simp
  have "true_of E R N V (Open (t_id k))" using k(2) V(2) by blast
  then show "in_order E R N (put_t k V)" using V(1) emp by (auto simp: in_order_def)
  have "true_of E R N (put_t k V) f" if "true_of E R N V f" "lasting f" for f
    using that k(3) \<open>true_of E R N V (Open (t_id k))\<close> by (cases f) auto
  then show "H \<inter> Collect lasting \<subseteq> Collect (true_of E R N (put_t k V)) \<and> stands E (Collect (true_of E R N (put_t k V))) k"
    using V(2) k(3) emp \<open>true_of E R N V (Open (t_id k))\<close> by (auto simp: stands_def)
next
  fix R N V i assume V: "H \<subseteq> Collect (true_of E R N V)" "true_of E R N V (Done i)"
  then have "true_of E R N V (Open (t_id k))" using k(2) by blast
  with V(2) show "true_of E R N (put_t k V) (Done i)" by auto
qed

lemma accounts_put_done:
  assumes k: "Known (t_id k) \<in> H" "t_state k = TFulfilled"
  shows "accounts E kv G False H (put_task k) (\<lambda>H' _. H \<inter> Collect firm \<subseteq> H' \<and> Done (t_id k) \<in> H')"
proof (rule accounts_write [OF run_put(2)])
  fix R N V assume V: "in_order E R N V" "H \<subseteq> Collect (true_of E R N V)"
  have "true_of E R N V (Known (t_id k))" using k(1) V(2) by blast
  then show "in_order E R N (put_t k V)" using V(1) k(2) by (auto simp: in_order_def employed_def)
  have "true_of E R N (put_t k V) f" if "true_of E R N V f" "firm f" for f
    using that k(2) by (cases f) auto
  then show "H \<inter> Collect firm \<subseteq> Collect (true_of E R N (put_t k V)) \<and> Done (t_id k) \<in> Collect (true_of E R N (put_t k V))"
    using V(2) k(2) by auto
qed (use k(2) in auto)

lemma accounts_puts:
  "accounts E kv G False H (put_schedule s) (stays H)" "accounts E kv G False H (delete_schedule i) (stays H)"
  "accounts E kv G False H (index_branch r) (stays H)"
proof -
  show "accounts E kv G False H (put_schedule s) (stays H)"
    by (rule accounts_write [OF run_put(3)]) (auto simp: in_order_def)
  show "accounts E kv G False H (delete_schedule i) (stays H)"
    by (rule accounts_write [OF run_put(4)]) (auto simp: in_order_def)
  show "accounts E kv G False H (index_branch r) (stays H)"
  proof (cases "om_get (p_tags r) TAG_BRANCH")
    case None
    then show ?thesis by (simp add: index_branch_def accounts_ret)
  next
    case (Some b)
    let ?f = "\<lambda>V. V(branch_key b (p_id r) := Some (Raw []))"
    have same: "true_of E R N (?f V) f = true_of E R N V f" for R N V f by (cases f) simp_all
    show ?thesis
      by (rule accounts_write [where f = ?f and x = "()"])
        (use Some in \<open>auto simp: index_branch_def writes_to_def in_order_def same simp del: true_of.simps\<close>)
  qed
qed

section \<open>Jobs, claims and plans\<close>

text \<open>An operation that changes what the transaction keeps beside its writes.\<close>

lemma facts_cong:
  "requests G t' = requests G t \<Longrightarrow> l_ended G (queue t') = l_ended G (queue t) \<Longrightarrow> view kv t' = view kv t \<Longrightarrow>
   facts E kv G t' = facts E kv G t"
  by (simp add: facts_def)

lemma executes_simps [simp]:
  "executes E (Doc (enc_delivery (Unblock m))) i \<longleftrightarrow> False" "executes E (Doc (enc_timer tm)) i \<longleftrightarrow> False"
  "executes E (Doc (enc_delivery (Execute j))) i \<longleftrightarrow> i = j"
proof -
  show "executes E (Doc (enc_delivery (Unblock m))) i \<longleftrightarrow> False"
    "executes E (Doc (enc_delivery (Execute j))) i \<longleftrightarrow> i = j"
    by (auto simp: executes_def from_slice_enc codec)
  have "dec_delivery (enc_timer tm) = None"
    by (cases tm) (simp_all add: dec_delivery_def enc_timer_def field_def dec_string_def)
  then show "executes E (Doc (enc_timer tm)) i \<longleftrightarrow> False"
    by (simp add: executes_def from_slice_def)
qed

lemma told_apart_insert:
  assumes R: "told_apart E R I" and r: "e_id r = None" "\<And>i. \<not> executes E (e_payload r) i"
  shows "told_apart E (insert r R) I"
proof -
  have in_R: "a \<in> R" if "a \<in> insert r R" "e_id a \<noteq> None" for a
    using that r(1) by auto
  have "e_payload a = e_payload b" if "a \<in> insert r R" "b \<in> insert r R" "e_id a = e_id b" "e_id a \<noteq> None" for a b
    using R in_R [OF that(1,4)] in_R [OF that(2)] that(3,4) unfolding told_apart_def by metis
  moreover have "e_id a \<noteq> None" if "a \<in> insert r R" "executes E (e_payload a) i" for a i
    using R r(2) that unfolding told_apart_def by blast
  moreover have "j \<in> I" if "a \<in> insert r R" "e_id a = Some j" for a j
    using R in_R [OF that(1)] that(2) unfolding told_apart_def by simp
  ultimately show ?thesis unfolding told_apart_def by blast
qed

lemma true_of_mono:
  "true_of E R N V f \<Longrightarrow> R \<subseteq> R' \<Longrightarrow> N' \<subseteq> N \<Longrightarrow> true_of E R' N' V f"
  by (cases f) auto

lemma accounts_enqueue:
  assumes "e_id r = None" "\<And>i. \<not> executes E (e_payload r) i"
  shows "accounts E kv G False H (enqueue r) (stays H)"
proof (rule accountsI)
  fix t assume t: "sound E kv G t" "H \<subseteq> facts E kv G t"
  let ?t = "t\<lparr>enqueues := enqueues t @ [r]\<rparr>"
  have more: "requests G ?t = insert r (requests G t)" by (auto simp: requests_def)
  have "sound E kv G ?t"
    using t(1) told_apart_insert [OF _ assms] unfolding sound_def more
    by (auto intro: in_order_mono planned_mono)
  moreover have "facts E kv G t \<subseteq> facts E kv G ?t"
    by (auto simp: more intro: true_of_mono)
  ultimately show "wp (enqueue r) (outcome E kv G False (stays H)) t"
    using t(2) by (simp add: enqueue_def)
qed

lemma accounts_unblock: "accounts E kv G False H (send_unblock E a m) (stays H)"
  unfolding send_unblock_def by (rule accounts_enqueue) simp_all

lemma accounts_timer: "accounts E kv G False H (schedule_timer tm at) (stays H)"
  unfolding schedule_timer_def timer_request_def by (rule accounts_enqueue) simp_all

lemma sound_held:
  "sound E kv G t \<Longrightarrow> holds_own E (l_jobs G (queue t)) h \<Longrightarrow> sound E kv G (t\<lparr>held := h\<rparr>)"
  by (simp add: sound_def books_def requests_def)

lemma facts_held [simp]: "facts E kv G (t\<lparr>held := h\<rparr>) = facts E kv G t"
  by (rule facts_cong) (simp_all add: requests_def)

lemma sound_drop: "sound E kv G t \<Longrightarrow> sound E kv G (drop_claim i t)"
  unfolding drop_claim_def by (rule sound_held) (auto simp: sound_def books_def intro: holds_own_upd)

lemma sound_kept:
  assumes t: "sound E kv G t" and q: "kept_books G (queue t) q'" "kv q' = kv (queue t)"
  shows "sound E kv G (t\<lparr>queue := q'\<rparr>)" "facts E kv G t \<subseteq> facts E kv G (t\<lparr>queue := q'\<rparr>)"
proof -
  have same: "requests G (t\<lparr>queue := q'\<rparr>) = requests G t" "view kv (t\<lparr>queue := q'\<rparr>) = view kv t"
    using q by (simp_all add: requests_def kept_books_def)
  show "sound E kv G (t\<lparr>queue := q'\<rparr>)"
    using t q unfolding sound_def same
    by (auto simp: books_def kept_books_def intro: in_order_mono told_apart_mono)
  show "facts E kv G t \<subseteq> facts E kv G (t\<lparr>queue := q'\<rparr>)"
    using q unfolding facts_def same by (auto simp: kept_books_def intro: true_of_mono)
qed

lemma accounts_holds: "accounts E kv G False H (holds E i) (stays H)"
proof (rule accountsI)
  fix t assume t: "sound E kv G t" "H \<subseteq> facts E kv G t"
  then show "wp (holds E i) (outcome E kv G False (stays H)) t"
    using sound_drop [OF t(1), of i]
    by (auto simp: wp_def holds_def drop_claim_def split: option.split)
qed

lemma sound_valid: "sound E kv G t \<Longrightarrow> l_valid G (queue t)"
  by (simp add: sound_def books_def)

lemma accounts_renew:
  assumes q: "keeps_books E kv G"
  shows "accounts E kv G False H (renew E i lease) (stays H)"
proof -
  have "accounts E kv G False H (\<lambda>t. case held t i of
      None \<Rightarrow> (Inl (Panic ''no entry found for key''), t)
    | Some c \<Rightarrow> (case q_renew_lease E (queue t) c lease of
        (Inr _, q') \<Rightarrow> (Inr True, t\<lparr>queue := q'\<rparr>)
      | (Inl _, q') \<Rightarrow> (Inr False, drop_claim i (t\<lparr>queue := q'\<rparr>)))) (stays H)"
  proof (rule accountsI)
    fix t assume t: "sound E kv G t" "H \<subseteq> facts E kv G t"
    have kept: "sound E kv G (t\<lparr>queue := q'\<rparr>)" "H \<subseteq> facts E kv G (t\<lparr>queue := q'\<rparr>)"
      "sound E kv G (drop_claim i (t\<lparr>queue := q'\<rparr>))" "H \<subseteq> facts E kv G (drop_claim i (t\<lparr>queue := q'\<rparr>))"
      if run: "q_renew_lease E (queue t) c lease = (r, q')" for c r q'
    proof -
      note k = sound_kept [OF t(1) books_claims(2) [OF q sound_valid [OF t(1)] run]
          contract_claims(2) [OF books_contract [OF q] run]]
      show "sound E kv G (t\<lparr>queue := q'\<rparr>)" "sound E kv G (drop_claim i (t\<lparr>queue := q'\<rparr>))"
        using k(1) by (auto intro: sound_drop)
      show "H \<subseteq> facts E kv G (t\<lparr>queue := q'\<rparr>)" "H \<subseteq> facts E kv G (drop_claim i (t\<lparr>queue := q'\<rparr>))"
        using t(2) k(2) by (auto simp: drop_claim_def simp del: facts_iff)
    qed
    show "wp (\<lambda>t. case held t i of
      None \<Rightarrow> (Inl (Panic ''no entry found for key''), t)
    | Some c \<Rightarrow> (case q_renew_lease E (queue t) c lease of
        (Inr _, q') \<Rightarrow> (Inr True, t\<lparr>queue := q'\<rparr>)
      | (Inl _, q') \<Rightarrow> (Inr False, drop_claim i (t\<lparr>queue := q'\<rparr>)))) (outcome E kv G False (stays H)) t"
      using sound_books [OF t(1)] kept
      by (simp add: wp_def split: option.split prod.split sum.split)
  qed
  then show ?thesis
    unfolding renew_def
    by (intro accounts_then(1) [OF accounts_holds] accounts_if accounts_ret)
qed

lemma accounts_claim:
  assumes q: "keeps_books E kv G" and j: "Asked r \<in> H" "e_id r = Some j" "executes E (e_payload r) i"
  shows "accounts E kv G False H (claim_job E i j lease) (stays H)"
proof (rule accountsI)
  fix t assume t: "sound E kv G t" "H \<subseteq> facts E kv G t"
  obtain x q' where run: "q_claim_by_id E (queue t) j lease = (x, q')"
    by (cases "q_claim_by_id E (queue t) j lease")
  let ?t = "t\<lparr>queue := q'\<rparr>"
  note k = sound_kept [OF t(1) books_claims(3) [OF q sound_valid [OF t(1)] run]
      contract_claims(3) [OF books_contract [OF q] run]]
  have apart: "told_apart E (l_jobs G (queue t)) (l_issued G (queue t))"
      "told_apart E (requests G t) (l_issued G (queue t))" "l_jobs G (queue t) \<subseteq> requests G t"
    using t(1) by (auto simp: sound_def books_def requests_def)
  have "r \<in> requests G t" using j(1) t(2) by (auto simp: facts_def)
  then have job: "job_of E (requests G t) j i" using j(2,3) by (auto simp: job_of_def)
  have own: "sound E kv G (?t\<lparr>held := (held t)(i := Some c)\<rparr>)" if "x = Inr (Claimed c)" for c
  proof -
    have c: "c_id c = j" "known_claim G (queue t) c"
      using books_claims(4) [OF q sound_valid [OF t(1)] run [unfolded that]] by auto
    have "job_of E (l_jobs G (queue t)) (c_id c) i"
      by (rule known_claim_of [OF c(2) apart]) (use job job_of_issued [OF apart(2)] c in auto)
    then have "job_of E (l_jobs G (queue ?t)) (c_id c) i"
      using books_claims(3) [OF q sound_valid [OF t(1)] run] by (simp add: kept_books_def)
    then show ?thesis
      using k(1) by (intro sound_held [OF k(1)]) (auto simp: sound_def books_def intro: holds_own_upd)
  qed
  have "H \<subseteq> facts E kv G ?t" using k(2) t(2) by blast
  then show "wp (claim_job E i j lease) (outcome E kv G False (stays H)) t"
    using run own k(1) sound_books [OF k(1)]
    by (auto simp: wp_def claim_job_def run_bnd run_andthen run_ret call_def storage_def hold_claim_def
        simp del: facts_iff split: sum.split claim_outcome.split)
qed

lemma accounts_job_exists:
  assumes q: "keeps_books E kv G"
  shows "accounts E kv G False H (job_exists E j) (\<lambda>H' b. H \<subseteq> H' \<and> (b \<longrightarrow> Standing j \<in> H'))"
proof (rule accountsI)
  fix t assume t: "sound E kv G t" "H \<subseteq> facts E kv G t"
  show "wp (job_exists E j) (outcome E kv G False (\<lambda>H' b. H \<subseteq> H' \<and> (b \<longrightarrow> Standing j \<in> H'))) t"
    using t sound_books [OF t(1)] books_claims(8) [OF q sound_valid [OF t(1)]]
    by (auto simp: wp_def job_exists_def run_bnd run_ret storage_def split: sum.split)
qed

lemma accounts_load:
  assumes q: "keeps_books E kv G"
  shows "accounts E kv G False H (load_records E ids) (stays H)"
proof (induction ids)
  case (Cons i ids)
  have get: "accounts E kv G False H (get_promise E i) (stays H)"
    by (rule accounts_mono [OF accounts_get(1) [OF books_contract [OF q], where H = H]]) auto
  show ?case
    unfolding load_records.simps
    by (rule accounts_then(1) [OF get], rule accounts_then(1) [OF Cons.IH], rule accounts_ret)
qed (simp add: accounts_ret)

lemma accounts_preload:
  assumes q: "keeps_books E kv G"
  shows "accounts E kv G False H (preload E p) (stays H)"
  unfolding preload_def
  by (intro accounts_option accounts_ret accounts_then(1) [OF accounts_reads] accounts_load [OF q])

lemma accounts_after:
  assumes "\<And>R N V. H \<subseteq> Collect (true_of E R N V) \<Longrightarrow> planned E R V a"
  shows "accounts E kv G False H (add_after a) (stays H)"
proof (rule accountsI)
  fix t assume t: "sound E kv G t" "H \<subseteq> facts E kv G t"
  let ?t = "t\<lparr>after := after t @ [a]\<rparr>"
  have same: "requests G ?t = requests G t" "facts E kv G ?t = facts E kv G t"
    by (simp_all add: requests_def facts_def)
  have "planned E (requests G t) (view kv t) a"
    using t(2) by (intro assms) (simp add: facts_def)
  then have "sound E kv G ?t" using t(1) by (auto simp: sound_def same)
  then show "wp (add_after a) (outcome E kv G False (stays H)) t"
    using t(2) by (simp add: add_after_def same)
qed

lemma accounts_nack: "accounts E kv G False H (nack_after_commit i) (stays H)"
  unfolding nack_after_commit_def by (rule accounts_after) simp

lemma accounts_release: "Done i \<in> H \<Longrightarrow> accounts E kv G False H (release i) (stays H)"
  unfolding release_def by (rule accounts_after) auto

lemma accounts_claim_after:
  assumes "stands E H k" "t_state k \<noteq> TFulfilled"
  shows "accounts E kv G False H (claim_after_commit k lease) (stays H)"
  unfolding claim_after_commit_def
proof (rule accounts_bnd [OF accounts_expect [where H = H]])
  fix j H' assume j: "H \<subseteq> H' \<and> t_job k = Some j"
  then obtain r where "Asked r \<in> H'" "e_id r = Some j" "executes E (e_payload r) (t_id k)"
    using assms by (auto simp: stands_def hired_def)
  then have "accounts E kv G False H' (add_after (ClaimJob (t_id k) j lease)) (stays H')"
    by (intro accounts_after) (auto simp: job_of_def dest!: subsetD)
  then show "accounts E kv G False H' (add_after (ClaimJob (t_id k) j lease)) (stays H)"
    by (rule accounts_stays) (use j in simp)
qed

lemma told_apart_fresh:
  assumes R: "told_apart E R I" and r: "e_id r = Some j" "j \<notin> I"
  shows "told_apart E (insert r R) (insert j I)"
proof -
  have old: "e_id a \<noteq> Some j" if "a \<in> R" for a
    using R r(2) that unfolding told_apart_def by blast
  have "e_payload a = e_payload b" if "a \<in> insert r R" "b \<in> insert r R" "e_id a = e_id b" "e_id a \<noteq> None" for a b
    using R old r(1) that unfolding told_apart_def by (metis insert_iff)
  moreover have "e_id a \<noteq> None" if "a \<in> insert r R" "executes E (e_payload a) i" for a i
    using R r(1) that unfolding told_apart_def by auto
  moreover have "k \<in> insert j I" if "a \<in> insert r R" "e_id a = Some k" for a k
    using R r(1) that unfolding told_apart_def by auto
  ultimately show ?thesis unfolding told_apart_def by blast
qed

lemma true_of_put_t:
  assumes "true_of E R N V f" "lasting f" "true_of E R N V (Open (t_id k))" "t_state k \<noteq> TFulfilled"
  shows "true_of E R N (put_t k V) f"
  using assms by (cases f) auto

lemma planned_put_t:
  assumes "planned E R V a" "true_of E R N V (Open (t_id k))"
  shows "planned E R (put_t k V) a"
  using assms by (cases a) auto

text \<open>A task is dispatched under a job of its own, which stands.\<close>

lemma accounts_dispatch:
  assumes q: "keeps_books E kv G" and k: "Open (t_id k) \<in> H" "t_state k \<noteq> TFulfilled"
  shows "accounts E kv G False H (dispatch E k at) (\<lambda>H' k'. H \<inter> Collect lasting \<subseteq> H' \<and> stands E H' k'
    \<and> t_id k' = t_id k \<and> t_state k' = t_state k)"
proof (rule accountsI)
  fix t assume t: "sound E kv G t" "H \<subseteq> facts E kv G t"
  obtain job q' where q': "q_next_job_id E (queue t) = (job, q')"
    by (cases "q_next_job_id E (queue t)")
  note issued = books_claims(1) [OF q sound_valid [OF t(1)] q']
  let ?k = "k\<lparr>t_job := Some job\<rparr>" let ?r = "execute_request E ?k job at"
  let ?R = "requests G t" and ?N = "l_ended G q'" and ?V = "view kv t"
  have kept: "sound E kv G (t\<lparr>queue := q'\<rparr>)" "facts E kv G t \<subseteq> facts E kv G (t\<lparr>queue := q'\<rparr>)"
    using sound_kept [OF t(1) _ contract_claims(1) [OF books_contract [OF q] q']] issued by auto
  have same: "requests G (t\<lparr>queue := q'\<rparr>) = ?R" "view kv (t\<lparr>queue := q'\<rparr>) = ?V"
    using issued contract_claims(1) [OF books_contract [OF q] q'] by (simp_all add: requests_def kept_books_def)
  obtain u where u_def: "u = (put_json (task_key (t_id ?k)) (enc_task ?k) (t\<lparr>queue := q'\<rparr>))\<lparr>enqueues := enqueues t @ [?r]\<rparr>"
    by blast
  have u: "requests G u = insert ?r ?R" "view kv u = put_t ?k ?V" "queue u = q'" "held u = held t" "after u = after t"
    using same by (auto simp: u_def requests_def put_t_def)
  have H: "H \<subseteq> Collect (true_of E ?R ?N ?V)"
    using t(2) kept(2) by (auto simp: facts_def same)
  then have "true_of E ?R ?N ?V (Open (t_id ?k))" using k(1) by auto
  note opened = this
  have standing: "job \<notin> ?N" using issued by (auto simp: kept_books_def)
  have emp: "employed E (insert ?r ?R) ?N ?k"
    using standing by (auto simp: employed_def job_of_def execute_request_def)
  have order: "in_order E (insert ?r ?R) ?N (put_t ?k ?V)"
    using in_order_mono [of E ?R ?N ?V "insert ?r ?R" ?N] kept(1) emp opened
    by (auto simp: sound_def same in_order_def)
  have apart: "told_apart E (insert ?r ?R) (l_issued G q')"
    by (rule told_apart_mono [OF told_apart_fresh [of E ?R "l_issued G (queue t)" ?r job]])
      (use t(1) issued in \<open>auto simp: sound_def execute_request_def kept_books_def\<close>)
  have plans: "planned E (insert ?r ?R) (put_t ?k ?V) a" if "a \<in> set (after t)" for a
    by (rule planned_mono [OF planned_put_t [OF _ opened]]) (use t(1) that in \<open>auto simp: sound_def\<close>)
  have "sound E kv G u"
    using kept(1) order apart plans by (simp add: sound_def u)
  moreover have "H \<inter> Collect lasting \<subseteq> facts E kv G u"
  proof
    fix f assume "f \<in> H \<inter> Collect lasting"
    then have "true_of E ?R ?N (put_t ?k ?V) f"
      using true_of_put_t [of E ?R ?N ?V f ?k] H opened k(2) by auto
    then show "f \<in> facts E kv G u" by (auto simp: facts_def u intro: true_of_mono)
  qed
  moreover have "stands E (facts E kv G u) ?k"
    using emp opened k(2) by (auto simp: stands_def u)
  moreover have "dispatch E k at t = (Inr ?k, u)"
    using q' by (simp add: u_def dispatch_def run_bnd run_andthen run_ret put_task_def enqueue_def Let_def)
  ultimately show "wp (dispatch E k at) (outcome E kv G False (\<lambda>H' k'. H \<inter> Collect lasting \<subseteq> H' \<and> stands E H' k'
      \<and> t_id k' = t_id k \<and> t_state k' = t_state k)) t"
    by (simp add: wp_def)
qed

section \<open>The end of a transaction\<close>

text \<open>A job may end when no task depends on it, and the claim of a task is of the task's job.\<close>

lemma in_order_end:
  assumes "in_order E R N V" "due E R V (Ack c)"
  shows "in_order E R (insert (c_id c) N) V"
  using assms unfolding in_order_def employed_def by fastforce

lemma own_claim_due:
  assumes R: "in_order E R N V" "told_apart E R I" and c: "job_of E R (c_id c) i"
    and idle: "due E R V (Release i)"
  shows "due E R V (Ack c)"
proof -
  have False if k: "task_in E V i' = Some k" "working k" "t_job k = Some (c_id c)" for i' k
  proof -
    have "t_id k = i'" "job_of E R (c_id c) i'"
      using R(1) k unfolding in_order_def employed_def working_def by fastforce+
    then have "i' = i" using job_of_same [OF R(2) _ c] by blast
    with idle k show False by simp
  qed
  then show ?thesis by auto
qed

definition settled_up ::
  "('q, 'x) env_scheme \<Rightarrow> ('q \<Rightarrow> store) \<Rightarrow> 'q ledger \<Rightarrow> enqueue_request set \<Rightarrow> store \<Rightarrow> 'q txn \<Rightarrow> bool" where
  "settled_up E kv G R V t \<longleftrightarrow> books E kv G (queue t) (held t) \<and> l_jobs G (queue t) = R \<and> kv (queue t) = V"

lemma books_kept:
  assumes "books E kv G q h" "kept_books G q q'" "kv q' = kv q"
  shows "books E kv G q' h"
  using assms by (auto simp: books_def kept_books_def intro: in_order_mono told_apart_mono)

lemma books_held:
  "books E kv G q h \<Longrightarrow> holds_own E (l_jobs G q) h' \<Longrightarrow> books E kv G q h'"
  by (simp add: books_def)

lemma books_drop: "books E kv G q h \<Longrightarrow> books E kv G q (h(i := None))"
  by (auto simp: books_def holds_own_upd)

lemma books_ack:
  assumes q: "keeps_books E kv G" and t: "books E kv G q h" "due E (l_jobs G q) (kv q) (Ack c)"
    and run: "q_ack E q c = (r, q')"
  shows "books E kv G q' h" "l_jobs G q' = l_jobs G q" "kv q' = kv q"
proof -
  have b: "l_valid G q'" "l_jobs G q' = l_jobs G q" "l_issued G q \<subseteq> l_issued G q'"
    "l_ended G q' \<subseteq> insert (c_id c) (l_ended G q)" "kv q' = kv q"
    using books_settlements(1) [OF q _ run] contract_claims(5) [OF books_contract [OF q] run] t(1)
    by (auto simp: books_def)
  show "l_jobs G q' = l_jobs G q" "kv q' = kv q" by fact+
  show "books E kv G q' h"
    using t b in_order_end [OF _ t(2), of "l_ended G q"] unfolding books_def
    by (auto intro: in_order_mono told_apart_mono)
qed

lemma finish_one_books:
  assumes q: "keeps_books E kv G" and t: "settled_up E kv G R V t" "due E R V a"
  shows "wp (finish_one E a) (\<lambda>r t'. settled_up E kv G R V t') t"
proof -
  have b: "books E kv G (queue t) (held t)" "l_jobs G (queue t) = R" "kv (queue t) = V"
    using t(1) by (simp_all add: settled_up_def)
  have ack: "settled_up E kv G R V (t\<lparr>held := h, queue := q'\<rparr>)"
    if "q_ack E (queue t) c = (x, q')" "due E R V (Ack c)" "books E kv G (queue t) h" for c x q' h
    using books_ack [OF q that(3) _ that(1)] that(2) b by (simp add: settled_up_def)
  have nack: "settled_up E kv G R V (t\<lparr>held := h, queue := q'\<rparr>)"
    if "q_nack E (queue t) c m = (x, q')" "books E kv G (queue t) h" for c m x q' h
    using books_kept [OF that(2) books_claims(7) [OF q _ that(1)]] books_claims(7) [OF q _ that(1)]
      contract_claims(6) [OF books_contract [OF q] that(1)] b
    by (simp add: settled_up_def books_def kept_books_def)
  have own: "due E R V (Ack c)" if "held t i = Some c" "due E R V (Release i)" for i c
    by (rule own_claim_due [of E R "l_ended G (queue t)" V "l_issued G (queue t)" c i])
      (use b that in \<open>auto simp: books_def holds_own_def\<close>)
  have claim: "settled_up E kv G R V (t\<lparr>queue := q'\<rparr>)"
      "x = Inr (Claimed c) \<Longrightarrow> job_of E R j i \<Longrightarrow> settled_up E kv G R V (t\<lparr>queue := q', held := (held t)(i := Some c)\<rparr>)"
    if run: "q_claim_by_id E (queue t) j l = (x, q')" for i j l x q' c
  proof -
    have valid: "l_valid G (queue t)" "told_apart E R (l_issued G (queue t))" using b by (auto simp: books_def)
    have kept: "books E kv G q' (held t)" "l_jobs G q' = R" "kv q' = V"
      using books_kept [OF b(1) books_claims(3) [OF q valid(1) run]] books_claims(3) [OF q valid(1) run]
        contract_claims(3) [OF books_contract [OF q] run] b by (auto simp: kept_books_def)
    show "settled_up E kv G R V (t\<lparr>queue := q'\<rparr>)" using kept by (simp add: settled_up_def)
    assume c: "x = Inr (Claimed c)" "job_of E R j i"
    have "c_id c = j" using books_claims(4) [OF q valid(1) run [unfolded c(1)]] by simp
    then have "books E kv G q' ((held t)(i := Some c))"
      using kept c(2) by (intro books_held [OF kept(1)]) (auto simp: books_def intro: holds_own_upd)
    with kept show "settled_up E kv G R V (t\<lparr>queue := q', held := (held t)(i := Some c)\<rparr>)"
      by (simp add: settled_up_def)
  qed
  show ?thesis
  proof (cases a)
    case (Ack c)
    then show ?thesis
      using t(2) ack [of c _ _ "held t"] b by (auto simp: wp_def settle_claim_def split: prod.split)
  next
    case (Hold i c)
    then show ?thesis
      using t(2) b by (auto simp: hold_claim_def settled_up_def intro!: books_held [OF b(1)] holds_own_upd)
        (auto simp: books_def)
  next
    case (Release i)
    then show ?thesis
      using t b own ack books_drop [OF b(1), of i]
      by (auto simp: wp_def run_bnd run_ret settle_claim_def take_held_def drop_claim_def settled_up_def
          split: prod.split option.split)
  next
    case (Nack i)
    then show ?thesis
      using t b nack books_drop [OF b(1), of i]
      by (auto simp: wp_def run_bnd run_ret settle_claim_def take_held_def drop_claim_def settled_up_def
          split: prod.split option.split)
  next
    case (ClaimJob i j l)
    then show ?thesis
      using t(2) claim
      by (auto simp: wp_def run_bnd run_ret call_def storage_def hold_claim_def
          split: prod.split sum.split claim_outcome.split)
  qed
qed

lemma finish_books:
  assumes q: "keeps_books E kv G" and t: "settled_up E kv G R V t" "\<forall>a \<in> set (after t). due E R V a"
  shows "wp (finish E) (\<lambda>r t'. settled_up E kv G R V t') t"
proof -
  have "settled_up E kv G R V (t\<lparr>after := []\<rparr>)" using t(1) by (simp add: settled_up_def)
  then have "wp (for_each (finish_one E) (after t)) (\<lambda>r t'. settled_up E kv G R V t') (t\<lparr>after := []\<rparr>)"
    by (rule wp_for_each) (use t(2) in \<open>auto intro: finish_one_books [OF q]\<close>)
  then show ?thesis by (simp add: finish_def wp_def)
qed

lemma finish_ends:
  assumes q: "keeps_books E kv G" and t: "books E kv G (queue t) (held t)"
    "\<forall>a \<in> set (after t). due E (l_jobs G (queue t)) (kv (queue t)) a"
  shows "wp (finish E) (\<lambda>r t'. books E kv G (queue t') (held t')) t"
  by (rule wp_mono [OF finish_books [OF q, where R = "l_jobs G (queue t)" and V = "kv (queue t)"]])
    (use t in \<open>auto simp: settled_up_def\<close>)

text \<open>Effects that are applied leave the books in order when those of the view are.\<close>

lemma effects_booked:
  assumes t: "ready E kv G t" and ef: "booked_effects kv G S (effects_of t) (queue t) r q'"
    and S: "\<And>j. j \<in> S \<Longrightarrow> \<exists>c. j = c_id c \<and> due E (requests G t) (view kv t) (Ack c)" "S \<subseteq> {j}"
  shows "books E kv G q' (held t)"
    and "r = Inr () \<Longrightarrow> l_jobs G q' = requests G t \<and> kv q' = view kv t"
proof -
  have view: "apply_effects (effects_of t) (kv (queue t)) = view kv t" by (simp add: apply_effects_of)
  have enq: "ef_enqueues (effects_of t) = enqueues t" by (simp add: effects_of_def)
  show "r = Inr () \<Longrightarrow> l_jobs G q' = requests G t \<and> kv q' = view kv t"
    using ef by (simp add: booked_effects_def view enq requests_def)
  have b: "in_order E (requests G t) (l_ended G (queue t)) (view kv t)"
    "told_apart E (requests G t) (l_issued G (queue t))" "books E kv G (queue t) (held t)"
    using t by (simp_all add: ready_def)
  from ef consider "kv q' = kv (queue t)" "l_jobs G q' = l_jobs G (queue t)" "l_ended G q' \<subseteq> l_ended G (queue t)"
    | "kv q' = view kv t" "l_jobs G q' = requests G t" "l_ended G q' \<subseteq> l_ended G (queue t) \<union> S"
    by (auto simp: booked_effects_def view enq requests_def)
  then show "books E kv G q' (held t)"
  proof cases
    case 1
    then show ?thesis
      using b(3) ef by (intro books_kept [OF b(3)]) (simp_all add: kept_books_def booked_effects_def)
  next
    case 2
    have "in_order E (requests G t) (l_ended G (queue t) \<union> S) (view kv t)"
    proof (cases "S = {}")
      case False
      then obtain c where "S = {c_id c}" "due E (requests G t) (view kv t) (Ack c)" using S by blast
      then show ?thesis using in_order_end [OF b(1)] by simp
    qed (use b(1) in simp)
    then have "in_order E (l_jobs G q') (l_ended G q') (kv q')"
      using 2 by (auto intro: in_order_mono)
    moreover have "told_apart E (l_jobs G q') (l_issued G q')"
      using 2 ef b(2) by (auto simp: booked_effects_def intro: told_apart_mono)
    moreover have "holds_own E (l_jobs G q') (held t)"
      using 2 b(3) by (auto simp: books_def requests_def intro: holds_own_mono)
    ultimately show ?thesis using ef by (simp add: books_def booked_effects_def)
  qed
qed

lemma enqueued_issued:
  "ready E kv G t \<Longrightarrow> \<forall>e \<in> set (ef_enqueues (effects_of t)). \<forall>j. e_id e = Some j \<longrightarrow> j \<in> l_issued G (queue t)"
  by (auto simp: ready_def told_apart_def requests_def effects_of_def)

lemma commit_books:
  assumes q: "keeps_books E kv G" and t: "ready E kv G t"
  shows "wp (commit E) (\<lambda>r t'. books E kv G (queue t') (held t')) t"
proof -
  let ?ef = "effects_of t" and ?t = "t\<lparr>writes := om_empty, enqueues := []\<rparr>"
  have b: "books E kv G (queue t) (held t)" using t by (simp add: ready_def)
  show ?thesis
  proof (cases "ef_enqueues ?ef \<noteq> [] \<or> ef_kv_writes ?ef \<noteq> om_empty \<or> ef_kv_deletes ?ef \<noteq> []")
    case False
    then have "commit E t = finish E ?t"
      by (simp add: commit_def take_effects_def run_bnd run_andthen run_ret)
    moreover have "requests G t = l_jobs G (queue t)" "view kv t = kv (queue t)"
      using False apply_effects_of [of t "kv"]
      by (auto simp: requests_def effects_of_def apply_effects_def fun_eq_iff)
    moreover have "wp (finish E) (\<lambda>r t'. books E kv G (queue t') (held t')) ?t"
      by (rule finish_ends [OF q]) (use t b calculation(2,3) in \<open>simp_all add: ready_def\<close>)
    ultimately show ?thesis by (simp add: wp_def)
  next
    case True
    obtain r q' where q': "q_commit_effects E (queue t) ?ef = (r, q')"
      by (cases "q_commit_effects E (queue t) ?ef")
    have valid: "l_valid G (queue t)" using b by (simp add: books_def)
    note after = effects_booked [OF t books_settlements(2) [OF q valid enqueued_issued [OF t] q'], simplified]
    show ?thesis
    proof (cases r)
      case (Inl e)
      then have "commit E t = (Inl (Storage e), ?t\<lparr>queue := q'\<rparr>)"
        using True q' by (simp add: commit_def take_effects_def run_bnd run_andthen call_def storage_def)
      then show ?thesis using after(1) by (simp add: wp_def)
    next
      case (Inr u)
      then have "commit E t = finish E (?t\<lparr>queue := q'\<rparr>)"
        using True q' by (simp add: commit_def take_effects_def run_bnd run_andthen call_def storage_def)
      moreover have "wp (finish E) (\<lambda>r t'. books E kv G (queue t') (held t')) (?t\<lparr>queue := q'\<rparr>)"
        by (rule finish_ends [OF q]) (use t after Inr in \<open>simp_all add: ready_def\<close>)
      ultimately show ?thesis by (simp add: wp_def)
    qed
  qed
qed

lemma commit_ack_books:
  assumes q: "keeps_books E kv G" and t: "ready E kv G t" "due E (requests G t) (view kv t) (Release i)"
  shows "wp (commit_ack E i) (\<lambda>r t'. books E kv G (queue t') (held t')) t"
proof (cases "\<exists>c. held t i = Some c \<and> live E t c")
  case False
  have "books E kv G (queue t) (held t)" "books E kv G (queue t) ((held t)(i := None))"
    using t(1) books_drop by (auto simp: ready_def)
  with False show ?thesis
    by (auto simp: wp_def run_commit_ack drop_claim_def split: option.split)
next
  case True
  then obtain c where c: "held t i = Some c" "live E t c" by blast
  have b: "books E kv G (queue t) (held t)" using t by (simp add: ready_def)
  obtain r q' where q': "q_ack_with E (queue t) c (effects_of t) = (r, q')"
    by (cases "q_ack_with E (queue t) c (effects_of t)")
  have "job_of E (requests G t) (c_id c) i"
    using b c(1) by (auto simp: books_def holds_own_def requests_def intro: job_of_mono)
  then have ack: "due E (requests G t) (view kv t) (Ack c)"
    using t by (intro own_claim_due [where I = "l_issued G (queue t)" and N = "l_ended G (queue t)"])
      (simp_all add: ready_def)
  have valid: "l_valid G (queue t)" using b by (simp add: books_def)
  note after = effects_booked [OF t(1) books_settlements(3) [OF q valid enqueued_issued [OF t(1)] q'],
      where j = "c_id c"]
  have first: "books E kv G q' (held t)" by (rule after) (use ack in auto)
  have rest: "l_jobs G q' = requests G t \<and> kv q' = view kv t" if "r = Inr ()"
    by (rule after(2)) (use ack that in auto)
  show ?thesis
  proof (cases r)
    case (Inl e)
    then show ?thesis
      using c q' first books_drop [OF first, of i] by (auto simp: wp_def run_commit_ack drop_claim_def)
  next
    case (Inr u)
    let ?t = "drop_claim i (t\<lparr>writes := om_empty, enqueues := [], queue := q'\<rparr>)"
    have "wp (finish E) (\<lambda>r t'. books E kv G (queue t') (held t')) ?t"
      by (rule finish_ends [OF q])
        (use t(1) Inr rest first books_drop [OF first, of i] in \<open>simp_all add: ready_def drop_claim_def\<close>)
    then show ?thesis using Inr c q' by (simp add: wp_def run_commit_ack)
  qed
qed

lemma accounts_commit:
  assumes q: "keeps_books E kv G"
  shows "accounts E kv G True H (commit E) R" "accounts E kv G True H (finished E x) S"
proof -
  show commit: "accounts E kv G True H (commit E) R" for R
    by (rule accountsI) (auto intro: wp_mono [OF commit_books [OF q sound_ready]])
  show "accounts E kv G True H (finished E x) S"
    unfolding finished_def by (rule accounts_reply(2) [OF commit])
qed

lemma accounts_settlement:
  assumes q: "keeps_books E kv G" and i: "Idle i \<in> H \<or> Done i \<in> H"
  shows "accounts E kv G True H (commit_settlement E i x) R"
proof (rule accountsI)
  fix t assume t: "sound E kv G t" "H \<subseteq> facts E kv G t"
  have "due E (requests G t) (view kv t) (Release i)"
    using i t(2) by (auto simp: facts_def working_def)
  from commit_ack_books [OF q sound_ready [OF t(1)] this]
  show "wp (commit_settlement E i x) (outcome E kv G True R) t"
    by (auto simp: wp_def commit_settlement_def split: prod.splits sum.splits)
qed

text \<open>The plans that end a transaction at once: a release, an acknowledgement, a hold.\<close>

lemma plan_books:
  assumes q: "keeps_books E kv G" and t: "sound E kv G t" "due E (requests G t) (view kv t) a"
  shows "wp (andthen (add_after a) (commit E)) (\<lambda>r t'. books E kv G (queue t') (held t')) t"
proof -
  have same: "requests G (t\<lparr>after := after t @ [a]\<rparr>) = requests G t" by (simp add: requests_def)
  have "ready E kv G (t\<lparr>after := after t @ [a]\<rparr>)"
    using sound_ready [OF t(1)] t(2) unfolding ready_def same by auto
  then show ?thesis
    using commit_books [OF q] by (simp add: wp_def run_andthen add_after_def)
qed

lemma accounts_last:
  assumes q: "keeps_books E kv G"
    and a: "\<And>t. sound E kv G t \<Longrightarrow> H \<subseteq> facts E kv G t \<Longrightarrow> due E (requests G t) (view kv t) a"
  shows "accounts E kv G True H (andthen (add_after a) (andthen (commit E) (ret x))) R"
    "accounts E kv G True H (andthen (add_after a) (finished E y)) S"
proof -
  have over: "accounts E kv G True H (andthen (andthen (add_after a) (commit E)) (ret z)) R" for z R
    by (rule accounts_reply(2), rule accountsI) (auto intro: wp_mono [OF plan_books [OF q]] a)
  show "accounts E kv G True H (andthen (add_after a) (andthen (commit E) (ret x))) R"
    using over [of x R] by (simp add: andthen_def bnd_assoc)
  show "accounts E kv G True H (andthen (add_after a) (finished E y)) S"
    using over [of y S] by (simp add: andthen_def bnd_assoc finished_def)
qed

end
