(* ===== verification/Accounting.thy ===== *)
theory Accounting
  imports Accounts
begin

text \<open>
  Every operation of the kernel, and so every request, timer and delivery, keeps the books of the
  queue in order: no acknowledgement ends the job of a task that depends on it.
\<close>

section \<open>Rules for the kernel\<close>

lemma hired_simps [simp]:
  "hired E H (k\<lparr>t_resumes := r\<rparr>) = hired E H k"
  "working (k\<lparr>t_resumes := r\<rparr>) = working k"
  by (simp_all add: hired_def working_def)

lemma working_transition [simp]:
  "working (transition k st) \<longleftrightarrow> st = TPending \<or> st = TAcquired"
  by (auto simp: working_def transition_def)

lemma transition_fields [simp]:
  "t_id (transition k st) = t_id k" "t_state (transition k st) = st" "t_job (transition k st) = t_job k"
  by (simp_all add: transition_def)

lemma hired_moved:
  assumes "hired E H k" "t_state k \<noteq> TFulfilled" "working k \<or> st \<notin> {TPending, TAcquired}"
  shows "hired E H (transition k st)"
proof -
  have "working (transition k st) \<Longrightarrow> working k" using assms(3) by auto
  with assms(1,2) show ?thesis by (fastforce simp: hired_def)
qed

lemma acquired_fields [simp]:
  "t_id (acquired k pid ttl) = t_id k" "t_state (acquired k pid ttl) = TAcquired" "t_job (acquired k pid ttl) = t_job k"
  by (simp_all add: acquired_def)

lemma hired_acquired: "hired E H k \<Longrightarrow> t_state k = TPending \<Longrightarrow> hired E H (acquired k pid ttl)"
  by (auto simp: hired_def working_def)

lemma standsD:
  "stands E H k \<Longrightarrow> hired E H k" "stands E H k \<Longrightarrow> Present (t_id k) \<in> H" "stands E H k \<Longrightarrow> Known (t_id k) \<in> H"
  "stands E H k \<Longrightarrow> t_state k \<noteq> TFulfilled \<Longrightarrow> Open (t_id k) \<in> H"
  "stands E H k \<Longrightarrow> t_state k = TFulfilled \<Longrightarrow> Done (t_id k) \<in> H"
  "stands E H k \<Longrightarrow> \<not> working k \<Longrightarrow> Idle (t_id k) \<in> H"
  by (auto simp: stands_def)

text \<open>What is proved from no facts holds from any.\<close>

lemma accounts_forget: "accounts E kv G fin {} m R \<Longrightarrow> accounts E kv G fin H m R"
  by (erule accounts_less) simp

text \<open>A record that is found, or not.\<close>

lemma accounts_found:
  assumes q: "keeps_books E kv G"
  shows "(\<And>H'. H \<subseteq> H' \<Longrightarrow> Absent i \<in> H' \<Longrightarrow> accounts E kv G fin H' m R) \<Longrightarrow>
      (\<And>p H'. H \<subseteq> H' \<Longrightarrow> p_id (sp_record p) = i \<Longrightarrow> Known i \<in> H' \<Longrightarrow> (Open i \<in> H \<longrightarrow> is_pending (sp_record p)) \<Longrightarrow>
        accounts E kv G fin H' (f p) R) \<Longrightarrow>
      accounts E kv G fin H (bnd (get_promise E i) (\<lambda>found. case found of None \<Rightarrow> m | Some p \<Rightarrow> f p)) R"
    and "(\<And>H'. H \<subseteq> H' \<Longrightarrow> Absent i \<in> H' \<Longrightarrow> Present i \<notin> H \<Longrightarrow> accounts E kv G fin H' m R) \<Longrightarrow>
      (\<And>k H'. H \<subseteq> H' \<Longrightarrow> t_id k = i \<Longrightarrow> stands E H' k \<Longrightarrow> accounts E kv G fin H' (g k) R) \<Longrightarrow>
      accounts E kv G fin H (bnd (get_task E i) (\<lambda>found. case found of None \<Rightarrow> m | Some k \<Rightarrow> g k)) R"
proof -
  note c = books_contract [OF q]
  show "(\<And>H'. H \<subseteq> H' \<Longrightarrow> Absent i \<in> H' \<Longrightarrow> accounts E kv G fin H' m R) \<Longrightarrow>
      (\<And>p H'. H \<subseteq> H' \<Longrightarrow> p_id (sp_record p) = i \<Longrightarrow> Known i \<in> H' \<Longrightarrow> (Open i \<in> H \<longrightarrow> is_pending (sp_record p)) \<Longrightarrow>
        accounts E kv G fin H' (f p) R) \<Longrightarrow>
      accounts E kv G fin H (bnd (get_promise E i) (\<lambda>found. case found of None \<Rightarrow> m | Some p \<Rightarrow> f p)) R"
    by (rule accounts_bnd [OF accounts_get(1) [OF c, where H = H]])
      (auto simp: read_promise_def split: option.splits)
  show "(\<And>H'. H \<subseteq> H' \<Longrightarrow> Absent i \<in> H' \<Longrightarrow> Present i \<notin> H \<Longrightarrow> accounts E kv G fin H' m R) \<Longrightarrow>
      (\<And>k H'. H \<subseteq> H' \<Longrightarrow> t_id k = i \<Longrightarrow> stands E H' k \<Longrightarrow> accounts E kv G fin H' (g k) R) \<Longrightarrow>
      accounts E kv G fin H (bnd (get_task E i) (\<lambda>found. case found of None \<Rightarrow> m | Some k \<Rightarrow> g k)) R"
    by (rule accounts_bnd [OF accounts_get(2) [OF c, where H = H]])
      (auto simp: read_task_def split: option.splits)
qed

lemma accounts_gets:
  assumes q: "keeps_books E kv G"
  shows "accounts E kv G False H (get_promise E i) (stays H)" "accounts E kv G False H (get_task E i) (stays H)"
  by (rule accounts_mono [OF accounts_get(1) [OF books_contract [OF q], where H = H]], simp_all)
    (rule accounts_mono [OF accounts_get(2) [OF books_contract [OF q], where H = H]], simp_all)

lemma accounts_own:
  assumes q: "keeps_books E kv G" and "\<And>p. accounts E kv G fin H (f p) R"
  shows "accounts E kv G fin H (bnd (get_promise E i) (\<lambda>found. bnd (expect msg found) f)) R"
  by (rule accounts_then(1) [OF accounts_gets(1) [OF q]], rule accounts_bnd [OF accounts_expect],
      rule accounts_less [OF assms(2)]) simp

text \<open>A move of a task that stands, from facts that a move keeps.\<close>

lemma accounts_move:
  assumes "stands E H k" "t_state k \<noteq> TFulfilled" "hired E H k'" "t_id k' = t_id k" "t_state k' \<noteq> TFulfilled"
  shows "accounts E kv G False H (put_task k') (\<lambda>H' _. H \<inter> Collect lasting \<subseteq> H' \<and> stands E H' k')"
  by (rule accounts_put_task) (use assms standsD(4) [OF assms(1,2)] in simp_all)

section \<open>Settlement\<close>

text \<open>From firm facts, which every operation keeps.\<close>

lemma firm_not_open: "f \<in> H \<Longrightarrow> all_firm H \<Longrightarrow> f \<noteq> Open i"
  by (auto simp: all_firm_def)

lemma firm_subset: "all_firm H \<Longrightarrow> H \<subseteq> H' \<Longrightarrow> H' \<inter> Collect lasting \<subseteq> H'' \<Longrightarrow> H \<subseteq> H''"
  unfolding all_firm_def by (blast intro: firm_lasting)

lemma accounts_resume:
  assumes q: "keeps_books E kv G" and H: "all_firm H"
  shows "accounts E kv G False H (resume_awaiter E i j w) (stays H)"
  unfolding resume_awaiter_def
proof (rule accounts_found(2) [OF q])
  fix k H' assume k: "H \<subseteq> H'" "t_id k = i" "stands E H' k"
  have note_it: "accounts E kv G False H' (put_task (k\<lparr>t_resumes := r\<rparr>)) (stays H)" if "t_state k \<noteq> TFulfilled" for r
    by (rule accounts_mono [OF accounts_move [OF k(3) that]])
      (use k that standsD(1) [OF k(3)] firm_subset [OF H k(1)] in auto)
  have wake: "accounts E kv G False H' (dispatch E ((transition k TPending)\<lparr>t_resumes := r\<rparr>) None) (stays H)"
    if "t_state k \<noteq> TFulfilled" for r
    by (rule accounts_mono [OF accounts_dispatch [OF q, where H = H']])
      (use standsD(4) [OF k(3) that] firm_subset [OF H k(1)] in auto)
  show "accounts E kv G False H' (case t_state k of
      TPending \<Rightarrow> put_task (k\<lparr>t_resumes := os_insert j (t_resumes k)\<rparr>)
    | TAcquired \<Rightarrow> put_task (k\<lparr>t_resumes := os_insert j (t_resumes k)\<rparr>)
    | TSuspended \<Rightarrow> bnd (dispatch E ((transition k TPending)\<lparr>t_resumes := os_of_list [j]\<rparr>) None) (\<lambda>_. ret ())
    | THalted \<Rightarrow> if w = Fanout then put_task (k\<lparr>t_resumes := os_insert j (t_resumes k)\<rparr>) else ret ()
    | TFulfilled \<Rightarrow> ret ()) (stays H)"
    using k(1) by (intro accounts_states accounts_if note_it accounts_bnd [OF wake] accounts_ret) auto
qed (auto intro: accounts_ret)

lemma accounts_fulfil:
  assumes q: "keeps_books E kv G" and H: "all_firm H"
  shows "accounts E kv G False H (fulfil_own_task E i)
    (\<lambda>H' _. H \<subseteq> H' \<and> (Done i \<in> H' \<or> Absent i \<in> H' \<and> Present i \<notin> H))"
  unfolding fulfil_own_task_def
proof (rule accounts_found(2) [OF q])
  fix k H' assume k: "H \<subseteq> H'" "t_id k = i" "stands E H' k"
  let ?k = "(transition k TFulfilled)\<lparr>t_resumes := om_empty\<rparr>"
  show "accounts E kv G False H' (if t_state k \<noteq> TFulfilled then andthen (put_task ?k) (release (t_id k)) else ret ())
      (\<lambda>H' _. H \<subseteq> H' \<and> (Done i \<in> H' \<or> Absent i \<in> H' \<and> Present i \<notin> H))"
  proof (cases "t_state k = TFulfilled")
    case True
    then show ?thesis using k standsD(5) [OF k(3)] by (auto intro: accounts_ret)
  next
    case False
    have put: "accounts E kv G False H' (put_task ?k) (\<lambda>H'' _. H \<subseteq> H'' \<and> Done i \<in> H'')"
      by (rule accounts_mono [OF accounts_put_done [where H = H']])
        (use k standsD(3) [OF k(3)] H in \<open>auto simp: all_firm_def\<close>)
    have "accounts E kv G False H'' (release (t_id k)) (\<lambda>H' _. H \<subseteq> H' \<and> (Done i \<in> H' \<or> Absent i \<in> H' \<and> Present i \<notin> H))"
      if "H \<subseteq> H'' \<and> Done i \<in> H''" for H''
      by (rule accounts_mono [OF accounts_release [where H = H'']]) (use that k(2) in auto)
    with False show ?thesis by (auto intro: accounts_andthen [OF put])
  qed
qed (auto intro: accounts_ret)

lemma accounts_wake:
  assumes q: "keeps_books E kv G" and H: "all_firm H"
  shows "accounts E kv G False H (wake_awaiter E i j) (stays H)"
  unfolding wake_awaiter_def
  by (rule accounts_then(1) [OF accounts_gets(1) [OF q]], rule accounts_then(1) [OF accounts_asks], assumption,
      intro accounts_option accounts_if accounts_ret accounts_resume [OF q H])

lemma accounts_settle_chain:
  assumes q: "keeps_books E kv G" and H: "all_firm H" and p: "\<not> is_pending (sp_record p)"
  shows "accounts E kv G False H (settle_chain E p)
    (\<lambda>H' _. H \<subseteq> H' \<and> (Present (p_id (sp_record p)) \<in> H \<longrightarrow> Done (p_id (sp_record p)) \<in> H'))"
proof -
  let ?i = "p_id (sp_record p)" let ?p = "p\<lparr>sp_callbacks := [], sp_listeners := []\<rparr>"
  let ?R = "\<lambda>H'. H \<subseteq> H' \<and> (Present ?i \<in> H \<longrightarrow> Done ?i \<in> H')"
  have put: "accounts E kv G False H' (put_promise ?p) (\<lambda>H'' _. ?R H'')"
    if "H \<subseteq> H'" "Done ?i \<in> H' \<or> Absent ?i \<in> H' \<and> Present ?i \<notin> H" for H'
    by (rule accounts_mono [OF accounts_put_settled [where H = H']])
      (use that H in \<open>auto dest: firm_not_open\<close>)
  let ?K = "if Present ?i \<in> H then insert (Done ?i) H else H"
  have K: "all_firm ?K" using H by (simp add: all_firm_def)
  have rest: "accounts E kv G False H' (andthen (for_each (wake_awaiter E ?i) (sp_callbacks p)) (
      andthen (for_each (\<lambda>a. send_unblock E a (unblock_message (sp_record ?p))) (sp_listeners p)) (ret ?p)))
      (\<lambda>H'' _. ?R H'')" if "?R H'" for H'
  proof (rule accounts_less)
    show "accounts E kv G False ?K (andthen (for_each (wake_awaiter E ?i) (sp_callbacks p)) (
      andthen (for_each (\<lambda>a. send_unblock E a (unblock_message (sp_record ?p))) (sp_listeners p)) (ret ?p)))
      (\<lambda>H'' _. ?R H'')"
      by (intro accounts_then(2) [OF accounts_for_each [OF accounts_wake [OF q K]]]
          accounts_then(2) [OF accounts_for_each [OF accounts_unblock]] accounts_ret) (auto split: if_splits)
  qed (use that in auto)
  show ?thesis
    unfolding settle_chain_def Let_def
    by (rule accounts_andthen [OF accounts_fulfil [OF q H]], rule accounts_andthen [OF put], blast, blast)
      (use rest in simp)
qed

lemma expired_not_pending [simp]: "\<not> is_pending (expired_record r)"
  by (simp add: is_pending_def expired_record_def)

lemma accounts_try_timeout:
  assumes q: "keeps_books E kv G" and H: "all_firm H"
  shows "accounts E kv G False H (try_timeout E ids) (stays H)"
proof -
  have chain: "accounts E kv G False H (expire_promise E p) (stays H)" for p
    unfolding expire_promise_def by (rule accounts_mono [OF accounts_settle_chain [OF q H]]) auto
  have "accounts E kv G False H (timeout_one E i) (stays H)" for i
    unfolding timeout_one_def
    by (rule accounts_then(1) [OF accounts_gets(1) [OF q]], rule accounts_then(1) [OF accounts_asks],
        assumption, intro accounts_option accounts_if accounts_ret accounts_then(1) [OF chain])
  then show ?thesis unfolding try_timeout_def by (intro accounts_for_each)
qed

lemma accounts_settle:
  assumes q: "keeps_books E kv G" and H: "all_firm H"
  shows "accounts E kv G False H (settle_pending E p st v)
    (\<lambda>H' _. H \<subseteq> H' \<and> (is_pending (sp_record p) \<longrightarrow> Present (p_id (sp_record p)) \<in> H \<longrightarrow> Done (p_id (sp_record p)) \<in> H'))"
  unfolding settle_pending_def settle_def
  by (intro accounts_if accounts_ret accounts_then(1) [OF accounts_asks]
      accounts_mono [OF accounts_settle_chain [OF q H]])
    (auto simp: is_pending_def settled_record_def)

section \<open>Acquisition and creation\<close>

text \<open>After its last write an operation relies on nothing.\<close>

lemma accounts_loose:
  assumes "accounts E kv G False H m R"
  shows "(\<And>x. accounts E kv G fin {} (f x) S) \<Longrightarrow> accounts E kv G fin H (bnd m f) S"
    and "accounts E kv G fin {} n S \<Longrightarrow> accounts E kv G fin H (andthen m n) S"
  using assms by (auto intro: accounts_bnd accounts_andthen accounts_forget)

lemma accounts_acquire:
  assumes q: "keeps_books E kv G" and k: "stands E H k" "t_state k = TPending"
  shows "accounts E kv G False H (acquire E k pid ttl) (lastly H)"
proof -
  have put: "accounts E kv G False H (put_task (acquired k pid ttl)) (lastly H)"
    by (rule accounts_mono [OF accounts_move [OF k(1)]])
      (use k in \<open>auto intro: hired_acquired dest: standsD(1)\<close>)
  show ?thesis
    unfolding acquire_def
    by (intro accounts_then(1) [OF accounts_renew [OF q]] accounts_if accounts_andthen [OF put] accounts_ret) auto
qed

text \<open>The clock of a transaction stands still.\<close>

lemma asks_twice: "bnd (asks h) (\<lambda>x. bnd (asks h) (f x)) = bnd (asks h) (\<lambda>x. f x x)"
  by (simp add: fun_eq_iff run_bnd)

lemma asks_before:
  assumes "\<And>t. h (snd (m t)) = h t"
  shows "andthen m (bnd (asks h) f) = bnd (asks h) (\<lambda>x. andthen m (f x))"
  using assms by (simp add: fun_eq_iff run_bnd run_andthen split: prod.split sum.split) (metis snd_conv)

definition create_task_at ::
  "('q, 'x) env_scheme \<Rightarrow> i64 \<Rightarrow> promise_record \<Rightarrow> string \<Rightarrow> create_mode \<Rightarrow> ('q txn, unit) tx" where
  "create_task_at E time p tgt mode =
     (let task = new_task (p_id p) tgt TPending in
     if le64 (p_timeout_at p) time then put_task (task\<lparr>t_state := TFulfilled\<rparr>)
     else (case mode of
       Acquire pid ttl \<Rightarrow>
         bnd (dispatch E (task\<lparr>t_state := TAcquired, t_version := 1, t_pid := Some pid,
             t_ttl := Some ttl\<rparr>) (Some (sat_add time ttl)))
           (\<lambda>task'. claim_after_commit task' (lease_of ttl))
     | Dispatch \<Rightarrow> bnd (dispatch E task (start_delay time p)) (\<lambda>_. ret ())))"

lemma create_promise_at:
  "create_promise E data at mode =
     bnd (asks now) (\<lambda>time.
     let promise = \<lparr>sp_record = created_record time data at, sp_callbacks = [], sp_listeners = []\<rparr>;
         p = sp_record promise
     in andthen (index_branch p) (
        andthen (put_promise promise) (
        andthen (case target p of None \<Rightarrow> ret () | Some tgt \<Rightarrow> create_task_at E time p tgt mode) (
        andthen (if is_pending p \<and> is_external p
                 then schedule_timer (PromiseTimeout (p_id p)) (p_timeout_at p) else ret ()) (
        ret promise)))))"
proof -
  have index: "now (snd (index_branch r t)) = now t" for r t
    by (simp add: index_branch_def run_ret split: option.split)
  have put: "now (snd (put_promise p t)) = now t" for p t
    by (simp add: put_promise_def put_json_def)
  have task: "create_task E p tgt mode = bnd (asks now) (\<lambda>time. create_task_at E time p tgt mode)" for p tgt
    by (simp add: create_task_def create_task_at_def)
  have body: "andthen (index_branch r) (andthen (put_promise p) (
      andthen (case target r of None \<Rightarrow> ret () | Some tgt \<Rightarrow> create_task E r tgt mode) m))
    = bnd (asks now) (\<lambda>time. andthen (index_branch r) (andthen (put_promise p) (
      andthen (case target r of None \<Rightarrow> ret () | Some tgt \<Rightarrow> create_task_at E time r tgt mode) m)))" for r p m
  proof (cases "target r")
    case None
    then show ?thesis by (simp add: fun_eq_iff run_bnd)
  next
    case (Some tgt)
    have once: "andthen (bnd (asks now) f) m = bnd (asks now) (\<lambda>x. andthen (f x) m)" for f
      by (simp add: andthen_def bnd_assoc)
    show ?thesis
      by (simp add: Some task once asks_before [where h = now, OF index] asks_before [where h = now, OF put])
  qed
  show ?thesis
    by (simp add: create_promise_def Let_def body asks_twice)
qed

lemma created_record_open [simp]: "is_pending (created_record time d at) \<longleftrightarrow> \<not> le64 (pc_timeout_at d) time"
  by (simp add: created_record_def Let_def is_pending_def)

lemma accounts_create_task:
  assumes q: "keeps_books E kv G" and H: "all_firm H"
    and i: "Known (p_id r) \<in> H'" "Absent (p_id r) \<in> H' \<or> Open (p_id r) \<in> H'" "H \<subseteq> H'"
    and p: "le64 (p_timeout_at r) time \<or> Open (p_id r) \<in> H'"
  shows "accounts E kv G False H' (create_task_at E time r tgt mode) (stays H)"
proof -
  have firmly: "H \<subseteq> H''" if "H' \<inter> Collect firm \<subseteq> H''" for H''
    using that H i(3) unfolding all_firm_def by blast
  have lasting: "H \<subseteq> H''" if "H' \<inter> Collect lasting \<subseteq> H''" for H''
    by (rule firm_subset [OF H i(3) that])
  have new: "t_id (new_task (p_id r) tgt st) = p_id r" for st by (simp add: new_task_def)
  show ?thesis
  proof (cases "le64 (p_timeout_at r) time")
    case True
    then show ?thesis
      unfolding create_task_at_def Let_def
      by (simp, intro accounts_mono [OF accounts_put_done [where H = H']]) (use i in \<open>auto simp: new dest: firmly\<close>)
  next
    case False
    have claimed: "accounts E kv G False H'' (claim_after_commit k' lease) (stays H)"
      if "H' \<inter> Collect lasting \<subseteq> H''" "stands E H'' k'" "t_state k' \<noteq> TFulfilled" for H'' k' lease
      by (rule accounts_stays [OF accounts_claim_after [OF that(2,3)] lasting [OF that(1)]])
    show ?thesis
      unfolding create_task_at_def Let_def
      using False p
      by (cases mode) (auto simp: new new_task_def intro!: accounts_bnd [OF accounts_dispatch [OF q]] accounts_ret claimed
          dest: lasting)
  qed
qed

lemma accounts_create:
  assumes q: "keeps_books E kv G" and H: "all_firm H" "Absent (pc_id d) \<in> H'" "H \<subseteq> H'"
  shows "accounts E kv G False H' (create_promise E d at mode) (stays H)"
proof -
  let ?i = "pc_id d"
  have "accounts E kv G False H' (andthen (put_promise \<lparr>sp_record = created_record time d at, sp_callbacks = [], sp_listeners = []\<rparr>)
      (andthen (case target (created_record time d at) of None \<Rightarrow> ret ()
        | Some tgt \<Rightarrow> create_task_at E time (created_record time d at) tgt mode) m)) (stays H)"
    if m: "accounts E kv G False H m (stays H)" for time m
  proof -
    let ?p = "\<lparr>sp_record = created_record time d at, sp_callbacks = [], sp_listeners = []\<rparr>"
    have task: "accounts E kv G False H'' (case target (created_record time d at) of None \<Rightarrow> ret ()
        | Some tgt \<Rightarrow> create_task_at E time (created_record time d at) tgt mode) (stays H)"
      if "H \<subseteq> H''" "Known ?i \<in> H''" "Absent ?i \<in> H'' \<or> Open ?i \<in> H''" "le64 (pc_timeout_at d) time \<or> Open ?i \<in> H''" for H''
      by (intro accounts_option accounts_ret accounts_create_task [OF q H(1)]) (use that in auto)
    have rest: "accounts E kv G False H'' (andthen (case target (created_record time d at) of None \<Rightarrow> ret ()
        | Some tgt \<Rightarrow> create_task_at E time (created_record time d at) tgt mode) m) (stays H)"
      if "H \<subseteq> H''" "Known ?i \<in> H''" "Absent ?i \<in> H'' \<or> Open ?i \<in> H''" "le64 (pc_timeout_at d) time \<or> Open ?i \<in> H''" for H''
      by (rule accounts_andthen [OF task [OF that]], rule accounts_less [OF m])
    show ?thesis
    proof (cases "le64 (pc_timeout_at d) time")
      case True
      have "Done (p_id (sp_record ?p)) \<in> H' \<or> Absent (p_id (sp_record ?p)) \<in> H'" using H(2) by simp
      from accounts_put_settled [OF this] show ?thesis
        by (rule accounts_andthen, intro rest) (use H True in \<open>auto dest: firm_not_open\<close>)
    next
      case False
      then have "is_pending (sp_record ?p)" by simp
      from accounts_put_pending [OF this] show ?thesis
        by (rule accounts_andthen, intro rest) (use H in auto)
    qed
  qed
  note body = this
  have timer: "accounts E kv G False H (andthen (if b then schedule_timer tm at else ret ()) (ret x)) (stays H)" for b tm at x
    by (intro accounts_then(2) accounts_if accounts_timer accounts_ret)
  show ?thesis
    unfolding create_promise_at Let_def stored_promise.simps
    by (rule accounts_then(1) [where H = H', OF accounts_asks], assumption,
        rule accounts_then(2) [OF accounts_puts(3)], rule body, rule timer)
qed

lemma accounts_fire_schedule:
  assumes q: "keeps_books E kv G"
  shows "accounts E kv G False {} (fire_schedule E s) (stays {})"
proof -
  have promise: "accounts E kv G False H (case found of
        None \<Rightarrow> bnd (create_promise E (schedule_promise_data s) at mode) (\<lambda>_. ret ())
      | Some _ \<Rightarrow> ret ()) (stays {})"
    if "read_promise H (schedule_promise_id s) found" for found H at mode
    by (intro accounts_option accounts_ret accounts_bnd [OF accounts_create [OF q all_firmI(1)]])
      (use that in \<open>auto simp: read_promise_def schedule_promise_data_def Let_def\<close>)
  have next_run: "accounts E kv G False {} (case nxt of
        Some nxt \<Rightarrow> andthen (schedule_timer (ScheduleAt (s_id s) nxt) nxt)
          (put_schedule (s\<lparr>s_last_run_at := Some at, s_next_run_at := nxt\<rparr>))
      | None \<Rightarrow> put_schedule (s\<lparr>s_last_run_at := Some at\<rparr>)) (stays {})" for nxt at
    by (intro accounts_option accounts_then(2) [OF accounts_timer] accounts_puts(1))
  show ?thesis
    unfolding fire_schedule_def Let_def
    by (rule accounts_bnd [OF accounts_get(1) [OF books_contract [OF q], where H = "{}"]],
        rule accounts_loose(2) [OF promise next_run]) simp
qed

lemma accounts_register:
  "is_pending (sp_record p) \<Longrightarrow> accounts E kv G False H (register_callback p i) (stays H)"
  unfolding register_callback_def Let_def
  by (intro accounts_if accounts_ret accounts_andthen [OF accounts_put_pending]) auto

section \<open>Requests\<close>

lemma accounts_view:
  assumes q: "keeps_books E kv G"
  shows "accounts E kv G False H (task_view E k) (stays H)"
  unfolding task_view_def
  by (intro accounts_own [OF q] accounts_then(1) [OF accounts_if] accounts_ret accounts_preload [OF q]) auto

lemma accounts_finish:
  assumes q: "keeps_books E kv G"
  shows "accounts E kv G True H (finished E r) R" "accounts E kv G True H (ret x) S"
  by (rule accounts_commit [OF q]) (simp add: accounts_def sound_books)

lemma accounts_reject:
  "accounts E kv G True H m R \<Longrightarrow> accounts E kv G True H (reject r m) R"
  unfolding reject_def by (cases r) (simp_all add: accounts_def sound_books)

lemma accounts_parsed:
  "(\<And>d. accounts E kv G True H (h d) R) \<Longrightarrow> accounts E kv G True H (parsed E ty dec data h) R"
  unfolding parsed_def by (cases "dec data") (simp_all add: accounts_def sound_books)

lemma accounts_claimable:
  assumes q: "keeps_books E kv G" and k: "stands E H k" "t_state k \<noteq> TFulfilled"
  shows "accounts E kv G False H (claimable E k ttl) (stays H)"
proof -
  obtain j r where j: "t_job k = Some j" "Asked r \<in> H" "e_id r = Some j" "executes E (e_payload r) (t_id k)"
    using standsD(1) [OF k(1)] k(2) by (auto simp: hired_def)
  show ?thesis
    unfolding claimable_def
    by (intro accounts_then(1) [OF accounts_holds] accounts_if accounts_ret)
      (simp_all add: j(1) accounts_claim [OF q j(2-4)])
qed

lemma accounts_searches:
  assumes q: "keeps_books E kv G"
  shows "accounts E kv G True H (promise_search E d1) R" "accounts E kv G True H (task_search E d2) R"
    "accounts E kv G True H (schedule_search E d3) R"
proof -
  have list: "accounts E kv G False H (promises E) (stays {})" "accounts E kv G False H (tasks E) (stays {})"
    "accounts E kv G False H (schedules E) (stays {})" for H
    unfolding promises_def tasks_def schedules_def list_kind_def
    by (auto intro!: accounts_loose accounts_ret accounts_reads)
  have paged: "accounts E kv G True H (paged name enc id_of items cursor n) R" for name enc and id_of items cursor n H
    unfolding paged_def by (auto intro!: accounts_loose(1) [OF accounts_reads] accounts_finish [OF q] split: prod.split)
  show "accounts E kv G True H (promise_search E d1) R" "accounts E kv G True H (task_search E d2) R"
    "accounts E kv G True H (schedule_search E d3) R"
    unfolding promise_search_def task_search_def schedule_search_def limited_def
    by (intro accounts_sum accounts_finish(2) [OF q] accounts_loose(1) [OF list(1)] accounts_loose(1) [OF list(2)]
        accounts_loose(1) [OF list(3)] paged)+
qed

text \<open>A request starts with no facts, and its deadlines leave none.\<close>

lemma accounts_deadlines:
  assumes q: "keeps_books E kv G" and "accounts E kv G True {} m R"
  shows "accounts E kv G True H (andthen (try_timeout E ids) m) R"
  by (rule accounts_forget, rule accounts_then(2) [OF accounts_try_timeout [OF q all_firmI(1)] assms(2)])

lemma accounts_promise_requests:
  assumes q: "keeps_books E kv G"
  shows "accounts E kv G True {} (promise_create E d1) R" "accounts E kv G True {} (promise_get E i) R"
    "accounts E kv G True {} (promise_settle E d2) R"
    "accounts E kv G True {} (promise_register_callback E d3) R"
    "accounts E kv G True {} (promise_register_listener E d4) R"
proof -
  note deadlines = accounts_deadlines [OF q] and last = accounts_finish [OF q]
  have create: "accounts E kv G True H (bnd (create_promise E d1 None Dispatch) (\<lambda>p. finished E (f p))) R"
    if "Absent (pc_id d1) \<in> H" for H f
    by (rule accounts_loose(1) [OF accounts_create [OF q all_firmI(1) that empty_subsetI] last(1)])
  show "accounts E kv G True {} (promise_create E d1) R"
    unfolding promise_create_def
    by (intro accounts_reject deadlines accounts_found(1) [OF q] last create)
  show "accounts E kv G True {} (promise_get E i) R"
    unfolding promise_get_def
    by (intro deadlines accounts_then(1) [OF accounts_gets(1) [OF q]] last)
  have settle: "accounts E kv G True H (bnd (settle_pending E p st v) (\<lambda>p. finished E (f p))) R" for H p st v f
    by (rule accounts_forget, rule accounts_loose(1) [OF accounts_settle [OF q all_firmI(1)] last(1)])
  show "accounts E kv G True {} (promise_settle E d2) R"
    unfolding promise_settle_def
    by (intro deadlines accounts_found(1) [OF q] settle last)
  have awaited: "accounts E kv G False {} (if is_pending r then (if is_pending (sp_record p) then register_callback p j
      else andthen (resume_awaiter E j j' w) (ret p)) else ret p) (stays {})" for r p j j' w
    by (intro accounts_if accounts_register accounts_then(2) [OF accounts_resume [OF q all_firmI(1)]] accounts_ret) auto
  show "accounts E kv G True {} (promise_register_callback E d3) R"
    unfolding promise_register_callback_def
    by (intro accounts_reject deadlines accounts_found(1) [OF q] accounts_if last,
        rule accounts_forget, rule accounts_loose(1) [OF awaited last(1)])
  have listener: "accounts E kv G False {} (if is_pending (sp_record p) \<and> a \<notin> set (sp_listeners p)
      then put_promise (p\<lparr>sp_listeners := sp_listeners p @ [a]\<rparr>) else ret ()) (stays {})" for p a
    by (intro accounts_if accounts_ret accounts_mono [OF accounts_put_pending [where H = "{}"]]) auto
  show "accounts E kv G True {} (promise_register_listener E d4) R"
    unfolding promise_register_listener_def
    by (intro accounts_if deadlines accounts_found(1) [OF q] last,
        rule accounts_forget, rule accounts_loose(2) [OF listener last(1)])
qed

lemma accounts_heartbeat:
  assumes q: "keeps_books E kv G"
  shows "accounts E kv G True {} (task_heartbeat E d) R"
proof -
  have "accounts E kv G False {} (heartbeat_one E pid entry) (stays {})" for pid entry
    unfolding heartbeat_one_def
    by (intro accounts_then(1) [OF accounts_gets(2) [OF q]] accounts_option accounts_ret accounts_if
        accounts_then(1) [OF accounts_renew [OF q]]) auto
  then show ?thesis
    unfolding task_heartbeat_def by (intro accounts_then(2) [OF accounts_for_each] accounts_finish [OF q])
qed

text \<open>
  A halted task is written pending before the queue is asked about its job: a job that the queue
  does not know is replaced, in the same write of the task.
\<close>

lemma job_exists_same: "\<exists>r. \<forall>u. queue u = queue t \<longrightarrow> job_exists E j u = (r, u)"
  by (cases "q_job_record E (queue t) j") (simp_all add: job_exists_def run_bnd run_ret storage_def)

lemma accounts_asked_first:
  assumes "accounts E kv G True H (bnd (job_exists E j) (\<lambda>b. andthen (put_task k) (f b))) R"
  shows "accounts E kv G True H (andthen (put_task k) (bnd (job_exists E j) f)) R"
proof (rule accountsI)
  fix t assume t: "sound E kv G t" "H \<subseteq> facts E kv G t"
  obtain r where r: "\<And>u. queue u = queue t \<Longrightarrow> job_exists E j u = (r, u)"
    using job_exists_same [of t E j] by blast
  show "wp (andthen (put_task k) (bnd (job_exists E j) f)) (outcome E kv G True R) t"
    using accountsD [OF assms t] sound_books [OF t(1)]
    by (cases r) (simp_all add: wp_def run_andthen run_bnd put_task_def put_json_def r)
qed

lemma put_then_dispatch: "andthen (put_task k) (dispatch E k at) = dispatch E k at"
proof -
  have "om_insert i v (om_insert i w m) = om_insert i v m" for i v w and m :: "(bytes, blob option) omap"
    by (rule om_eqI) simp
  then show ?thesis
    by (simp add: fun_eq_iff run_andthen run_bnd run_ret put_task_def put_json_def dispatch_def enqueue_def Let_def
        split: prod.split)
qed

lemma accounts_continue:
  assumes q: "keeps_books E kv G" and k: "stands E H k" "t_state k = THalted"
  shows "accounts E kv G True H (andthen (put_task (transition k TPending))
      (bnd (case t_job (transition k TPending) of Some job \<Rightarrow> job_exists E job | None \<Rightarrow> ret False) (\<lambda>waiting.
       andthen (if \<not> waiting then bnd (dispatch E (transition k TPending) None) (\<lambda>_. ret ()) else ret ()) (
       finished E r)))) R"
proof -
  let ?k = "transition k TPending"
  obtain j r' where j: "t_job k = Some j" "Asked r' \<in> H" "e_id r' = Some j" "executes E (e_payload r') (t_id k)"
    using standsD(1) [OF k(1)] k(2) by (auto simp: hired_def)
  have opened: "Open (t_id k) \<in> H" using standsD(4) [OF k(1)] k(2) by simp
  have known: "accounts E kv G True H' (andthen (put_task ?k) (andthen (ret ()) (finished E r))) R"
    if "H \<subseteq> H'" "Standing j \<in> H'" for H'
  proof -
    have "hired E H' ?k" using j that by (auto simp: hired_def)
    with that opened have "accounts E kv G False H' (put_task ?k) (lastly H')"
      by (intro accounts_mono [OF accounts_put_task [where H = H']]) auto
    then show ?thesis by (rule accounts_loose(2)) (simp add: andthen_def accounts_finish(1) [OF q])
  qed
  have unknown: "accounts E kv G True H' (andthen (put_task ?k)
      (andthen (bnd (dispatch E ?k None) (\<lambda>_. ret ())) (finished E r))) R" if "H \<subseteq> H'" for H'
  proof -
    have "accounts E kv G True H' (bnd (dispatch E ?k None) (\<lambda>_. finished E r)) R"
      by (rule accounts_loose(1) [OF accounts_dispatch [OF q] accounts_finish(1) [OF q]]) (use opened that in auto)
    moreover have "andthen (put_task ?k) (andthen (bnd (dispatch E ?k None) (\<lambda>_. ret ())) (finished E r))
        = bnd (andthen (put_task ?k) (dispatch E ?k None)) (\<lambda>_. finished E r)"
      by (simp add: andthen_def bnd_assoc)
    ultimately show ?thesis by (simp add: put_then_dispatch)
  qed
  have "accounts E kv G True H (bnd (job_exists E j) (\<lambda>b. andthen (put_task ?k)
      (andthen (if \<not> b then bnd (dispatch E ?k None) (\<lambda>_. ret ()) else ret ()) (finished E r)))) R"
    by (rule accounts_bnd [OF accounts_job_exists [OF q, where H = H]]) (use known unknown in auto)
  from accounts_asked_first [OF this] show ?thesis by (simp add: j(1))
qed

lemma accounts_task_moves:
  assumes q: "keeps_books E kv G"
  shows "accounts E kv G True {} (task_get E i) R" "accounts E kv G True {} (task_halt E i) R"
    "accounts E kv G True {} (task_continue E i) R" "accounts E kv G True {} (task_acquire E d1) R"
    "accounts E kv G True {} (task_release E d2) R"
proof -
  note deadlines = accounts_deadlines [OF q] and last = accounts_finish [OF q]
  show "accounts E kv G True {} (task_get E i) R"
    unfolding task_get_def
    by (intro deadlines accounts_then(1) [OF accounts_gets(2) [OF q]] last)
  have halt: "accounts E kv G True H (andthen (put_task (transition k THalted)) (andthen (release (t_id k)) (finished E r))) R"
    if k: "stands E H k" "t_state k \<noteq> TFulfilled" for H k r
  proof (rule accounts_andthen [OF accounts_move [OF k]])
    show "hired E H (transition k THalted)" by (rule hired_moved) (use k standsD(1) in auto)
    fix H' assume "H \<inter> Collect lasting \<subseteq> H' \<and> stands E H' (transition k THalted)"
    then have "Idle (t_id k) \<in> H'" using standsD(6) [of E H' "transition k THalted"] by simp
    then show "accounts E kv G True H' (andthen (release (t_id k)) (finished E r)) R"
      unfolding release_def by (intro accounts_last(2) [OF q]) (auto dest!: subsetD)
  qed simp_all
  show "accounts E kv G True {} (task_halt E i) R"
    unfolding task_halt_def
    by (intro deadlines accounts_found(2) [OF q] accounts_if last halt)
  show "accounts E kv G True {} (task_continue E i) R"
    unfolding task_continue_def Let_def
    by (intro deadlines accounts_found(2) [OF q] accounts_if last accounts_continue [OF q]) simp_all
  have acquire: "accounts E kv G True H (bnd (acquire E k pid ttl) (\<lambda>taken. case taken of
        None \<Rightarrow> finished E r | Some k' \<Rightarrow> bnd (task_view E k') (\<lambda>view. finished E (ok view)))) R"
    if "stands E H k" "t_state k = TPending" for H k pid ttl r
    by (intro accounts_loose(1) [OF accounts_acquire [OF q that]] accounts_option last
        accounts_loose(1) [OF accounts_view [OF q]])
  show "accounts E kv G True {} (task_acquire E d1) R"
    unfolding task_acquire_def
    by (intro deadlines accounts_found(2) [OF q] accounts_if last acquire) simp_all
  have release: "accounts E kv G True H (andthen (put_task (transition k TPending))
      (andthen (nack_after_commit (t_id k)) (finished E r))) R"
    if k: "stands E H k" "t_state k = TAcquired" for H k r
  proof -
    have "hired E H (transition k TPending)"
      by (rule hired_moved [OF standsD(1) [OF k(1)]]) (use k(2) in \<open>simp_all add: working_def\<close>)
    then have "accounts E kv G False H (put_task (transition k TPending))
        (\<lambda>H' _. H \<inter> Collect lasting \<subseteq> H' \<and> stands E H' (transition k TPending))"
      by (intro accounts_move [OF k(1)]) (use k(2) in simp_all)
    then show ?thesis
      by (rule accounts_loose(2)) (intro accounts_loose(2) [OF accounts_nack] last)
  qed
  show "accounts E kv G True {} (task_release E d2) R"
    unfolding task_release_def
    by (intro deadlines accounts_found(2) [OF q] accounts_if last release) (simp_all add: is_acquired_at_def)
qed

lemma accounts_load_awaited:
  assumes q: "keeps_books E kv G"
  shows "accounts E kv G False H (load_awaited E ids) (stays H)"
proof (induction ids)
  case (Cons i ids)
  then show ?case
    unfolding load_awaited.simps
    by (intro accounts_then(1) [OF accounts_gets(1) [OF q]] accounts_option accounts_if accounts_ret
        accounts_then(1) [OF Cons.IH])
qed (simp add: accounts_ret)

lemma accounts_suspend_on:
  assumes q: "keeps_books E kv G" and k: "stands E H k" "t_state k = TAcquired" "t_id k = i"
  shows "accounts E kv G True H (suspend_on E i k ps) R"
proof -
  let ?k = "k\<lparr>t_resumes := om_empty\<rparr>"
  note last = accounts_finish [OF q]
  have put: "accounts E kv G False H (put_task ?k) (stays {})"
    by (rule accounts_mono [OF accounts_move [OF k(1)]]) (use k standsD(1) [OF k(1)] in auto)
  have each: "accounts E kv G False H (bnd (register_callback p i) (\<lambda>_. ret ())) (stays H)"
    if "is_pending (sp_record p)" for p
    by (intro accounts_then(1) [OF accounts_register [OF that]] accounts_ret)
  have hired: "hired E H (transition ?k TSuspended)"
    by (rule hired_moved) (use k standsD(1) [OF k(1)] in \<open>simp_all add: working_def\<close>)
  have done_with: "accounts E kv G True H (andthen (put_task (transition ?k TSuspended)) (commit_settlement E i r)) R" for r
  proof (rule accounts_andthen [OF accounts_move [OF k(1) _ hired]])
    fix H' assume "H \<inter> Collect lasting \<subseteq> H' \<and> stands E H' (transition ?k TSuspended)"
    then have "Idle i \<in> H'" using standsD(6) [of E H' "transition ?k TSuspended"] k(3) by simp
    then show "accounts E kv G True H' (commit_settlement E i r) R"
      by (intro accounts_settlement [OF q]) simp
  qed (use k in simp_all)
  show ?thesis
    unfolding suspend_on_def Let_def
  proof (rule accounts_if)
    show "accounts E kv G True H (andthen (put_task ?k) (
        bnd (get_promise E i) (\<lambda>found.
        bnd (expect ''a task's promise exists'' found) (\<lambda>own.
        bnd (preload E (sp_record own)) (\<lambda>records.
        finished E (ROk 300 (jobj [(''preload'', preload_json records)]))))))) R"
      by (intro accounts_loose(2) [OF put] accounts_own [OF q] accounts_then(1) [OF accounts_preload [OF q]] last)
    assume "\<not> list_ex (\<lambda>promise. \<not> is_pending (sp_record promise)) ps"
    then show "accounts E kv G True H (andthen (for_each (\<lambda>promise. bnd (register_callback promise i) (\<lambda>_. ret ())) ps) (
        andthen (put_task (transition ?k TSuspended)) (commit_settlement E i empty_reply))) R"
      by (intro accounts_then(2) [OF accounts_for_each [OF each]] done_with) (auto simp: list_ex_iff)
  qed
qed

lemma accounts_task_ends:
  assumes q: "keeps_books E kv G"
  shows "accounts E kv G True {} (task_fulfill E d1) R" "accounts E kv G True {} (task_suspend E d2) R"
proof -
  note deadlines = accounts_deadlines [OF q] and last = accounts_finish [OF q]
  have settle: "accounts E kv G True H (bnd (holds E j) (\<lambda>held. if \<not> held then finished E r
      else bnd (settle_pending E p st v) (\<lambda>p'. commit_settlement E j (f p')))) R"
    if "is_pending (sp_record p)" "p_id (sp_record p) = j" "Present j \<in> H" for H p st v f r j
  proof -
    have "accounts E kv G True {Present j} (bnd (settle_pending E p st v) (\<lambda>p'. commit_settlement E j (f p'))) R"
      by (rule accounts_bnd [OF accounts_settle [OF q]], simp add: all_firm_def)
        (rule accounts_settlement [OF q], use that in simp)
    then show ?thesis
      by (intro accounts_then(1) [OF accounts_holds] accounts_if last) (erule accounts_less, use that in simp)
  qed
  have found: "accounts E kv G True H (if \<not> is_acquired_at k v then finished E r0
      else bnd (get_promise E i) (\<lambda>found. case found of None \<Rightarrow> finished E r1
        | Some p \<Rightarrow> bnd (holds E (t_id k)) (\<lambda>held. if \<not> held then finished E r
            else bnd (settle_pending E p st w) (\<lambda>p'. commit_settlement E (t_id k) (f p'))))) R"
    if k: "stands E H k" "t_id k = i" for H k i v r0 r1 r st w f
  proof (intro accounts_if last accounts_found(1) [OF q])
    fix p :: stored_promise and H' assume k': "\<not> \<not> is_acquired_at k v" and p: "H \<subseteq> H'" "p_id (sp_record p) = i"
      "Open i \<in> H \<longrightarrow> is_pending (sp_record p)"
    have "Open i \<in> H" "Present i \<in> H"
      using standsD(2,4) [OF k(1)] k(2) k' by (auto simp: is_acquired_at_def)
    then show "accounts E kv G True H' (bnd (holds E (t_id k)) (\<lambda>held. if \<not> held then finished E r
        else bnd (settle_pending E p st w) (\<lambda>p'. commit_settlement E (t_id k) (f p')))) R"
      using p k(2) by (intro settle) auto
  qed
  show "accounts E kv G True {} (task_fulfill E d1) R"
    unfolding task_fulfill_def Let_def
    by (intro accounts_if last deadlines accounts_found(2) [OF q] found)
  have suspend: "accounts E kv G True H (bnd (load_awaited E ids) (\<lambda>loaded. case loaded of
        Inl reply \<Rightarrow> finished E reply | Inr awaited \<Rightarrow> suspend_on E i k awaited)) R"
    if "stands E H k" "t_state k = TAcquired" "t_id k = i" for H ids i k
    by (intro accounts_then(1) [OF accounts_load_awaited [OF q]] accounts_sum last accounts_suspend_on [OF q that])
  have suspending: "accounts E kv G True H (bnd (if is_acquired_at k v then holds E (t_id k) else ret False) (\<lambda>held.
        if \<not> held then finished E r else bnd (load_awaited E ids) (\<lambda>loaded. case loaded of
          Inl reply \<Rightarrow> finished E reply | Inr awaited \<Rightarrow> suspend_on E i k awaited))) R"
    if "stands E H k" "t_id k = i" for k v r ids i H
  proof (cases "is_acquired_at k v")
    case True
    then have "t_state k = TAcquired" by (simp add: is_acquired_at_def)
    then show ?thesis
      unfolding if_P [OF True] by (intro accounts_then(1) [OF accounts_holds] accounts_if last suspend that)
  next
    case False
    show ?thesis
      unfolding if_not_P [OF False] bnd_ret by (simp add: last)
  qed
  show "accounts E kv G True {} (task_suspend E d2) R"
    unfolding task_suspend_def
    by (intro accounts_if last accounts_sum deadlines accounts_found(2) [OF q] suspending)
qed

lemma accounts_creations:
  assumes q: "keeps_books E kv G"
  shows "accounts E kv G True {} (task_create E d1) R" "accounts E kv G True {} (task_fence E corr_id d2) R"
proof -
  note deadlines = accounts_deadlines [OF q] and last = accounts_finish [OF q]
  have view: "accounts E kv G True {} (bnd (task_view E k) (\<lambda>view. finished E (f view))) R" for k f
    by (intro accounts_loose(1) [OF accounts_view [OF q]] last)
  have existing: "accounts E kv G True H (create_existing E k pid ttl) R" if "stands E H k" for H k pid ttl
  proof (cases "t_state k = TPending")
    case True
    then show ?thesis
      unfolding create_existing_def task_state.case
      by (simp, intro accounts_then(1) [OF accounts_claimable [OF q that]] accounts_if last
          accounts_loose(1) [OF accounts_acquire [OF q that]] accounts_option view) simp_all
  next
    case False
    then show ?thesis
      unfolding create_existing_def
      by (intro accounts_states last accounts_forget [OF view]) simp
  qed
  have create: "accounts E kv G True H (bnd (create_promise E d at mode) (\<lambda>p.
      bnd (get_task E (g p)) (\<lambda>found. bnd (expect msg found) (\<lambda>k.
      bnd (task_view E k) (\<lambda>view. finished E (f view)))))) R"
    if "Absent (pc_id d) \<in> H" for d at mode H g f msg
    by (rule accounts_loose(1) [OF accounts_create [OF q all_firmI(1) that empty_subsetI]],
        rule accounts_then(1) [OF accounts_gets(2) [OF q]], rule accounts_loose(1) [OF accounts_expect], rule view)
  show "accounts E kv G True {} (task_create E d1) R"
    unfolding task_create_def Let_def
    by (intro accounts_if last accounts_reject deadlines accounts_found [OF q] existing create)
  have action: "accounts E kv G False {} (fence_action E kd j) (stays {})" for kd j
    unfolding fence_action_def fence_create_def fence_settle_def
    by (intro accounts_if accounts_option accounts_ret accounts_found(1) [OF q]
        accounts_loose(1) [OF accounts_create [OF q all_firmI(1)]]
        accounts_forget [OF accounts_loose(1) [OF accounts_settle [OF q all_firmI(1)]]]) simp_all
  have replied: "accounts E kv G True {} (case x of Inl r \<Rightarrow> ret r
      | Inr inner \<Rightarrow> bnd (get_promise E i) (\<lambda>found. bnd (expect msg found) (\<lambda>own.
          bnd (preload E (sp_record own)) (\<lambda>records. finished E (f inner records))))) R" for x i msg f
    by (intro accounts_sum last accounts_own [OF q] accounts_then(1) [OF accounts_preload [OF q]])
  show "accounts E kv G True {} (task_fence E corr_id d2) R"
    unfolding task_fence_def
    by (intro accounts_option last accounts_if deadlines accounts_found(2) [OF q],
        rule accounts_forget, rule accounts_then(1) [OF action replied])
qed

lemma accounts_schedule_requests:
  assumes q: "keeps_books E kv G"
  shows "accounts E kv G True {} (schedule_create E d) R" "accounts E kv G True {} (schedule_get E i) R"
    "accounts E kv G True {} (schedule_delete E i) R"
proof -
  note last = accounts_finish [OF q] and get = accounts_get(3) [OF books_contract [OF q]]
  show "accounts E kv G True {} (schedule_create E d) R"
    unfolding schedule_create_def Let_def
    by (intro accounts_if accounts_option last accounts_then(1) [OF get] accounts_loose(1) [OF accounts_asks]
        accounts_then(2) [OF accounts_puts(1)] accounts_then(2) [OF accounts_timer]) simp
  show "accounts E kv G True {} (schedule_get E i) R"
    unfolding schedule_get_def by (rule accounts_then(1) [OF get last(2)])
  show "accounts E kv G True {} (schedule_delete E i) R"
    unfolding schedule_delete_def
    by (intro accounts_then(1) [OF get] accounts_option last accounts_then(2) [OF accounts_puts(2)])
qed

section \<open>Every request, timer and delivery\<close>

lemma accounts_handle:
  assumes q: "keeps_books E kv G"
  shows "accounts E kv G True {} (handle E kind corr_id data) R"
  unfolding handle_def
  by (intro accounts_if accounts_parsed accounts_finish(2) [OF q] accounts_promise_requests [OF q]
      accounts_searches [OF q] accounts_task_moves [OF q] accounts_heartbeat [OF q] accounts_task_ends [OF q]
      accounts_creations [OF q] accounts_schedule_requests [OF q])

lemma accounts_fire:
  assumes q: "keeps_books E kv G"
  shows "accounts E kv G True {} (fire E tm) R"
proof -
  note commit = accounts_commit(1) [OF q]
  have expire: "accounts E kv G True H (bnd (expire_promise E p) (\<lambda>_. commit E)) R" for H p
    unfolding expire_promise_def
    by (rule accounts_forget, rule accounts_loose(1) [OF accounts_settle_chain [OF q all_firmI(1)] commit]) simp
  have ended: "accounts E kv G True H (ret x) R" for H x
    by (simp add: accounts_def sound_books)
  show ?thesis
    unfolding fire_def
    by (cases tm) (auto intro!: accounts_found(1) [OF q] ended expire
        accounts_then(1) [OF accounts_get(3) [OF books_contract [OF q]]] accounts_loose(2) [OF accounts_fire_schedule [OF q] commit]
        split: option.split)
qed

text \<open>
  A delivery of a job that executes a task: a task that does not wait for it ends the job, and one
  that does keeps it, under the claim that is held for its worker.
\<close>

lemma accounts_execute:
  assumes q: "keeps_books E kv G" and c: "executes E (c_payload c) i"
    and r: "Asked r \<in> H" "e_id r = Some (c_id c)" "executes E (e_payload r) i"
  shows "accounts E kv G True H (deliver E c) R"
proof -
  have own: "job_of E (requests G t) (c_id c) i" if "H' \<subseteq> facts E kv G t" "Asked r \<in> H'" for t H'
    using that r(2,3) by (force simp: job_of_def)
  have stale: "accounts E kv G True H' (andthen (ack_after_commit c) (andthen (commit E) (ret None))) R"
    if "Asked r \<in> H'" "Absent i \<in> H' \<or> Idle i \<in> H'" for H'
    unfolding ack_after_commit_def
  proof (rule accounts_last(1) [OF q])
    fix t assume t: "sound E kv G t" "H' \<subseteq> facts E kv G t"
    have "due E (requests G t) (view kv t) (Release i)"
      using that(2) t(2) by auto
    then show "due E (requests G t) (view kv t) (Ack c)"
      by (rule own_claim_due [OF _ _ own [OF t(2) that(1)], rotated 2]) (use t(1) in \<open>auto simp: sound_def\<close>)
  qed
  have send: "accounts E kv G True H' (andthen (hold_after_commit i c) (andthen (commit E) (ret (Some m)))) R"
    if "Asked r \<in> H'" for H' m
    unfolding hold_after_commit_def
    by (rule accounts_last(1) [OF q]) (simp add: own [OF _ that])
  have again: "accounts E kv G True H' (andthen (put_task (transition k TPending))
      (andthen (hold_after_commit i c) (andthen (commit E) (ret (Some m))))) R"
    if k: "Asked r \<in> H'" "stands E H' k" "t_state k = TAcquired" for H' k m
  proof -
    have "hired E H' (transition k TPending)"
      by (rule hired_moved [OF standsD(1) [OF k(2)]]) (use k(3) in \<open>simp_all add: working_def\<close>)
    then have "accounts E kv G False H' (put_task (transition k TPending)) (lastly H')"
      by (intro accounts_mono [OF accounts_move [OF k(2)]]) (use k(3) in simp_all)
    then show ?thesis
      by (rule accounts_andthen, intro send) (use k(1) in auto)
  qed
  have found: "accounts E kv G True {Asked r} (bnd (get_task E i) (\<lambda>found. case found of
        None \<Rightarrow> andthen (ack_after_commit c) (andthen (commit E) (ret None))
      | Some k \<Rightarrow> (case t_state k of
          TPending \<Rightarrow> andthen (hold_after_commit i c) (andthen (commit E) (ret (Some (execute_message i (t_version k)))))
        | TAcquired \<Rightarrow> andthen (put_task (transition k TPending)) (andthen (hold_after_commit i c)
            (andthen (commit E) (ret (Some (execute_message i (t_version k))))))
        | TSuspended \<Rightarrow> andthen (ack_after_commit c) (andthen (commit E) (ret None))
        | THalted \<Rightarrow> andthen (ack_after_commit c) (andthen (commit E) (ret None))
        | TFulfilled \<Rightarrow> andthen (ack_after_commit c) (andthen (commit E) (ret None))))) R"
  proof (rule accounts_found(2) [OF q])
    fix k H' assume k: "{Asked r} \<subseteq> H'" "t_id k = i" "stands E H' k"
    have "Idle i \<in> H'" if "\<not> working k" using standsD(6) [OF k(3) that] k(2) by simp
    then show "accounts E kv G True H' (case t_state k of
          TPending \<Rightarrow> andthen (hold_after_commit i c) (andthen (commit E) (ret (Some (execute_message i (t_version k)))))
        | TAcquired \<Rightarrow> andthen (put_task (transition k TPending)) (andthen (hold_after_commit i c)
            (andthen (commit E) (ret (Some (execute_message i (t_version k))))))
        | TSuspended \<Rightarrow> andthen (ack_after_commit c) (andthen (commit E) (ret None))
        | THalted \<Rightarrow> andthen (ack_after_commit c) (andthen (commit E) (ret None))
        | TFulfilled \<Rightarrow> andthen (ack_after_commit c) (andthen (commit E) (ret None))) R"
      using k by (intro accounts_states send again stale) (simp_all add: working_def)
  qed (use stale in simp)
  have known: "bnd (reads (\<lambda>_. Inr x)) f = f x" for x and f :: "delivery \<Rightarrow> ('a txn, json option) tx"
    by (simp add: fun_eq_iff run_bnd)
  have "accounts E kv G True {Asked r} (deliver E c) R"
    using c unfolding deliver_def Let_def executes_def
    by (simp add: known accounts_then(2) [OF accounts_try_timeout [OF q] found] all_firm_def)
  then show ?thesis by (rule accounts_less) (use r(1) in simp)
qed

text \<open>The claim of a message is of no task's job.\<close>

lemma unblock_due:
  assumes t: "sound E kv G t" and c: "known_claim G (queue t) c" "\<And>i. \<not> executes E (c_payload c) i"
  shows "due E (requests G t) (view kv t) (Ack c)"
proof -
  have apart: "told_apart E (requests G t) (l_issued G (queue t))"
    and order: "in_order E (requests G t) (l_ended G (queue t)) (view kv t)"
    using t by (simp_all add: sound_def)
  obtain r where r: "r \<in> requests G t" "e_payload r = c_payload c"
    "case e_id r of Some j \<Rightarrow> c_id c = j | None \<Rightarrow> c_id c \<notin> l_issued G (queue t)"
    using c(1) by (auto simp: known_claim_def requests_def)
  have False if k: "task_in E (view kv t) i = Some k" "working k" "t_job k = Some (c_id c)" for i k
  proof -
    have job: "job_of E (requests G t) (c_id c) (t_id k)"
      using order k unfolding in_order_def employed_def working_def by fastforce
    then obtain s where s: "s \<in> requests G t" "e_id s = Some (c_id c)" "executes E (e_payload s) (t_id k)"
      by (auto simp: job_of_def)
    from r(3) job_of_issued [OF apart job] have "e_id r = Some (c_id c)" by (simp split: option.splits)
    with r(1) s(1,2) have "e_payload s = e_payload r" using apart unfolding told_apart_def by (metis option.distinct(1))
    with s(3) r(2) c(2) show False by simp
  qed
  then show ?thesis by auto
qed

lemma deliver_books:
  assumes q: "keeps_books E kv G" and t: "sound E kv G t" and c: "known_claim G (queue t) c"
  shows "wp (deliver E c) (\<lambda>r t'. books E kv G (queue t') (held t')) t"
proof (cases "\<exists>i. executes E (c_payload c) i")
  case True
  then obtain i where i: "executes E (c_payload c) i" by blast
  have "told_apart E (l_jobs G (queue t)) (l_issued G (queue t))" using t by (simp add: sound_def books_def)
  from known_claim_job [OF c this i] obtain r where
    r: "r \<in> l_jobs G (queue t)" "e_id r = Some (c_id c)" "executes E (e_payload r) i"
    by (auto simp: job_of_def)
  have "accounts E kv G True {Asked r} (deliver E c) (stays {})"
    by (rule accounts_execute [OF q i _ r(2,3)]) simp
  from accountsD [OF this t] r(1) show ?thesis by (auto simp: requests_def elim!: wp_mono)
next
  case False
  show ?thesis
  proof (cases "from_slice E ''Delivery'' dec_delivery (c_payload c)")
    case (Inl e)
    then show ?thesis using sound_books [OF t] by (simp add: wp_def deliver_def run_bnd reads_def)
  next
    case (Inr d)
    with False obtain m where "d = Unblock m" by (cases d) (auto simp: executes_def)
    with Inr have "deliver E c t = bnd (andthen (add_after (Ack c)) (commit E)) (\<lambda>_. ret (Some m)) t"
      by (simp add: deliver_def ack_after_commit_def run_bnd reads_def andthen_def bnd_assoc)
    moreover have "wp (bnd (andthen (add_after (Ack c)) (commit E)) (\<lambda>_. ret (Some m)))
        (\<lambda>r t'. books E kv G (queue t') (held t')) t"
      by (rule wp_bndI [OF plan_books [OF q t unblock_due [OF t c]]]) (use False in simp_all)
    ultimately show ?thesis by (simp add: wp_def)
  qed
qed

end
