(* ===== verification/Books.thy ===== *)
theory Books
  imports Accounting
begin

text \<open>
  The books of the queue over every run of the system, and the job of a task that waits for its
  delivery.
\<close>

section \<open>Over every run\<close>

text \<open>
  A step of the system whose queue keeps books: a request, a timer, a round of a delivery loop or
  the delivery of a claim that a loop took before, a step of the queue itself, which ends no job,
  or a restart on what the queue has stored.
\<close>

inductive bookkeeping ::
  "('q, 'x) env_scheme \<Rightarrow> ('q \<Rightarrow> store) \<Rightarrow> 'q ledger \<Rightarrow> store_options \<Rightarrow> 'q world \<Rightarrow> 'q world \<Rightarrow> bool"
  for E kv G opts where
  served_one: "send_timed E opts raw w = (out, w') \<Longrightarrow> bookkeeping E kv G opts w w'"
| timer_ran: "process_timer E opts payload w = (r, w') \<Longrightarrow> bookkeeping E kv G opts w w'"
| round_made: "delivery_round E opts l subs w = (go, out, w') \<Longrightarrow> bookkeeping E kv G opts w w'"
| claim_used: "known_claim G (w_queue w) c \<Longrightarrow> deliver_claim E opts subs c w = (out, w') \<Longrightarrow>
    bookkeeping E kv G opts w w'"
| queue_ran: "same_namespace (kv (w_queue w)) (kv q') \<Longrightarrow> kept_books G (w_queue w) q' \<Longrightarrow>
    bookkeeping E kv G opts w (w\<lparr>w_queue := q'\<rparr>)"
| reopened: "same_namespace (kv (w_queue w)) (kv q') \<Longrightarrow> kept_books G (w_queue w) q' \<Longrightarrow>
    bookkeeping E kv G opts w (from_queue q')"

definition audited :: "('q, 'x) env_scheme \<Rightarrow> ('q \<Rightarrow> store) \<Rightarrow> 'q ledger \<Rightarrow> 'q world \<Rightarrow> bool" where
  "audited E kv G w \<longleftrightarrow> keeps_books E kv G \<and> books E kv G (w_queue w) (w_held w)"

lemma sound_start: "audited E kv G w \<Longrightarrow> sound E kv G (shared_txn E opts w)"
proof -
  have "view kv (shared_txn E opts w) = kv (w_queue w)"
    by (simp add: view_def shared_txn_def new_txn_def fun_eq_iff)
  then show "audited E kv G w \<Longrightarrow> sound E kv G (shared_txn E opts w)"
    by (simp add: audited_def sound_def requests_def books_def) (simp add: shared_txn_def new_txn_def)
qed

lemma locked_books:
  assumes "wp m (\<lambda>r t'. books E kv G (queue t') (held t')) (shared_txn E opts w)" "keeps_books E kv G"
    and "locked E opts m w = (r, w')"
  shows "audited E kv G w'"
  using assms by (auto simp: audited_def locked_def wp_def split: prod.splits)

lemma locked_audited:
  assumes w: "audited E kv G w" and m: "accounts E kv G True {} m R" and run: "locked E opts m w = (r, w')"
  shows "audited E kv G w'"
proof (rule locked_books [OF _ _ run])
  show "wp m (\<lambda>r t'. books E kv G (queue t') (held t')) (shared_txn E opts w)"
    by (rule wp_mono [OF accountsD [OF m sound_start [OF w]]]) simp_all
qed (use w in \<open>simp add: audited_def\<close>)

lemma deliver_audited:
  assumes w: "audited E kv G w" and c: "known_claim G (w_queue w) c"
    and run: "deliver_claim E opts subs c w = (out, w')"
  shows "audited E kv G w'"
proof -
  obtain r where r: "locked E opts (deliver E c) w = (r, w')"
    using run by (auto simp: deliver_claim_def split: sum.splits option.splits prod.splits)
  have q: "keeps_books E kv G" using w by (simp add: audited_def)
  show ?thesis
    by (rule locked_books [OF deliver_books [OF q sound_start [OF w]] q r])
      (simp add: c shared_txn_def new_txn_def)
qed

lemma kept_audited:
  assumes "audited E kv G w" "same_namespace (kv (w_queue w)) (kv q')" "kept_books G (w_queue w) q'"
    and "h = w_held w \<or> h = (\<lambda>_. None)"
  shows "audited E kv G \<lparr>w_queue = q', w_held = h\<rparr>"
proof -
  have "in_order E (l_jobs G (w_queue w)) (l_ended G (w_queue w)) (kv q')"
    using assms(1) unfolding in_order_def same_namespace_records(1,2) [OF assms(2)]
    by (simp add: audited_def books_def in_order_def)
  then have "in_order E (l_jobs G q') (l_ended G q') (kv q')"
    using assms(3) by (auto simp: kept_books_def intro: in_order_mono)
  then show ?thesis
    using assms(1,3,4)
    by (auto simp: audited_def books_def kept_books_def holds_own_def intro: told_apart_mono)
qed

lemma bookkeeping_audited:
  assumes w: "audited E kv G w" and "bookkeeping E kv G opts w w'"
  shows "audited E kv G w'"
proof -
  have q: "keeps_books E kv G" using w by (simp add: audited_def)
  from assms(2) show ?thesis
  proof cases
    case (served_one raw out)
    then consider "w' = w" | kind corr_id data r where "locked E opts (handle E kind corr_id data) w = (r, w')"
      by (auto simp: send_timed_def split: sum.splits prod.splits)
    then show ?thesis using w locked_audited [OF w accounts_handle [OF q]] by cases blast+
  next
    case (timer_ran payload r)
    then consider "w' = w" | tm where "locked E opts (fire E tm) w = (r, w')"
      by (auto simp: process_timer_def split: sum.splits)
    then show ?thesis using w locked_audited [OF w accounts_fire [OF q]] by cases blast+
  next
    case (round_made l subs go out)
    obtain c q' where claim: "q_claim E (w_queue w) (dl_queue l) (retry_timeout opts) = (c, q')"
      by (metis surj_pair)
    have valid: "l_valid G (w_queue w)" using w by (simp add: audited_def books_def)
    have "audited E kv G \<lparr>w_queue = q', w_held = w_held w\<rparr>"
      by (rule kept_audited [OF w _ books_claims(5) [OF q valid claim]])
        (simp_all add: contract_claims(4) [OF books_contract [OF q] claim] same_namespace_refl)
    then have first: "audited E kv G (w\<lparr>w_queue := q'\<rparr>)" by (simp add: audited_def)
    consider "w' = w\<lparr>w_queue := q'\<rparr>" | cl out' where "c = Inr (Some cl)"
        "deliver_claim E opts subs cl (w\<lparr>w_queue := q'\<rparr>) = (out', w')"
      using round_made claim by (auto simp: delivery_round_def split: sum.splits option.splits prod.splits)
    then show ?thesis
    proof cases
      case 2
      have "known_claim G q' cl" using books_claims(6) [OF q valid] claim 2(1) by blast
      then show ?thesis by (intro deliver_audited [OF first _ 2(2)]) simp
    qed (use first in simp)
  next
    case (claim_used c subs out)
    then show ?thesis by (rule deliver_audited [OF w])
  next
    case (queue_ran q')
    then show ?thesis using kept_audited [OF w queue_ran(2,3), of "w_held w"] by (simp add: audited_def)
  next
    case (reopened q')
    then show ?thesis using kept_audited [OF w reopened(2,3)] by (simp add: from_queue_def)
  qed
qed

interpretation auditing: invariant_machine "bookkeeping E kv G opts" "audited E kv G"
  for E :: "('q, 'x) env_scheme" and kv :: "'q \<Rightarrow> store" and G :: "'q ledger" and opts :: store_options
  by unfold_locales (rule bookkeeping_audited)

lemma audited_empty:
  assumes "keeps_books E kv G" "l_valid G q" "l_jobs G q = {}" "\<forall>k. prefix ''resonate/'' k \<longrightarrow> kv q k = None"
  shows "audited E kv G (from_queue q)"
  using assms
  by (simp add: audited_def books_def in_order_def told_apart_def holds_own_def from_queue_def in_defs record_at_def)

section \<open>A job that is still to come\<close>

text \<open>
  The job of a task: one that the queue has accepted under the id the task names, that executes
  this task, and that no acknowledgement has ended.
\<close>

definition has_live_job :: "('q, 'x) env_scheme \<Rightarrow> 'q ledger \<Rightarrow> 'q \<Rightarrow> stored_task \<Rightarrow> bool" where
  "has_live_job E G q k \<longleftrightarrow> (\<exists>r \<in> l_jobs G q. \<exists>j. t_job k = Some j \<and> e_id r = Some j
     \<and> from_slice E ''Delivery'' dec_delivery (e_payload r) = Inr (Execute (t_id k)) \<and> j \<notin> l_ended G q)"

lemma audited_live_job:
  assumes "audited E kv G w" "task_in E (kv (w_queue w)) i = Some k" "t_state k = TPending \<or> t_state k = TAcquired"
  shows "has_live_job E G (w_queue w) k"
proof -
  have "employed E (l_jobs G (w_queue w)) (l_ended G (w_queue w)) k"
    using assms(1,2) unfolding audited_def books_def in_order_def by blast
  then obtain j where "t_job k = Some j" "job_of E (l_jobs G (w_queue w)) j (t_id k)" "j \<notin> l_ended G (w_queue w)"
    using assms(3) unfolding employed_def working_def by auto
  then show ?thesis
    unfolding has_live_job_def job_of_def executes_def by blast
qed

text \<open>After a request, whatever its answer, a task that waits for a delivery has one coming.\<close>

lemma locked_live_job:
  assumes "audited E kv G w" "accounts E kv G True {} m R" "locked E opts m w = (r, w')"
    and "task_in E (kv (w_queue w')) i = Some k" "t_state k = TPending"
  shows "has_live_job E G (w_queue w') k"
  using audited_live_job [OF locked_audited [OF assms(1-3)] assms(4)] assms(5) by blast

end
