(* ===== verification/Memory_Books.thy ===== *)
theory Memory_Books
  imports Memory_Queue Books
begin

text \<open>
  The queue in memory keeps books.  A job has ended when its request was accepted and the queue
  has it no more.
\<close>

section \<open>What the queue has accepted\<close>

definition mem_jobs :: "mem \<Rightarrow> enqueue_request set" where
  "mem_jobs m = set (m_accepted m)"

lemma mem_jobs_simps [simp]:
  "mem_jobs (mem_set_lease i l m) = mem_jobs m" "mem_jobs (mem_end c m) = mem_jobs m"
  "mem_jobs (m\<lparr>m_next := n\<rparr>) = mem_jobs m" "mem_jobs (m\<lparr>m_kv := s\<rparr>) = mem_jobs m"
  by (simp_all add: mem_jobs_def mem_set_lease_def mem_end_def split: option.split)

lemma mem_jobs_enqueue [simp]: "mem_jobs (mem_enqueue rs m) = set rs \<union> mem_jobs m"
  by (induction rs m rule: mem_enqueue.induct) (auto simp: mem_jobs_def Let_def)

lemma mem_jobs_apply [simp]: "mem_jobs (mem_apply ef m) = set (ef_enqueues ef) \<union> mem_jobs m"
  by (simp add: mem_apply_def)

lemma mem_jobs_take: "mem_take i l m = (c, m') \<Longrightarrow> mem_jobs m' = mem_jobs m"
  by (auto simp: mem_take_def split: option.splits if_splits)

section \<open>The books of the queue in memory\<close>

text \<open>
  A job has ended when its request was accepted and the queue has it no more.  Every job it has is
  of an accepted request.
\<close>

definition mem_issued :: "mem \<Rightarrow> string set" where
  "mem_issued m = job_name ` {..<m_next m}"

definition mem_ended :: "mem \<Rightarrow> string set" where
  "mem_ended m = {j. (\<exists>r \<in> mem_jobs m. e_id r = Some j) \<and> om_get (m_jobs m) j = None}"

definition mem_valid :: "mem \<Rightarrow> bool" where
  "mem_valid m \<longleftrightarrow> (\<forall>r \<in> mem_jobs m. \<forall>j. e_id r = Some j \<longrightarrow> j \<in> mem_issued m)
     \<and> (\<forall>i j. om_get (m_jobs m) i = Some j \<longrightarrow> (\<exists>r \<in> mem_jobs m. e_payload r = mj_payload j
         \<and> (case e_id r of Some i' \<Rightarrow> i = i' | None \<Rightarrow> i \<notin> range job_name)))"

definition mem_ledger :: "mem ledger" where
  "mem_ledger = \<lparr>l_valid = mem_valid, l_jobs = mem_jobs, l_issued = mem_issued, l_ended = mem_ended\<rparr>"

lemma mem_ledger_simps [simp]:
  "l_valid mem_ledger = mem_valid" "l_jobs mem_ledger = mem_jobs" "l_issued mem_ledger = mem_issued"
  "l_ended mem_ledger = mem_ended"
  by (simp_all add: mem_ledger_def)

lemma job_name_eq [simp]: "job_name m = job_name n \<longleftrightarrow> m = n"
  by (metis job_name_def parse_show_nat same_append_eq option.inject)

lemma own_name_not_issued [simp]: "own_name n \<noteq> job_name m" "own_name n \<notin> range job_name"
  by (auto simp: own_name_def job_name_def)

text \<open>A change of a lease keeps the books, and so does an issue of an id.\<close>

lemma mem_lease_kept: "mem_valid m \<Longrightarrow> kept_books mem_ledger m (mem_set_lease i l m)"
  by (auto simp: kept_books_def mem_valid_def mem_ended_def mem_issued_def mem_jobs_def mem_set_lease_def
      split: option.splits if_splits)

lemma mem_next_kept: "mem_valid m \<Longrightarrow> kept_books mem_ledger m (m\<lparr>m_next := m_next m + 1\<rparr>)"
  by (fastforce simp: kept_books_def mem_valid_def mem_ended_def mem_issued_def mem_jobs_def)

lemma kept_refl [simp]: "l_valid G q \<Longrightarrow> kept_books G q q"
  by (simp add: kept_books_def)

lemma mem_claim_known:
  assumes "mem_valid m" "om_get (m_jobs m) i = Some j"
  shows "known_claim mem_ledger m (mem_claim i j)"
proof -
  obtain r where r: "r \<in> mem_jobs m" "e_payload r = mj_payload j"
    "case e_id r of Some i' \<Rightarrow> i = i' | None \<Rightarrow> i \<notin> range job_name"
    using assms unfolding mem_valid_def by blast
  then show ?thesis
    unfolding known_claim_def
    by (intro bexI [of _ r]) (auto simp: mem_claim_def mem_issued_def split: option.splits)
qed

lemma mem_take_kept:
  assumes "mem_valid m" "mem_take i l m = (c, m')"
  shows "kept_books mem_ledger m m'"
    and "c = Some cl \<Longrightarrow> c_id cl = i \<and> known_claim mem_ledger m cl"
  using assms mem_lease_kept mem_claim_known
  by (auto simp: mem_take_def mem_claim_def split: option.splits if_splits)

lemma kept_known:
  "known_claim mem_ledger m c \<Longrightarrow> mem_issued m' = mem_issued m \<Longrightarrow> mem_jobs m' = mem_jobs m \<Longrightarrow>
   known_claim mem_ledger m' c"
  unfolding known_claim_def mem_ledger_simps by metis

lemma mem_take_issued: "mem_take i l m = (c, m') \<Longrightarrow> mem_issued m' = mem_issued m \<and> mem_jobs m' = mem_jobs m"
  by (auto simp: mem_take_def mem_set_lease_def mem_issued_def mem_jobs_def split: option.splits if_splits)

lemma mem_enqueue_books:
  assumes "mem_valid m" "\<forall>r \<in> set rs. \<forall>j. e_id r = Some j \<longrightarrow> j \<in> mem_issued m"
  shows "mem_valid (mem_enqueue rs m) \<and> mem_issued m \<subseteq> mem_issued (mem_enqueue rs m)
    \<and> mem_ended (mem_enqueue rs m) \<subseteq> mem_ended m"
  using assms
proof (induction rs m rule: mem_enqueue.induct)
  case (2 r rs m)
  let ?i = "case e_id r of Some i \<Rightarrow> i | None \<Rightarrow> own_name (m_next m)"
  let ?j = "\<lparr>mj_queue = e_queue r, mj_payload = e_payload r,
    mj_run_at = (case e_run_at r of None \<Rightarrow> 0 | Some at \<Rightarrow> at), mj_lease = None\<rparr>"
  let ?m = "m\<lparr>m_next := m_next m + 1, m_jobs := om_insert ?i ?j (m_jobs m), m_accepted := r # m_accepted m\<rparr>"
  have jobs: "mem_jobs ?m = insert r (mem_jobs m)" by (simp add: mem_jobs_def)
  have issued: "mem_issued m \<subseteq> mem_issued ?m" by (auto simp: mem_issued_def)
  have "mem_valid ?m"
    unfolding mem_valid_def jobs
  proof (intro conjI allI impI ballI)
    show "j \<in> mem_issued ?m" if "s \<in> insert r (mem_jobs m)" "e_id s = Some j" for s j
      using that 2(2,3) issued by (auto simp: mem_valid_def)
    show "\<exists>s \<in> insert r (mem_jobs m). e_payload s = mj_payload j
        \<and> (case e_id s of Some i' \<Rightarrow> i = i' | None \<Rightarrow> i \<notin> range job_name)"
      if "om_get (m_jobs ?m) i = Some j" for i j
    proof (cases "i = ?i")
      case True
      then show ?thesis using that by (intro bexI [of _ r]) (auto split: option.split)
    next
      case False
      then show ?thesis using that 2(2) by (auto simp: mem_valid_def)
    qed
  qed
  moreover have "\<forall>s \<in> set rs. \<forall>j. e_id s = Some j \<longrightarrow> j \<in> mem_issued ?m" using 2(3) issued by auto
  ultimately have later: "mem_valid (mem_enqueue rs ?m) \<and> mem_issued ?m \<subseteq> mem_issued (mem_enqueue rs ?m)
      \<and> mem_ended (mem_enqueue rs ?m) \<subseteq> mem_ended ?m"
    by (rule 2(1) [OF refl refl])
  moreover have "mem_ended ?m \<subseteq> mem_ended m" by (auto simp: mem_ended_def mem_jobs_def split: if_splits)
  ultimately show ?case using issued by (simp add: Let_def) blast
qed simp

lemma mem_end_books:
  assumes "mem_valid m"
  shows "mem_valid (mem_end c m)" "mem_issued (mem_end c m) = mem_issued m"
    "mem_ended (mem_end c m) \<subseteq> insert (c_id c) (mem_ended m)"
  using assms by (auto simp: mem_valid_def mem_issued_def mem_ended_def mem_end_def mem_jobs_def split: if_splits)

lemma mem_apply_books:
  assumes "mem_valid m" "\<forall>r \<in> set (ef_enqueues ef). \<forall>j. e_id r = Some j \<longrightarrow> j \<in> mem_issued m"
  shows "mem_valid (mem_apply ef m) \<and> mem_issued m \<subseteq> mem_issued (mem_apply ef m)
    \<and> mem_ended (mem_apply ef m) \<subseteq> mem_ended m"
proof -
  have same: "mem_valid (m\<lparr>m_kv := s\<rparr>) = mem_valid m" "mem_issued (m\<lparr>m_kv := s\<rparr>) = mem_issued m"
    "mem_ended (m\<lparr>m_kv := s\<rparr>) = mem_ended m" for s
    by (simp_all add: mem_valid_def mem_issued_def mem_ended_def mem_jobs_def)
  show ?thesis
    unfolding mem_apply_def using mem_enqueue_books [of "m\<lparr>m_kv := s\<rparr>" for s] assms by (simp add: same)
qed

lemma mem_booked_claims: "booked_claims mem_env mem_ledger"
proof -
  have taken: "kept_books mem_ledger m m' \<and> (\<forall>cl. r = Inr (Some cl) \<longrightarrow> known_claim mem_ledger m' cl)"
    if "mem_valid m" "mem_claim_next m n l = (r, m')" for m n l r m'
    using that mem_take_kept [OF that(1)] mem_take_issued kept_known
    by (fastforce simp: mem_claim_next_def split: list.splits prod.splits)
  have by_id: "kept_books mem_ledger m m' \<and> (\<forall>cl. r = Inr (Claimed cl) \<longrightarrow> c_id cl = j \<and> known_claim mem_ledger m cl)"
    if "mem_valid m" "mem_claim_by_id m j l = (r, m')" for m j l r m'
    using that mem_take_kept [OF that(1)]
    by (auto simp: mem_claim_by_id_def split: option.splits prod.splits if_splits)
  have lease: "kept_books mem_ledger m m'"
    if "mem_valid m" "mem_settle (mem_set_lease i t) c m = (r, m')" for m i t c r m'
    using that mem_lease_kept by (auto simp: mem_settle_def split: if_splits)
  have issue: "kept_books mem_ledger m m' \<and> j \<notin> mem_issued m \<and> j \<in> mem_issued m' \<and> j \<notin> mem_ended m"
    if "mem_valid m" "mem_next_id m = (j, m')" for m j m'
  proof -
    have "j = job_name (m_next m)" "m' = m\<lparr>m_next := m_next m + 1\<rparr>" using that(2) by (auto simp: mem_next_id_def)
    moreover have "job_name (m_next m) \<notin> mem_issued m" by (auto simp: mem_issued_def)
    moreover have "mem_ended m \<subseteq> mem_issued m" using that(1) by (auto simp: mem_ended_def mem_valid_def)
    ultimately show ?thesis using mem_next_kept [OF that(1)] by (auto simp: mem_issued_def)
  qed
  have known: "j \<notin> mem_ended m" if "mem_record m j = Inr (Some b)" for m j b
    using that by (auto simp: mem_record_def mem_ended_def)
  show ?thesis
    unfolding booked_claims_def mem_env_simps mem_ledger_simps mem_renew_def mem_nack_def
    by (intro allI impI conjI) (use taken by_id lease issue known in metis)+
qed

lemma mem_booked_settlements: "booked_settlements mem_env mem_store mem_ledger"
proof -
  have "mem_valid m' \<and> mem_jobs m' = mem_jobs m \<and> mem_issued m \<subseteq> mem_issued m'
      \<and> mem_ended m' \<subseteq> insert (c_id c) (mem_ended m)" if "mem_valid m" "mem_ack m c = (r, m')" for m c r m'
    using that mem_end_books [OF that(1), of c] by (auto simp: mem_ack_def mem_settle_def split: if_splits)
  moreover have "booked_effects mem_store mem_ledger {} ef m r m'"
    if "mem_valid m" "\<forall>e \<in> set (ef_enqueues ef). \<forall>j. e_id e = Some j \<longrightarrow> j \<in> mem_issued m"
      "mem_commit m ef = (r, m')" for m ef r m'
    using that(3) mem_apply_books [OF that(1,2)]
    by (auto simp: mem_commit_def booked_effects_def mem_store_apply)
  moreover have "booked_effects mem_store mem_ledger {c_id c} ef m r m'"
    if "mem_valid m" "\<forall>e \<in> set (ef_enqueues ef). \<forall>j. e_id e = Some j \<longrightarrow> j \<in> mem_issued m"
      "mem_ack_with m c ef = (r, m')" for m c ef r m'
    using that(1,3) mem_apply_books [OF that(1,2)] mem_end_books [of "mem_apply ef m" c]
    by (auto simp: mem_ack_with_def mem_end_with_def mem_settle_def booked_effects_def mem_store_apply
        split: if_splits)
  ultimately show ?thesis
    unfolding booked_settlements_def mem_env_simps mem_ledger_simps by blast
qed

lemma mem_keeps_books: "keeps_books mem_env mem_store mem_ledger"
  by (simp add: keeps_books_def mem_contract mem_booked_claims mem_booked_settlements)

end
