(* ===== verification/Reliability.thy ===== *)
theory Reliability
  imports Network
begin

text \<open>
  When a request fails.  A queue reports no error in a state when its reads, commits and claims by
  id succeed there and its settlements fail only with a lost claim; it is healthy when it reports
  none now and after any further calls.  Over a healthy queue no operation fails: a lost claim is
  a conflict of the protocol, never an error.
\<close>

definition no_error :: "('q, 'x) env_scheme \<Rightarrow> 'q \<Rightarrow> bool" where
  "no_error E q \<longleftrightarrow>
     (\<forall>k e. q_kv_get E q k \<noteq> Inl e) \<and> (\<forall>p e. Inl e \<notin> set (q_kv_entries E q p))
     \<and> (\<forall>i e. q_job_record E q i \<noteq> Inl e) \<and> (\<forall>i l e q'. q_claim_by_id E q i l \<noteq> (Inl e, q'))
     \<and> (\<forall>ef e q'. q_commit_effects E q ef \<noteq> (Inl e, q'))
     \<and> (\<forall>c ef e q'. q_ack_with E q c ef = (Inl e, q') \<longrightarrow> e = ClaimLost)
     \<and> (\<forall>c e q'. q_ack E q c = (Inl e, q') \<longrightarrow> e = ClaimLost)
     \<and> (\<forall>c m e q'. q_nack E q c m = (Inl e, q') \<longrightarrow> e = ClaimLost)"

text \<open>The calls of a transaction that change the queue.\<close>

inductive queue_call :: "('q, 'x) env_scheme \<Rightarrow> 'q \<Rightarrow> 'q \<Rightarrow> bool" for E where
  call_next_id: "q_next_job_id E q = (j, q') \<Longrightarrow> queue_call E q q'"
| call_renew: "q_renew_lease E q c l = (r, q') \<Longrightarrow> queue_call E q q'"
| call_claim: "q_claim_by_id E q i l = (r, q') \<Longrightarrow> queue_call E q q'"
| call_commit: "q_commit_effects E q ef = (r, q') \<Longrightarrow> queue_call E q q'"
| call_ack_with: "q_ack_with E q c ef = (r, q') \<Longrightarrow> queue_call E q q'"
| call_ack: "q_ack E q c = (r, q') \<Longrightarrow> queue_call E q q'"
| call_nack: "q_nack E q c m = (r, q') \<Longrightarrow> queue_call E q q'"

definition healthy :: "('q, 'x) env_scheme \<Rightarrow> 'q \<Rightarrow> bool" where
  "healthy E q \<longleftrightarrow> (\<forall>q'. (queue_call E)\<^sup>*\<^sup>* q q' \<longrightarrow> no_error E q')"

text \<open>A queue that is healthy whatever its state.\<close>

definition reliable :: "('q, 'x) env_scheme \<Rightarrow> bool" where
  "reliable E \<longleftrightarrow> (\<forall>q. no_error E q)"

lemma reliable_healthy: "reliable E \<Longrightarrow> healthy E q"
  by (simp add: reliable_def healthy_def)

lemma healthy_no_error: "healthy E q \<Longrightarrow> no_error E q"
  by (simp add: healthy_def)

lemma healthy_step: "healthy E q \<Longrightarrow> queue_call E q q' \<Longrightarrow> healthy E q'"
  unfolding healthy_def by (meson converse_rtranclp_into_rtranclp)

lemmas healthy_calls = healthy_step [OF _ call_next_id] healthy_step [OF _ call_renew] healthy_step [OF _ call_claim]
  healthy_step [OF _ call_commit] healthy_step [OF _ call_ack_with] healthy_step [OF _ call_ack] healthy_step [OF _ call_nack]

lemma healthyD:
  assumes "healthy E q"
  shows "q_kv_get E q k \<noteq> Inl e" "Inl e \<notin> set (q_kv_entries E q p)" "q_job_record E q i \<noteq> Inl e"
    "q_claim_by_id E q i l \<noteq> (Inl e, q')" "q_commit_effects E q ef \<noteq> (Inl e, q')"
    "q_ack_with E q c ef = (Inl e, q') \<Longrightarrow> e = ClaimLost"
    "q_ack E q c = (Inl e, q') \<Longrightarrow> e = ClaimLost" "q_nack E q c msg = (Inl e, q') \<Longrightarrow> e = ClaimLost"
  using healthy_no_error [OF assms] unfolding no_error_def by - (elim conjE, metis)+

section \<open>Operations that report a storage error only when the queue does\<close>

definition honest :: "('q, 'x) env_scheme \<Rightarrow> ('q txn, 'a) tx \<Rightarrow> bool" where
  "honest E m \<longleftrightarrow> (\<forall>t r t'. healthy E (queue t) \<longrightarrow> m t = (r, t') \<longrightarrow>
     (\<forall>e. r \<noteq> Inl (Storage e)) \<and> healthy E (queue t'))"

lemma honestI:
  "(\<And>t r t'. healthy E (queue t) \<Longrightarrow> m t = (r, t') \<Longrightarrow> (\<forall>e. r \<noteq> Inl (Storage e)) \<and> healthy E (queue t')) \<Longrightarrow>
   honest E m"
  by (simp add: honest_def)

lemma honestD:
  assumes "honest E m" "healthy E (queue t)" "m t = (r, t')"
  shows "r \<noteq> Inl (Storage e)" "healthy E (queue t')"
  using assms by (auto simp: honest_def)

lemma honest_ret: "honest E (ret x)" "honest E (asks h)" "honest E (fail (Panic msg))"
  by (simp_all add: honest_def run_ret run_fail)

lemma honest_modify: "(\<And>t. queue (g t) = queue t) \<Longrightarrow> honest E (modify g)"
  by (simp add: honest_def)

lemma honest_reads: "(\<And>t e. healthy E (queue t) \<Longrightarrow> f t \<noteq> Inl (Storage e)) \<Longrightarrow> honest E (reads f)"
  by (simp add: honest_def)

lemma honest_bnd:
  assumes "honest E m" "\<And>x. honest E (f x)"
  shows "honest E (bnd m f)"
proof (rule honestI)
  fix t r t' assume t: "healthy E (queue t)" "bnd m f t = (r, t')"
  obtain x u where run: "m t = (x, u)" by (cases "m t")
  note u = honestD [OF assms(1) t(1) run]
  show "(\<forall>e. r \<noteq> Inl (Storage e)) \<and> healthy E (queue t')"
    using t(2) u honestD [OF assms(2) u(2)] by (cases x) (auto simp: run_bnd run)
qed

lemma honest_andthen: "honest E m \<Longrightarrow> honest E n \<Longrightarrow> honest E (andthen m n)"
  unfolding andthen_def by (rule honest_bnd)

lemma honest_for_each: "(\<And>x. honest E (f x)) \<Longrightarrow> honest E (for_each f xs)"
  by (induction xs) (auto intro: honest_ret honest_andthen)

lemma honest_expect: "honest E (expect msg x)"
  by (simp add: expect_def honest_ret split: option.split)

lemma honest_if: "(b \<Longrightarrow> honest E m) \<Longrightarrow> (\<not> b \<Longrightarrow> honest E n) \<Longrightarrow> honest E (if b then m else n)"
  by simp

lemma honest_option: "honest E m \<Longrightarrow> (\<And>y. honest E (f y)) \<Longrightarrow> honest E (case x of None \<Rightarrow> m | Some y \<Rightarrow> f y)"
  by (simp split: option.split)

lemma honest_sum: "(\<And>y. honest E (f y)) \<Longrightarrow> (\<And>z. honest E (g z)) \<Longrightarrow>
    honest E (case x of Inl y \<Rightarrow> f y | Inr z \<Rightarrow> g z)"
  by (simp split: sum.split)

lemma honest_prod: "(\<And>y z. honest E (f y z)) \<Longrightarrow> honest E (case x of (y, z) \<Rightarrow> f y z)"
  by (simp split: prod.split)

lemma honest_states:
  "honest E a \<Longrightarrow> honest E b \<Longrightarrow> honest E c \<Longrightarrow> honest E d \<Longrightarrow> honest E e \<Longrightarrow>
   honest E (case st of TPending \<Rightarrow> a | TAcquired \<Rightarrow> b | TSuspended \<Rightarrow> c | THalted \<Rightarrow> d | TFulfilled \<Rightarrow> e)"
  by (simp split: task_state.split)

lemma honest_delivery:
  "(\<And>i. honest E (f i)) \<Longrightarrow> (\<And>m. honest E (g m)) \<Longrightarrow>
   honest E (case d of Execute i \<Rightarrow> f i | Unblock m \<Rightarrow> g m)"
  by (simp split: delivery.split)

lemma honest_timer:
  "(\<And>i. honest E (f i)) \<Longrightarrow> (\<And>i at. honest E (g i at)) \<Longrightarrow>
   honest E (case d of PromiseTimeout i \<Rightarrow> f i | ScheduleAt i at \<Rightarrow> g i at)"
  by (simp split: timer.split)

lemma honest_mode:
  "honest E m \<Longrightarrow> (\<And>p l. honest E (f p l)) \<Longrightarrow> honest E (case mode of Dispatch \<Rightarrow> m | Acquire p l \<Rightarrow> f p l)"
  by (simp split: create_mode.split)

lemmas honest_rules = honest_ret honest_bnd honest_andthen honest_for_each honest_expect honest_if
  honest_option honest_sum honest_prod honest_states honest_delivery honest_timer honest_mode

section \<open>The transaction\<close>

lemma from_slice_honest: "from_slice E ty dec b \<noteq> Inl (Storage e)"
  by (auto simp: from_slice_def split: sum.splits option.splits)

lemma get_json_honest: "healthy E (queue t) \<Longrightarrow> get_json E ty dec k t \<noteq> Inl (Storage e)"
  using healthyD(1) [of E "queue t" k] from_slice_honest [of E ty dec]
  by (auto simp: get_json_def get_raw_def storage_def split: option.splits sum.splits)

lemma list_stream_honest: "\<forall>e. Inl e \<notin> set xs \<Longrightarrow> list_stream E ty dec xs \<noteq> Inl (Storage e)"
  by (induction E ty dec xs rule: list_stream.induct)
    (auto simp: from_slice_honest split: sum.splits)

lemma scan_branch_honest: "\<forall>e. Inl e \<notin> set xs \<Longrightarrow> scan_branch p own limit xs ids \<noteq> Inl e"
  by (induction p own limit xs ids rule: scan_branch.induct) (auto simp: Let_def split: option.splits)

lemma honest_reads_of:
  "honest E (get_promise E i)" "honest E (get_task E i)" "honest E (get_schedule E i)"
    "honest E (promises E)" "honest E (tasks E)" "honest E (schedules E)" "honest E (job_exists E i)"
    "honest E (load_records E ids)" "honest E (preload E p)"
proof -
  show gets: "honest E (get_promise E i)" "honest E (get_task E i)" "honest E (get_schedule E i)" for i
    unfolding get_promise_def get_task_def get_schedule_def
    by (intro honest_reads get_json_honest; assumption)+
  have lists: "honest E (list_kind E ty dec p)" for ty dec p
    unfolding list_kind_def by (intro honest_reads list_stream_honest) (simp add: healthyD(2))
  then show "honest E (promises E)" "honest E (tasks E)" "honest E (schedules E)"
    unfolding promises_def tasks_def schedules_def by (intro honest_rules | assumption)+
  show "honest E (job_exists E i)"
    unfolding job_exists_def
    by (intro honest_rules honest_reads) (auto simp: storage_def healthyD(3) split: sum.splits)
  show records: "honest E (load_records E ids)" for ids
    by (induction ids) (auto intro!: honest_rules gets)
  have "honest E (reads (preload_ids E b own))" for b own
  proof (rule honest_reads)
    fix t :: "'a txn" and e
    assume "healthy E (queue t)"
    then have "\<forall>e. Inl e \<notin> set (q_kv_entries E (queue t) p)" for p by (simp add: healthyD(2))
    then show "preload_ids E b own t \<noteq> Inl (Storage e)"
      using scan_branch_honest by (fastforce simp: preload_ids_def Let_def split: sum.splits)
  qed
  then show "honest E (preload E p)"
    unfolding preload_def by (intro honest_rules records)
qed

lemma honest_writes:
  "honest E (put_promise p)" "honest E (put_task k)" "honest E (put_schedule s)" "honest E (delete_schedule i)"
  "honest E (index_branch r)" "honest E (enqueue q)" "honest E (send_unblock E a m)"
  "honest E (schedule_timer tm at)" "honest E (add_after x)" "honest E (release i)"
  "honest E (nack_after_commit i)" "honest E (ack_after_commit c)" "honest E (hold_after_commit i c)"
  "honest E (claim_after_commit k l)"
  unfolding put_promise_def put_task_def put_schedule_def delete_schedule_def index_branch_def
    send_unblock_def enqueue_def schedule_timer_def add_after_def release_def nack_after_commit_def
    ack_after_commit_def hold_after_commit_def claim_after_commit_def
  by (intro honest_rules honest_modify; simp add: put_json_def)+

lemma honest_dispatch: "honest E (dispatch E k at)"
proof -
  have "honest E (\<lambda>t. case q_next_job_id E (queue t) of (job, q') \<Rightarrow> (Inr job :: error + string, t\<lparr>queue := q'\<rparr>))"
    by (auto simp: honest_def healthy_calls(1) split: prod.splits)
  then show ?thesis
    unfolding dispatch_def Let_def by (intro honest_rules honest_writes)
qed

lemma honest_holds: "honest E (holds E i)"
  by (auto simp: honest_def holds_def drop_claim_def split: option.splits if_splits)

lemma honest_renew: "honest E (renew E i l)"
proof -
  have "honest E (\<lambda>t. case held t i of
      None \<Rightarrow> (Inl (Panic ''no entry found for key''), t)
    | Some c \<Rightarrow> (case q_renew_lease E (queue t) c l of
        (Inr _, q') \<Rightarrow> (Inr True, t\<lparr>queue := q'\<rparr>)
      | (Inl _, q') \<Rightarrow> (Inr False, drop_claim i (t\<lparr>queue := q'\<rparr>))))"
    by (auto simp: honest_def drop_claim_def healthy_calls(2) split: option.splits prod.splits sum.splits)
  then show ?thesis
    unfolding renew_def by (intro honest_rules honest_holds)
qed

text \<open>A call of the queue that reports an error only when the queue does.\<close>

lemma honest_call:
  assumes "\<And>q r q'. healthy E q \<Longrightarrow> f q = (r, q') \<Longrightarrow> (\<forall>e. r \<noteq> Inl e) \<and> healthy E q'"
  shows "honest E (call f)"
  using assms by (fastforce simp: honest_def call_def storage_def split: prod.splits sum.splits)

lemma honest_claim_by_id: "honest E (call (\<lambda>q. q_claim_by_id E q j l))"
  by (rule honest_call) (metis healthyD(4) healthy_calls(3))

lemma honest_outcome:
  "(\<And>c. honest E (f c)) \<Longrightarrow> honest E m \<Longrightarrow> honest E n \<Longrightarrow>
   honest E (case x of Claimed c \<Rightarrow> f c | NotClaimable \<Rightarrow> m | NotFound \<Rightarrow> n)"
  by (simp split: claim_outcome.split)

lemma honest_hold_claim: "honest E (modify (hold_claim i c))"
  by (rule honest_modify) (simp add: hold_claim_def)

lemma honest_claim_job: "honest E (claim_job E i j l)"
  unfolding claim_job_def by (intro honest_rules honest_claim_by_id honest_outcome honest_hold_claim)

lemma honest_finish: "honest E (finish E)"
proof -
  have settle: "honest E (settle_claim f)"
    if "\<And>q r q'. healthy E q \<Longrightarrow> f q = (r, q') \<Longrightarrow> (\<forall>e. r = Inl e \<longrightarrow> e = ClaimLost) \<and> healthy E q'"
    for f :: "'a \<Rightarrow> (queue_error + unit) \<times> 'a"
    using that by (fastforce simp: honest_def settle_claim_def split: prod.splits sum.splits if_splits)
  have ack: "honest E (settle_claim (\<lambda>q. q_ack E q c))" "honest E (settle_claim (\<lambda>q. q_nack E q c msg))" for c msg
    by (rule settle; metis healthyD(7,8) healthy_calls(6,7))+
  have take: "honest E (take_held i)" for i by (simp add: honest_def take_held_def drop_claim_def)
  have one: "honest E (finish_one E a)" for a
    by (cases a)
      (simp_all, (intro honest_rules honest_claim_by_id honest_outcome honest_hold_claim ack take)+)
  show ?thesis
  proof (rule honestI)
    fix t r t' assume t: "healthy E (queue t)" "finish E t = (r, t')"
    have "healthy E (queue (t\<lparr>after := []\<rparr>))" using t(1) by simp
    from honestD [OF honest_for_each [OF one] this t(2) [unfolded finish_def]]
    show "(\<forall>e. r \<noteq> Inl (Storage e)) \<and> healthy E (queue t')" by blast
  qed
qed

lemma honest_commit: "honest E (commit E)"
proof -
  have "honest E (call (\<lambda>q. q_commit_effects E q ef))" for ef
    by (rule honest_call) (metis healthyD(5) healthy_calls(4))
  moreover have "honest E (take_effects :: ('a txn, effects) tx)"
    by (simp add: honest_def take_effects_def)
  ultimately show ?thesis
    unfolding commit_def by (intro honest_rules honest_finish)
qed

lemma commit_ack_healthy:
  assumes t: "healthy E (queue t)" "commit_ack E i t = (r, t')"
  shows "(\<forall>e. r = Inl (Storage e) \<longrightarrow> e = ClaimLost) \<and> healthy E (queue t')"
proof (cases "\<exists>c. held t i = Some c \<and> live E t c")
  case False
  then show ?thesis
    using t by (auto simp: run_commit_ack drop_claim_def split: option.splits)
next
  case True
  then obtain c where c: "held t i = Some c" "live E t c" by blast
  obtain x q' where q': "q_ack_with E (queue t) c (effects_of t) = (x, q')"
    by (cases "q_ack_with E (queue t) c (effects_of t)")
  note healthy = healthy_calls(5) [OF t(1) q']
  show ?thesis
  proof (cases x)
    case (Inl e)
    moreover have "e = ClaimLost" using healthyD(6) [OF t(1)] q' Inl by blast
    ultimately show ?thesis
      using t(2) c q' healthy by (auto simp: run_commit_ack drop_claim_def)
  next
    case (Inr u)
    let ?t = "drop_claim i (t\<lparr>writes := om_empty, enqueues := [], queue := q'\<rparr>)"
    have "finish E ?t = (r, t')" using t(2) c q' Inr by (simp add: run_commit_ack)
    moreover have "healthy E (queue ?t)" using healthy by (simp add: drop_claim_def)
    ultimately show ?thesis using honestD [OF honest_finish] by blast
  qed
qed

lemma honest_settlement: "honest E (commit_settlement E i reply)"
proof (rule honestI)
  fix t r t' assume t: "healthy E (queue t)" "commit_settlement E i reply t = (r, t')"
  obtain x u where run: "commit_ack E i t = (x, u)" by (cases "commit_ack E i t")
  show "(\<forall>e. r \<noteq> Inl (Storage e)) \<and> healthy E (queue t')"
    using t(2) run commit_ack_healthy [OF t(1) run]
    by (auto simp: commit_settlement_def split: sum.splits if_splits)
qed

section \<open>The kernel\<close>

lemma honest_resume: "honest E (resume_awaiter E i j w)"
  unfolding resume_awaiter_def by (intro honest_rules honest_reads_of honest_writes honest_dispatch)

lemma honest_settle_chain: "honest E (settle_chain E p)"
  unfolding settle_chain_def fulfil_own_task_def wake_awaiter_def Let_def
  by (intro honest_rules honest_reads_of honest_writes honest_resume)

lemma honest_try_timeout: "honest E (try_timeout E ids)"
  unfolding try_timeout_def timeout_one_def expire_promise_def
  by (intro honest_rules honest_reads_of honest_settle_chain)

lemma honest_settle: "honest E (settle_pending E p st v)"
  unfolding settle_pending_def settle_def by (intro honest_rules honest_settle_chain)

lemma honest_acquire: "honest E (acquire E k pid ttl)"
  unfolding acquire_def by (intro honest_rules honest_renew honest_writes)

lemma honest_create: "honest E (create_promise E data at mode)"
  unfolding create_promise_def create_task_def Let_def
  by (intro honest_rules honest_writes honest_dispatch)

lemma honest_register: "honest E (register_callback p i)"
  unfolding register_callback_def Let_def by (intro honest_rules honest_writes)

lemma honest_view: "honest E (task_view E k)"
  unfolding task_view_def by (intro honest_rules honest_reads_of)

lemma honest_load_awaited: "honest E (load_awaited E ids)"
  by (induction ids) (auto intro!: honest_rules honest_reads_of)

lemma honest_finished: "honest E (finished E r)"
  unfolding finished_def by (intro honest_rules honest_commit)

lemma honest_reject: "honest E m \<Longrightarrow> honest E (reject r m)"
  unfolding reject_def by (intro honest_rules)

lemma honest_paged: "honest E (paged name enc id_of items cursor n)"
proof -
  have "page items id_of cursor n \<noteq> Inl (Storage e)" for e
    by (auto simp: page_def Let_def split: list.splits)
  then show ?thesis unfolding paged_def by (intro honest_rules honest_reads)
qed

lemma honest_limited: "(\<And>n. honest E (m n)) \<Longrightarrow> honest E (limited l d m)"
  unfolding limited_def by (intro honest_rules)

lemmas honest_kernel = honest_rules honest_reads_of honest_writes honest_dispatch honest_holds
  honest_renew honest_claim_job honest_commit honest_settlement honest_resume honest_settle_chain
  honest_try_timeout honest_settle honest_acquire honest_create honest_register honest_view
  honest_load_awaited honest_finished honest_reject honest_paged honest_limited

lemma honest_promise_requests:
  "honest E (promise_create E d1)" "honest E (promise_get E i)" "honest E (promise_settle E d2)"
    "honest E (promise_register_callback E d3)" "honest E (promise_register_listener E d4)"
    "honest E (promise_search E d5)"
  unfolding promise_create_def promise_get_def promise_settle_def promise_register_callback_def
    promise_register_listener_def promise_search_def
  by (intro honest_kernel)+

lemma honest_task_requests:
  "honest E (task_get E i)" "honest E (task_halt E i)" "honest E (task_continue E i)"
    "honest E (task_acquire E d1)" "honest E (task_release E d2)" "honest E (task_heartbeat E d3)"
    "honest E (task_search E d4)" "honest E (task_fulfill E d5)" "honest E (task_suspend E d6)"
    "honest E (task_create E d7)" "honest E (task_fence E corr_id d8)"
  unfolding task_get_def task_halt_def task_continue_def task_acquire_def task_release_def
    task_heartbeat_def heartbeat_one_def task_search_def task_fulfill_def task_suspend_def
    suspend_on_def task_create_def create_existing_def claimable_def task_fence_def fence_action_def
    fence_create_def fence_settle_def Let_def
  by (intro honest_kernel)+

lemma honest_schedule_requests:
  "honest E (schedule_create E d1)" "honest E (schedule_get E i)" "honest E (schedule_delete E i)"
    "honest E (schedule_search E d2)"
  unfolding schedule_create_def schedule_get_def schedule_delete_def schedule_search_def Let_def
  by (intro honest_kernel)+

lemmas honest_requests = honest_promise_requests honest_task_requests honest_schedule_requests

lemma honest_parsed: "(\<And>d. honest E (h d)) \<Longrightarrow> honest E (parsed E ty dec data h)"
  unfolding parsed_def by (intro honest_rules)

lemma honest_handle: "honest E (handle E kind corr_id data)"
  unfolding handle_def by (intro honest_if honest_parsed honest_ret honest_requests)

lemma honest_fire: "honest E (fire E tm)"
  unfolding fire_def expire_promise_def fire_schedule_def Let_def by (intro honest_kernel)

lemma honest_deliver: "honest E (deliver E c)"
  unfolding deliver_def Let_def by (intro honest_kernel honest_reads from_slice_honest)

section \<open>Responses\<close>

text \<open>
  \<open>responds E kv opts w m P\<close>: the request \<open>m\<close>, run under the lock, leaves a store that is good,
  and answers in the relation \<open>P\<close> to the records it leaves behind; it fails only with an error
  of the queue, and not over a healthy one, and then it has changed nothing or done all of what
  some answer in \<open>P\<close> stands for.
\<close>

definition responds ::
  "('q, 'x) env_scheme \<Rightarrow> ('q \<Rightarrow> store) \<Rightarrow> store_options \<Rightarrow> 'q world \<Rightarrow> ('q txn, 'a) tx \<Rightarrow>
   ('a \<Rightarrow> store \<Rightarrow> bool) \<Rightarrow> bool" where
  "responds E kv opts w m P \<longleftrightarrow> (case locked E opts m w of (r, w') \<Rightarrow>
     serving E kv w' \<and> protocol_steps (abs_world E kv w) (abs_world E kv w')
     \<and> (case r of
          Inl e \<Rightarrow> \<not> healthy E (w_queue w) \<and> (\<exists>x. e = Storage x)
            \<and> (kv (w_queue w') = kv (w_queue w) \<or> (\<exists>reply. P reply (kv (w_queue w'))))
        | Inr reply \<Rightarrow> P reply (kv (w_queue w'))))"

lemma respondsI:
  assumes "serving E kv w" "honest E m"
    and "wp m (answers E kv (shared_txn E opts w) Q) (shared_txn E opts w)"
    and "\<And>x W. good E W \<Longrightarrow> Q x W \<Longrightarrow> P x W"
  shows "responds E kv opts w m P"
proof -
  obtain r w' where run: "locked E opts m w = (r, w')" by (cases "locked E opts m w")
  note a = locked_answers [OF assms(1,3) run]
  have "\<not> healthy E (w_queue w) \<and> (\<exists>x. e = Storage x)" if err: "r = Inl e" for e
  proof -
    obtain x where x: "e = Storage x" using a(3) [OF err] by blast
    obtain t where "m (shared_txn E opts w) = (Inl (Storage x), t)"
      using run err x by (auto simp: locked_def split: prod.splits)
    with x show ?thesis
      using honestD(1) [OF assms(2), of "shared_txn E opts w"] by (auto simp: shared_txn_def new_txn_def)
  qed
  moreover have "good E (kv (w_queue w'))"
    using a(1) by (simp add: serving_def)
  moreover have "kv (w_queue w') = kv (w_queue w) \<or> (\<exists>x. P x (kv (w_queue w')))" if "r = Inl e" for e
    using a(5) [OF that] assms(4) [OF calculation(2)] by blast
  ultimately show ?thesis
    using run a(1,2,4) assms(4) by (auto simp: responds_def split: sum.split)
qed

text \<open>From the specification of a request that first applies the deadlines of \<open>ids\<close>.\<close>

lemma responds_spec:
  assumes "serving E kv w" "honest E m"
    and "wp m (answers E kv (shared_txn E opts w)
      (after_deadlines E (now (shared_txn E opts w)) ids (kv (queue (shared_txn E opts w))) R)) (shared_txn E opts w)"
    and "\<And>D reply W. good E D \<Longrightarrow> good E W \<Longrightarrow> deadlines E (shared_now E w) ids (kv (w_queue w)) D \<Longrightarrow>
      R D reply W \<Longrightarrow> P reply W"
  shows "responds E kv opts w m P"
  by (rule respondsI [OF assms(1-3)]) (auto simp: after_deadlines_def intro: assms(4))

lemma responds_or_lost:
  assumes "serving E kv w" "honest E m"
    and "wp m (answers E kv (shared_txn E opts w) (or_lost (kv (queue (shared_txn E opts w)))
      (after_deadlines E (now (shared_txn E opts w)) ids (kv (queue (shared_txn E opts w))) R))) (shared_txn E opts w)"
    and "\<And>D reply W. good E D \<Longrightarrow> good E W \<Longrightarrow> deadlines E (shared_now E w) ids (kv (w_queue w)) D \<Longrightarrow>
      R D reply W \<Longrightarrow> P reply W"
    and "P invalid_state (kv (w_queue w))"
  shows "responds E kv opts w m P"
  by (rule respondsI [OF assms(1-3)]) (auto simp: after_deadlines_def or_lost_def assms(5) intro: assms(4))

text \<open>Deadlines that have not passed change nothing.\<close>

lemma deadlines_same:
  assumes "deadlines E time ids V D"
    and "\<forall>i \<in> ids. \<forall>p. promise_in E V i = Some p \<longrightarrow> \<not> expired time (sp_record p)"
  shows "promise_in E D = promise_in E V" "task_in E D = task_in E V" "schedule_in E D = schedule_in E V"
proof -
  have "promise_in E D j = promise_in E V j" for j
    using assms by (cases "promise_in E V j") (auto simp: deadlines_def at_deadline_def)
  then show "promise_in E D = promise_in E V" by (rule ext)
  show "task_in E D = task_in E V" "schedule_in E D = schedule_in E V"
    using assms by (auto simp: deadlines_def)
qed

text \<open>A request none of whose promises has expired: the store it is evaluated on has the records
  the request began with.\<close>

lemma responds_live:
  assumes "serving E kv w" "honest E m"
    and "wp m (answers E kv (shared_txn E opts w)
      (after_deadlines E (now (shared_txn E opts w)) ids (kv (queue (shared_txn E opts w))) R)) (shared_txn E opts w)"
    and "\<forall>i \<in> ids. \<forall>p. promise_in E (kv (w_queue w)) i = Some p \<longrightarrow> \<not> expired (shared_now E w) (sp_record p)"
    and "\<And>D reply W. good E D \<Longrightarrow> good E W \<Longrightarrow> promise_in E D = promise_in E (kv (w_queue w)) \<Longrightarrow>
      task_in E D = task_in E (kv (w_queue w)) \<Longrightarrow> schedule_in E D = schedule_in E (kv (w_queue w)) \<Longrightarrow>
      R D reply W \<Longrightarrow> P reply W"
  shows "responds E kv opts w m P"
proof (rule responds_spec [OF assms(1-3)])
  fix D reply W
  assume D: "good E D" "good E W" "deadlines E (shared_now E w) ids (kv (w_queue w)) D" "R D reply W"
  note same = deadlines_same [OF D(3) assms(4)]
  show "P reply W" by (rule assms(5) [OF D(1,2) same D(4)])
qed

lemma responds_live_or_lost:
  assumes "serving E kv w" "honest E m"
    and "wp m (answers E kv (shared_txn E opts w) (or_lost (kv (queue (shared_txn E opts w)))
      (after_deadlines E (now (shared_txn E opts w)) ids (kv (queue (shared_txn E opts w))) R))) (shared_txn E opts w)"
    and "\<forall>i \<in> ids. \<forall>p. promise_in E (kv (w_queue w)) i = Some p \<longrightarrow> \<not> expired (shared_now E w) (sp_record p)"
    and "\<And>D reply W. good E D \<Longrightarrow> good E W \<Longrightarrow> promise_in E D = promise_in E (kv (w_queue w)) \<Longrightarrow>
      task_in E D = task_in E (kv (w_queue w)) \<Longrightarrow> schedule_in E D = schedule_in E (kv (w_queue w)) \<Longrightarrow>
      R D reply W \<Longrightarrow> P reply W"
    and "P invalid_state (kv (w_queue w))"
  shows "responds E kv opts w m P"
proof (rule responds_or_lost [OF assms(1-3)])
  fix D reply W
  assume D: "good E D" "good E W" "deadlines E (shared_now E w) ids (kv (w_queue w)) D" "R D reply W"
  note same = deadlines_same [OF D(3) assms(4)]
  show "P reply W" by (rule assms(5) [OF D(1,2) same D(4)])
qed (rule assms(6))

lemma serving_contract: "serving E kv w \<Longrightarrow> queue_contract E kv"
  by (simp add: serving_def)

lemma responds_mono:
  "responds E kv opts w m Q \<Longrightarrow> (\<And>x W. Q x W \<Longrightarrow> P x W) \<Longrightarrow> responds E kv opts w m P"
  by (fastforce simp: responds_def split: prod.splits sum.splits)

lemma responds_outcome:
  assumes "responds E kv opts w m P"
  obtains (answered) x w' where "locked E opts m w = (Inr x, w')" "P x (kv (w_queue w'))"
    | (failed) e w' where "locked E opts m w = (Inl (Storage e), w')" "\<not> healthy E (w_queue w)"
        "kv (w_queue w') = kv (w_queue w) \<or> (\<exists>x. P x (kv (w_queue w')))"
  using assms by (auto simp: responds_def split: prod.splits sum.splits)

lemma responds_healthy:
  assumes "responds E kv opts w m P" "healthy E (w_queue w)"
  obtains x w' where "locked E opts m w = (Inr x, w')" "P x (kv (w_queue w'))" "serving E kv w'"
  using assms by (auto simp: responds_def split: prod.splits sum.splits)

lemma responds_reliable:
  assumes "responds E kv opts w m P" "reliable E"
  obtains x w' where "locked E opts m w = (Inr x, w')" "P x (kv (w_queue w'))" "serving E kv w'"
  using responds_healthy [OF assms(1) reliable_healthy [OF assms(2)]] .

end
