(* ===== verification/Examples.thy ===== *)
theory Examples
  imports Memory_Books Reliability
begin

text \<open>
  A store in memory on which the properties are evaluated: a promise \<open>root\<close> whose task is
  suspended on the promise \<open>root:1\<close>, a task \<open>work\<close> that is acquired, with the promises
  \<open>work:1\<close>, pending, and \<open>work:0\<close>, settled, a task \<open>idle\<close> that is
  delivered and waits for its acquisition, settled promises \<open>root:0\<close> and \<open>old\<close>, and a schedule.
\<close>

definition demo_target :: string where "demo_target = ''poll://any@g''"

definition targeted_tags :: tags where
  "targeted_tags = om_insert TAG_TARGET demo_target om_empty"

definition external_tags :: tags where
  "external_tags = om_insert TAG_SCOPE ''global'' om_empty"

definition pending_record :: "string \<Rightarrow> tags \<Rightarrow> promise_record" where
  "pending_record i tags =
     \<lparr>p_id = i, p_state = PPending, p_param = default_value, p_value = default_value,
      p_tags = tags, p_timeout_at = 1000, p_created_at = 0, p_settled_at = None\<rparr>"

definition root_promise :: stored_promise where
  "root_promise = bare (pending_record ''root'' targeted_tags)"

definition child_promise :: stored_promise where
  "child_promise = \<lparr>sp_record = pending_record ''root:1'' external_tags,
     sp_callbacks = [''root''], sp_listeners = [demo_target]\<rparr>"

definition settled_child :: stored_promise where
  "settled_child = bare (settled_record 0 SResolved default_value (pending_record ''root:0'' external_tags))"

definition work_promise :: stored_promise where
  "work_promise = bare (pending_record ''work'' targeted_tags)"

definition work_child :: stored_promise where
  "work_child = bare (pending_record ''work:1'' external_tags)"

definition work_settled :: stored_promise where
  "work_settled = bare (settled_record 0 SResolved default_value (pending_record ''work:0'' external_tags))"

definition idle_promise :: stored_promise where
  "idle_promise = bare (pending_record ''idle'' targeted_tags)"

definition old_promise :: stored_promise where
  "old_promise = bare (settled_record 0 SResolved default_value (pending_record ''old'' external_tags))"

definition demo_task :: "string \<Rightarrow> task_state \<Rightarrow> i64 \<Rightarrow> string \<Rightarrow> stored_task" where
  "demo_task i st v job =
     \<lparr>t_id = i, t_state = st, t_version = v, t_target = demo_target, t_job = Some job,
      t_pid = None, t_ttl = None, t_resumes = om_empty\<rparr>"

definition root_task :: stored_task where
  "root_task = demo_task ''root'' TSuspended 1 ''job0''"

definition work_task :: stored_task where
  "work_task = (demo_task ''work'' TAcquired 1 ''job1'')\<lparr>t_pid := Some ''p1'', t_ttl := Some 100\<rparr>"

definition idle_task :: stored_task where
  "idle_task = demo_task ''idle'' TPending 0 ''job2''"

definition demo_schedule :: schedule_record where
  "demo_schedule =
     \<lparr>s_id = ''tick'', s_cron = ''* * * * *'', s_promise_id = ''{{.id}}.{{.timestamp}}'',
      s_promise_timeout = 1000, s_promise_param = default_value, s_promise_tags = targeted_tags,
      s_created_at = 0, s_next_run_at = 60000, s_last_run_at = None\<rparr>"

definition demo_kv :: "(bytes, blob) omap" where
  "demo_kv =
     om_insert (promise_key ''root'') (Doc (enc_stored_promise root_promise)) (
     om_insert (promise_key ''root:1'') (Doc (enc_stored_promise child_promise)) (
     om_insert (promise_key ''work'') (Doc (enc_stored_promise work_promise)) (
     om_insert (promise_key ''idle'') (Doc (enc_stored_promise idle_promise)) (
     om_insert (promise_key ''work:1'') (Doc (enc_stored_promise work_child)) (
     om_insert (promise_key ''work:0'') (Doc (enc_stored_promise work_settled)) (
     om_insert (promise_key ''root:0'') (Doc (enc_stored_promise settled_child)) (
     om_insert (promise_key ''old'') (Doc (enc_stored_promise old_promise)) (
     om_insert (task_key ''root'') (Doc (enc_task root_task)) (
     om_insert (task_key ''work'') (Doc (enc_task work_task)) (
     om_insert (task_key ''idle'') (Doc (enc_task idle_task)) (
     om_insert (schedule_key ''tick'') (Doc (enc_schedule demo_schedule)) om_empty)))))))))))"

definition demo_job :: "string \<Rightarrow> mem_job" where
  "demo_job i = \<lparr>mj_queue = ''resonate.a.poll_3A_2F_2Fany_40g'',
     mj_payload = Doc (enc_delivery (Execute i)), mj_run_at = 0, mj_lease = Some 100\<rparr>"

text \<open>The queue has accepted a job for each task; that of the suspended one has been acknowledged.\<close>

definition demo_request :: "stored_task \<Rightarrow> string \<Rightarrow> enqueue_request" where
  "demo_request k j = execute_request mem_env k j None"

definition demo_queue :: mem where
  "demo_queue = \<lparr>m_kv = demo_kv, m_clock = 0, m_next = 3,
     m_jobs = om_insert ''job1'' (demo_job ''work'') (om_insert ''job2'' (demo_job ''idle'') om_empty),
     m_accepted = [demo_request root_task ''job0'', demo_request work_task ''job1'', demo_request idle_task ''job2'']\<rparr>"

definition demo :: "mem world" where
  "demo = \<lparr>w_queue = demo_queue,
     w_held = [''work'' \<mapsto> mem_claim ''job1'' (demo_job ''work''),
               ''idle'' \<mapsto> mem_claim ''job2'' (demo_job ''idle'')]\<rparr>"

lemmas demo_records = root_promise_def child_promise_def work_promise_def idle_promise_def
  work_child_def work_settled_def settled_child_def old_promise_def root_task_def work_task_def idle_task_def demo_task_def pending_record_def
  demo_schedule_def

lemma mem_store_insert: "om_get (om_insert k v m) = (om_get m)(k \<mapsto> v)"
  by (simp add: fun_eq_iff)

lemma demo_ids [simp]:
  "p_id (sp_record root_promise) = ''root''" "p_id (sp_record child_promise) = ''root:1''"
  "p_id (sp_record work_promise) = ''work''" "p_id (sp_record idle_promise) = ''idle''"
  "p_id (sp_record work_child) = ''work:1''" "p_id (sp_record work_settled) = ''work:0''"
  "p_id (sp_record settled_child) = ''root:0''" "p_id (sp_record old_promise) = ''old''"
  "t_id root_task = ''root''" "t_id work_task = ''work''" "t_id idle_task = ''idle''"
  "s_id demo_schedule = ''tick''"
  by (simp_all add: demo_records settled_record_def)

lemma put_at:
  "p_id (sp_record p) = i \<Longrightarrow> V(promise_key i \<mapsto> Doc (enc_stored_promise p)) = put_p p V"
  "t_id k = i \<Longrightarrow> V(task_key i \<mapsto> Doc (enc_task k)) = put_t k V"
  "s_id s = i \<Longrightarrow> V(schedule_key i \<mapsto> Doc (enc_schedule s)) = put_s s V"
  by (auto simp only: put_defs)

lemma mem_store_empty: "om_get om_empty = (\<lambda>_. None)"
  by (rule ext) simp

lemma demo_store:
  "mem_store (w_queue demo) =
     put_p root_promise (put_p child_promise (put_p work_promise (put_p idle_promise (put_p work_child (
     put_p work_settled (put_p settled_child (put_p old_promise (put_t root_task (put_t work_task (
     put_t idle_task (put_s demo_schedule (\<lambda>_. None))))))))))))"
  by (simp only: demo_def demo_queue_def mem_store_def demo_kv_def mem_store_insert world.simps mem.simps
      put_at demo_ids mem_store_empty)

lemma nothing_in_empty [simp]:
  "promise_in E (\<lambda>_. None) i = None" "task_in E (\<lambda>_. None) i = None" "schedule_in E (\<lambda>_. None) i = None"
  by (simp_all add: in_defs record_at_def)

text \<open>What the requests ask of the records.\<close>

lemma demo_record_simps [simp]:
  "is_pending (sp_record child_promise)" "p_timeout_at (sp_record child_promise) = 1000"
  "sp_callbacks child_promise = [''root'']" "is_external (sp_record child_promise)"
  "is_pending (sp_record root_promise)" "p_timeout_at (sp_record root_promise) = 1000"
  "is_pending (sp_record work_promise)" "p_timeout_at (sp_record work_promise) = 1000"
  "is_pending (sp_record idle_promise)" "p_timeout_at (sp_record idle_promise) = 1000"
  "is_pending (sp_record work_child)" "is_external (sp_record work_child)"
  "p_timeout_at (sp_record work_child) = 1000"
  "\<not> is_pending (sp_record work_settled)" "is_external (sp_record work_settled)"
  "\<not> is_pending (sp_record settled_child)" "is_external (sp_record settled_child)"
  "\<not> is_pending (sp_record old_promise)" "is_external (sp_record old_promise)"
  by (simp_all add: demo_records is_pending_def is_external_def settled_record_def
      targeted_tags_def external_tags_def TAG_TARGET_def TAG_SCOPE_def)

lemma demo_task_simps [simp]:
  "t_state root_task = TSuspended" "t_version root_task = 1" "t_resumes root_task = om_empty"
  "t_state work_task = TAcquired" "t_version work_task = 1" "t_pid work_task = Some ''p1''"
  "t_state idle_task = TPending" "t_version idle_task = 0"
  by (simp_all add: demo_records)

lemma demo_promises [simp]:
  "promise_in E (mem_store (w_queue demo)) i =
     (if i = ''root'' then Some root_promise else if i = ''root:1'' then Some child_promise
      else if i = ''work'' then Some work_promise else if i = ''idle'' then Some idle_promise
      else if i = ''work:1'' then Some work_child else if i = ''work:0'' then Some work_settled
      else if i = ''root:0'' then Some settled_child else if i = ''old'' then Some old_promise else None)"
  by (simp add: demo_store)

lemma demo_tasks [simp]:
  "task_in E (mem_store (w_queue demo)) i =
     (if i = ''root'' then Some root_task else if i = ''work'' then Some work_task
      else if i = ''idle'' then Some idle_task else None)"
  by (simp add: demo_store)

lemma demo_schedules [simp]:
  "schedule_in E (mem_store (w_queue demo)) i = (if i = ''tick'' then Some demo_schedule else None)"
  by (simp add: demo_store)

lemma demo_tags [simp]:
  "om_get targeted_tags TAG_TARGET = Some demo_target" "om_get external_tags TAG_TARGET = None"
  "om_get external_tags TAG_SCOPE = Some ''global''"
  by (simp_all add: targeted_tags_def external_tags_def TAG_TARGET_def TAG_SCOPE_def)

lemma demo_good: "good E (mem_store (w_queue demo))"
proof -
  have "readable E (mem_store (w_queue demo))"
    unfolding demo_store by (intro readable_put) (simp add: readable_def)
  moreover have "promise_ok i p" if "promise_in E (mem_store (w_queue demo)) i = Some p" for i p
    using that by (auto simp: promise_ok_def demo_records is_pending_def is_external_def settled_record_def
        split: if_splits)
  moreover have "task_ok i k" if "task_in E (mem_store (w_queue demo)) i = Some k" for i k
    using that by (auto simp: task_ok_def demo_records split: if_splits)
  moreover have "pair_ok (promise_in E (mem_store (w_queue demo)) i) (task_in E (mem_store (w_queue demo)) i)" for i
    by (auto simp: demo_records target_def is_pending_def settled_record_def)
  moreover have "task_in E (mem_store (w_queue demo)) c \<noteq> None"
    if "promise_in E (mem_store (w_queue demo)) i = Some p" "c \<in> set (sp_callbacks p)" for i p c
    using that by (auto simp: demo_records split: if_splits)
  moreover have "schedule_ok i s" if "schedule_in E (mem_store (w_queue demo)) i = Some s" for i s
    using that by (auto simp: schedule_ok_def demo_schedule_def split: if_splits)
  ultimately show ?thesis
    unfolding good_def by blast
qed

lemma demo_serving: "serving mem_env mem_store demo"
  by (simp add: serving_def mem_contract demo_good)

text \<open>The queue keeps the books of the store.\<close>

lemma demo_job_names: "''job0'' = job_name 0" "''job1'' = job_name 1" "''job2'' = job_name 2"
  by code_simp+

lemma demo_requests:
  "mem_jobs demo_queue = {demo_request root_task ''job0'', demo_request work_task ''job1'', demo_request idle_task ''job2''}"
  by (auto simp: mem_jobs_def demo_queue_def)

lemma demo_issued: "mem_issued demo_queue = {''job0'', ''job1'', ''job2''}"
  unfolding demo_job_names mem_issued_def demo_queue_def by (auto simp: lessThan_Suc numeral_3_eq_3)

lemma demo_request_simps [simp]:
  "e_id (demo_request k j) = Some j" "e_payload (demo_request k j) = Doc (enc_delivery (Execute (t_id k)))"
  by (simp_all add: demo_request_def execute_request_def)

lemma demo_executes: "executes E (e_payload (demo_request k j)) i \<longleftrightarrow> i = t_id k"
  by simp

lemma demo_known: "om_get (m_jobs demo_queue) i =
    (if i = ''job1'' then Some (demo_job ''work'') else if i = ''job2'' then Some (demo_job ''idle'') else None)"
  by (simp add: demo_queue_def)

lemma demo_ended: "mem_ended demo_queue = {''job0''}"
  by (auto simp: mem_ended_def demo_requests demo_known)

text \<open>
  The same queue after it has lost some of its jobs, with the task \<open>work\<close> in another state.
\<close>

lemma demo_in_order:
  assumes "promise_in mem_env V = promise_in mem_env (mem_store (w_queue demo))"
    and "task_in mem_env V = (task_in mem_env (mem_store (w_queue demo)))(''work'' \<mapsto> k)"
    and "t_id k = ''work''" "t_job k = Some ''job1''" "working k \<longrightarrow> ''job1'' \<notin> N" "''job2'' \<notin> N"
  shows "in_order mem_env (mem_jobs demo_queue) N V"
  unfolding in_order_def
proof (intro conjI allI impI)
  show "p_id (sp_record p) = i" if "promise_in mem_env V i = Some p" for i p
    using that by (auto simp: assms(1) split: if_splits)
  fix i k' assume k': "task_in mem_env V i = Some k'"
  then consider "i = ''root''" "k' = root_task" | "i = ''work''" "k' = k" | "i = ''idle''" "k' = idle_task"
    by (auto simp: assms(2) split: if_splits)
  note task = this
  have jobs: "job_of mem_env (mem_jobs demo_queue) ''job0'' ''root''" "job_of mem_env (mem_jobs demo_queue) ''job1'' ''work''"
    "job_of mem_env (mem_jobs demo_queue) ''job2'' ''idle''"
    by (auto simp: job_of_def demo_requests)
  have named: "t_job root_task = Some ''job0''" "t_job idle_task = Some ''job2''"
    by (simp_all add: demo_records)
  from task show "employed mem_env (mem_jobs demo_queue) N k'"
    by cases (use assms(3-6) in \<open>simp_all add: employed_def jobs working_def named\<close>)
  from task show "t_id k' = i" by cases (simp_all add: assms(3))
  from task show "\<exists>p. promise_in mem_env V i = Some p \<and> (t_state k' \<noteq> TFulfilled \<longrightarrow> is_pending (sp_record p))"
    by cases (simp_all add: assms(1))
qed

lemma demo_audited_at:
  assumes "m_accepted m = m_accepted demo_queue" "m_next m = m_next demo_queue"
    and "\<And>i j. om_get (m_jobs m) i = Some j \<Longrightarrow> om_get (m_jobs demo_queue) i = Some j"
    and "in_order mem_env (mem_jobs demo_queue) (mem_ended m) (mem_store m)"
  shows "audited mem_env mem_store mem_ledger \<lparr>w_queue = m, w_held = w_held demo\<rparr>"
proof -
  have same: "mem_jobs m = mem_jobs demo_queue" "mem_issued m = mem_issued demo_queue"
    by (simp_all add: mem_jobs_def mem_issued_def assms(1,2))
  have "mem_valid m"
    unfolding mem_valid_def same demo_requests demo_issued
  proof (intro conjI allI impI ballI)
    fix i j assume "om_get (m_jobs m) i = Some j"
    then consider "i = ''job1''" "j = demo_job ''work''" | "i = ''job2''" "j = demo_job ''idle''"
      using assms(3) [of i j] by (auto simp: demo_known split: if_splits)
    then show "\<exists>r \<in> {demo_request root_task ''job0'', demo_request work_task ''job1'', demo_request idle_task ''job2''}.
        e_payload r = mj_payload j \<and> (case e_id r of Some i' \<Rightarrow> i = i' | None \<Rightarrow> i \<notin> range job_name)"
      by cases (simp_all add: demo_job_def)
  qed auto
  moreover have "told_apart mem_env (mem_jobs demo_queue) (mem_issued demo_queue)"
    by (auto simp: told_apart_def demo_requests demo_issued)
  moreover have "holds_own mem_env (mem_jobs demo_queue) (w_held demo)"
    by (auto simp: holds_own_def demo_def job_of_def demo_requests demo_executes mem_claim_def split: if_splits)
  ultimately show ?thesis
    using assms(4) by (simp add: audited_def mem_keeps_books books_def same)
qed

lemma demo_audited: "audited mem_env mem_store mem_ledger demo"
proof -
  have "in_order mem_env (mem_jobs demo_queue) (mem_ended demo_queue) (mem_store (w_queue demo))"
    by (rule demo_in_order [where k = work_task]) (auto simp: demo_ended, simp_all add: demo_records)
  then have "audited mem_env mem_store mem_ledger \<lparr>w_queue = demo_queue, w_held = w_held demo\<rparr>"
    by (intro demo_audited_at) (simp_all add: demo_def)
  then show ?thesis by (simp add: demo_def)
qed

lemma demo_now [simp]: "shared_now mem_env demo = 0"
  by (simp add: shared_now_def demo_def demo_queue_def clamp_i64_def i64_max_def)

lemma mem_reliable: "reliable mem_env"
  by (auto simp: reliable_def no_error_def mem_ops mem_settle_def split: option.splits prod.splits if_splits)

text \<open>The answer of a request to the example store, which never fails.\<close>

lemma demo_responds:
  "responds mem_env mem_store opts w m P \<Longrightarrow>
   \<exists>reply w'. locked mem_env opts m w = (Inr reply, w') \<and> P reply (mem_store (w_queue w'))"
  by (erule responds_reliable [OF _ mem_reliable]) blast

end
