(* ===== verification/Promise_Properties.thy ===== *)
theory Promise_Properties
  imports Examples
begin

text \<open>
  What the promise requests promise to a client: the effect of each on the records of the store,
  stated over the records before and after the request.  Each property is followed by its
  evaluation on the example store.
\<close>

lemma live_not_expired: "lt64 time (p_timeout_at p) \<Longrightarrow> \<not> expired time p"
  by (simp add: expired_def)

text \<open>The effect of a settlement on the records.\<close>

definition settlement ::
  "('q, 'x) env_scheme \<Rightarrow> string \<Rightarrow> stored_promise \<Rightarrow> promise_record \<Rightarrow> store \<Rightarrow> store \<Rightarrow> bool" where
  "settlement E i p r V W \<longleftrightarrow>
     promise_in E W = (promise_in E V)(i \<mapsto> bare r)
     \<and> task_in E W i = map_option fulfilled_task (task_in E V i)
     \<and> (\<forall>j. j \<noteq> i \<longrightarrow> j \<notin> set (sp_callbacks p) \<longrightarrow> task_in E W j = task_in E V j)
     \<and> schedule_in E W = schedule_in E V"

lemma settled_store_settlement:
  assumes "good E V" "promise_in E V i = Some p" "is_pending (sp_record p)"
    and "settles (sp_record p) r" "settled_store E time i p r V W"
  shows "settlement E i p r V W"
proof -
  have "t_state k \<noteq> TFulfilled" if "task_in E V i = Some k" for k
    using good_task_promise [OF assms(1) that] assms(2,3) by auto
  then have "task_in E W i = map_option fulfilled_task (task_in E V i)"
    using settled_store_own_task [OF assms(1,2,5)] by (cases "task_in E V i") auto
  then show ?thesis
    using settled_store_promises [OF assms(1-5)] settled_store_other_task [OF assms(1,5)]
    by (simp add: settlement_def)
qed

lemma settlement_same:
  "settlement E i p r D W \<Longrightarrow> promise_in E D = promise_in E V \<Longrightarrow> task_in E D = task_in E V \<Longrightarrow>
   schedule_in E D = schedule_in E V \<Longrightarrow> settlement E i p r V W"
  by (simp add: settlement_def)

text \<open>The named promise of a request, after its deadline.\<close>

lemma named_deadline:
  assumes "deadlines E time {i} V D" "promise_in E V i = Some p"
  shows "promise_in E D = (promise_in E V)(i \<mapsto> at_deadline time True p)"
proof
  fix j
  have "promise_in E D j = map_option (at_deadline time (j = i)) (promise_in E V j)"
    using assms(1) by (simp add: deadlines_def)
  then show "promise_in E D j = ((promise_in E V)(i \<mapsto> at_deadline time True p)) j"
    using assms(2) by (cases "j = i") (simp_all add: option.map_ident)
qed

section \<open>Settling\<close>

text \<open>A settlement in time, in terms of the kernel's specification.\<close>

lemma settle_in_time:
  assumes "serving E kv w" "promise_in E (kv (w_queue w)) (ps_id d) = Some p"
    and "is_pending (sp_record p)" "lt64 (shared_now E w) (p_timeout_at (sp_record p))"
  shows "responds E kv opts w (promise_settle E d) (\<lambda>reply W.
    let r = settled_record (shared_now E w) (ps_state d) (ps_value d) (sp_record p) in
    reply = promise_reply r \<and> (\<exists>D. good E D \<and> promise_in E D = promise_in E (kv (w_queue w))
      \<and> task_in E D = task_in E (kv (w_queue w)) \<and> schedule_in E D = schedule_in E (kv (w_queue w))
      \<and> settled_store E (shared_now E w) (ps_id d) p r D W))"
  by (rule responds_live [OF assms(1) honest_promise_requests(3)
      promise_settle_spec [OF begun_shared [OF assms(1)] serving_contract [OF assms(1)]]])
    (use assms(2-4) live_not_expired in \<open>auto simp: settled_promise_def settled_or_kept_def Let_def\<close>)

text \<open>
  C14: Settling a promise that is pending before its deadline answers with the promise in the
  requested state, with the given value and the time of the request; it drops the registrations,
  fulfils the promise's own task, and changes no task but that one and those of the registered
  awaiters, no other promise and no schedule.
\<close>

theorem promise_settle_pending:
  assumes "serving E kv w" "promise_in E (kv (w_queue w)) (ps_id d) = Some p"
    and "is_pending (sp_record p)" "lt64 (shared_now E w) (p_timeout_at (sp_record p))"
  shows "responds E kv opts w (promise_settle E d) (\<lambda>reply W.
    \<exists>r. r = (sp_record p)\<lparr>p_state := settled_as (ps_state d), p_value := ps_value d,
           p_settled_at := Some (shared_now E w)\<rparr>
      \<and> reply = promise_reply r \<and> settlement E (ps_id d) p r (kv (w_queue w)) W)"
proof (rule responds_mono [OF settle_in_time [OF assms]])
  fix reply W
  let ?r = "settled_record (shared_now E w) (ps_state d) (ps_value d) (sp_record p)"
  assume "let r = ?r in reply = promise_reply r \<and> (\<exists>D. good E D \<and> promise_in E D = promise_in E (kv (w_queue w))
      \<and> task_in E D = task_in E (kv (w_queue w)) \<and> schedule_in E D = schedule_in E (kv (w_queue w))
      \<and> settled_store E (shared_now E w) (ps_id d) p r D W)"
  then obtain D where D: "reply = promise_reply ?r" "good E D" "settled_store E (shared_now E w) (ps_id d) p ?r D W"
    and eq: "promise_in E D = promise_in E (kv (w_queue w))" "task_in E D = task_in E (kv (w_queue w))"
      "schedule_in E D = schedule_in E (kv (w_queue w))"
    by (auto simp: Let_def)
  have "settlement E (ps_id d) p ?r D W"
    using settled_store_settlement [OF D(2) _ assms(3) by_client [OF assms(4)] D(3)] assms(2) eq by simp
  with D(1) show "\<exists>r. r = (sp_record p)\<lparr>p_state := settled_as (ps_state d), p_value := ps_value d,
           p_settled_at := Some (shared_now E w)\<rparr>
      \<and> reply = promise_reply r \<and> settlement E (ps_id d) p r (kv (w_queue w)) W"
    using settlement_same [OF _ eq] unfolding settled_record_def by blast
qed

definition demo_settle :: promise_settle_data where
  "demo_settle = \<lparr>ps_id = ''root:1'', ps_state = SResolved, ps_value = default_value\<rparr>"

lemma demo_settle_simps [simp]:
  "ps_id demo_settle = ''root:1''" "ps_state demo_settle = SResolved" "ps_value demo_settle = default_value"
  by (simp_all add: demo_settle_def)

theorem promise_settle_pending_witness:
  "\<exists>reply w' r. locked mem_env default_options (promise_settle mem_env demo_settle) demo = (Inr reply, w')
     \<and> reply = promise_reply r \<and> p_state r = PResolved
     \<and> promise_in mem_env (mem_store (w_queue w')) ''root:1'' = Some (bare r)"
  using demo_responds [OF promise_settle_pending [where d = demo_settle and p = child_promise, OF demo_serving]]
  by (force simp: settlement_def)

text \<open>
  C15: No wake-up is lost by a settlement: when a promise is settled, every awaiter registered on
  it whose own promise is live and whose task is suspended has its task pending again, at the
  same version, with the settled promise as its one resume; an awaiter that is pending, acquired or
  halted keeps its state and has the settled promise added to its resumes.  And an awaiter that is
  pending afterwards has a delivery to come: the queue has accepted a job under the job id of the
  task that executes this task, and no acknowledgement has ended that job, as one has ended the
  job by which the suspended task was delivered before.  The hypothesis on the books of the queue
  is an invariant that every run keeps.
\<close>

theorem promise_settle_wakes_awaiters:
  assumes "serving E kv w" "audited E kv G w" "promise_in E (kv (w_queue w)) (ps_id d) = Some p"
    and "is_pending (sp_record p)" "lt64 (shared_now E w) (p_timeout_at (sp_record p))"
    and "j \<in> set (sp_callbacks p)" "task_in E (kv (w_queue w)) j = Some k"
    and "promise_in E (kv (w_queue w)) j = Some q"
    and "is_pending (sp_record q)" "lt64 (shared_now E w) (p_timeout_at (sp_record q))"
  shows "responds E kv opts w (promise_settle E d) (\<lambda>reply W.
    \<exists>k'. task_in E W j = Some k' \<and> t_version k' = t_version k
      \<and> (if t_state k = TSuspended
         then t_state k' = TPending \<and> os_elems (t_resumes k') = {ps_id d}
         else t_state k' = t_state k \<and> os_elems (t_resumes k') = insert (ps_id d) (os_elems (t_resumes k))))
    \<and> (\<forall>r w' k'. locked E opts (promise_settle E d) w = (r, w') \<and> task_in E (kv (w_queue w')) j = Some k'
         \<and> t_state k' = TPending \<longrightarrow> has_live_job E G (w_queue w') k')"
proof (intro conjI allI impI responds_mono [OF settle_in_time [OF assms(1,3-5)]]; (elim conjE)?)
  have books: "keeps_books E kv G" using assms(2) by (simp add: audited_def)
  show "has_live_job E G (w_queue w') k'"
    if "locked E opts (promise_settle E d) w = (r, w')" "task_in E (kv (w_queue w')) j = Some k'" "t_state k' = TPending"
    for r w' k'
    by (rule locked_live_job [OF assms(2) accounts_promise_requests(3) [OF books] that])
  fix reply W
  let ?r = "settled_record (shared_now E w) (ps_state d) (ps_value d) (sp_record p)"
  assume "let r = ?r in reply = promise_reply r \<and> (\<exists>D. good E D \<and> promise_in E D = promise_in E (kv (w_queue w))
      \<and> task_in E D = task_in E (kv (w_queue w)) \<and> schedule_in E D = schedule_in E (kv (w_queue w))
      \<and> settled_store E (shared_now E w) (ps_id d) p r D W)"
  then obtain D where D: "good E D" "settled_store E (shared_now E w) (ps_id d) p ?r D W"
    and eq: "promise_in E D = promise_in E (kv (w_queue w))" "task_in E D = task_in E (kv (w_queue w))"
    by (auto simp: Let_def)
  have k: "task_in E D j = Some k" and q: "promise_in E D j = Some q" and p: "promise_in E D (ps_id d) = Some p"
    using assms eq by simp_all
  obtain k' where k': "task_in E W j = Some k'"
    "if wakes E D (shared_now E w) j then resumed Fanout (ps_id d) k k' else k' = k"
    using settled_store_awaiter [OF D(1) p assms(4) by_client [OF assms(5)] D(2) assms(6) k] .
  have "t_state k \<noteq> TFulfilled"
    using good_task_promise [OF D(1) k] q assms(9) by auto
  moreover have "resumed Fanout (ps_id d) k k'"
    using k'(2) q assms(9,10) by (simp add: wakes_def)
  ultimately show "\<exists>k'. task_in E W j = Some k' \<and> t_version k' = t_version k
      \<and> (if t_state k = TSuspended
         then t_state k' = TPending \<and> os_elems (t_resumes k') = {ps_id d}
         else t_state k' = t_state k \<and> os_elems (t_resumes k') = insert (ps_id d) (os_elems (t_resumes k)))"
    using k'(1) by (cases "t_state k") (auto simp: resumed_def os_of_list_def)
qed

theorem promise_settle_wakes_awaiters_witness:
  "\<exists>reply w' k. locked mem_env default_options (promise_settle mem_env demo_settle) demo = (Inr reply, w')
     \<and> task_in mem_env (mem_store (w_queue w')) ''root'' = Some k \<and> t_state k = TPending
     \<and> os_elems (t_resumes k) = {''root:1''} \<and> has_live_job mem_env mem_ledger (w_queue w') k
     \<and> \<not> has_live_job mem_env mem_ledger (w_queue demo) root_task"
proof -
  have "t_job root_task = Some ''job0''" "''job0'' \<in> mem_ended (w_queue demo)"
    using demo_ended by (simp_all add: demo_records demo_def)
  then have unemployed: "\<not> has_live_job mem_env mem_ledger (w_queue demo) root_task"
    by (simp add: has_live_job_def)
  have child: "promise_in mem_env (mem_store (w_queue demo)) (ps_id demo_settle) = Some child_promise"
    "is_pending (sp_record child_promise)" "lt64 (shared_now mem_env demo) (p_timeout_at (sp_record child_promise))"
    "''root'' \<in> set (sp_callbacks child_promise)" "task_in mem_env (mem_store (w_queue demo)) ''root'' = Some root_task"
    "promise_in mem_env (mem_store (w_queue demo)) ''root'' = Some root_promise"
    "is_pending (sp_record root_promise)" "lt64 (shared_now mem_env demo) (p_timeout_at (sp_record root_promise))"
    by simp_all
  note settles = promise_settle_wakes_awaiters [where d = demo_settle and p = child_promise and j = "''root''"
      and k = root_task and q = root_promise and opts = default_options, OF demo_serving demo_audited child]
  have woken: "responds mem_env mem_store default_options demo (promise_settle mem_env demo_settle) (\<lambda>_ W. \<exists>k.
      task_in mem_env W ''root'' = Some k \<and> t_state k = TPending \<and> os_elems (t_resumes k) = {''root:1''})"
    by (rule responds_mono [OF settles [THEN conjunct1]]) auto
  obtain reply w' k where run:
    "locked mem_env default_options (promise_settle mem_env demo_settle) demo = (Inr reply, w')"
    "task_in mem_env (mem_store (w_queue w')) ''root'' = Some k" "t_state k = TPending" "os_elems (t_resumes k) = {''root:1''}"
    using demo_responds [OF woken] by (elim exE conjE)
  have "has_live_job mem_env mem_ledger (w_queue w') k"
    by (rule settles [THEN conjunct2, rule_format, OF conjI [OF run(1) conjI [OF run(2,3)]]])
  with run unemployed show ?thesis by (intro exI conjI)
qed

text \<open>
  C27: A settlement that comes too late changes nothing by itself: a promise that is already
  settled is answered as it is and no record changes, and one that is pending past its deadline
  is settled to its timeout state at its deadline, with its value unchanged.
\<close>

theorem promise_settle_too_late:
  assumes "serving E kv w" "promise_in E (kv (w_queue w)) (ps_id d) = Some p"
    and "\<not> (is_pending (sp_record p) \<and> lt64 (shared_now E w) (p_timeout_at (sp_record p)))"
  shows "responds E kv opts w (promise_settle E d) (\<lambda>reply W.
    if is_pending (sp_record p)
    then (let r = (sp_record p)\<lparr>p_state := timeout_state (sp_record p),
                p_settled_at := Some (p_timeout_at (sp_record p))\<rparr>
          in reply = promise_reply r \<and> promise_in E W = (promise_in E (kv (w_queue w)))(ps_id d \<mapsto> bare r))
    else reply = promise_reply (sp_record p) \<and> promise_in E W = promise_in E (kv (w_queue w))
      \<and> task_in E W = task_in E (kv (w_queue w)) \<and> schedule_in E W = schedule_in E (kv (w_queue w)))"
proof (rule responds_spec [OF assms(1) honest_promise_requests(3)
      promise_settle_spec [OF begun_shared [OF assms(1)] serving_contract [OF assms(1)]]])
  fix D reply W
  assume d: "deadlines E (shared_now E w) {ps_id d} (kv (w_queue w)) D"
    and run: "settled_promise E (now (shared_txn E opts w)) d D reply W"
  have D: "promise_in E D = (promise_in E (kv (w_queue w)))(ps_id d \<mapsto> at_deadline (shared_now E w) True p)"
    using named_deadline [OF d assms(2)] .
  have "\<not> is_pending (sp_record (at_deadline (shared_now E w) True p))"
    using assms(3) by (auto simp: at_deadline_def expired_def expired_record_def is_pending_def)
  then have "W = D" "reply = promise_reply (sp_record (at_deadline (shared_now E w) True p))"
    using run D by (auto simp: settled_promise_def settled_or_kept_def)
  then show "if is_pending (sp_record p)
    then (let r = (sp_record p)\<lparr>p_state := timeout_state (sp_record p),
                p_settled_at := Some (p_timeout_at (sp_record p))\<rparr>
          in reply = promise_reply r \<and> promise_in E W = (promise_in E (kv (w_queue w)))(ps_id d \<mapsto> bare r))
    else reply = promise_reply (sp_record p) \<and> promise_in E W = promise_in E (kv (w_queue w))
      \<and> task_in E W = task_in E (kv (w_queue w)) \<and> schedule_in E W = schedule_in E (kv (w_queue w))"
  proof (cases "is_pending (sp_record p)")
    case True
    with assms(3) have "at_deadline (shared_now E w) True p = bare ((sp_record p)\<lparr>p_state := timeout_state (sp_record p),
        p_settled_at := Some (p_timeout_at (sp_record p))\<rparr>)"
      by (simp add: at_deadline_def expired_def expired_record_def)
    with True D \<open>W = D\<close> \<open>reply = _\<close> show ?thesis by (simp add: Let_def)
  next
    case False
    then have "at_deadline (shared_now E w) True p = p" "\<not> expired (shared_now E w) (sp_record p)"
      by (simp_all add: at_deadline_def expired_def)
    with False deadlines_same [OF d] assms(2) \<open>W = D\<close> \<open>reply = _\<close> show ?thesis by simp
  qed
qed

definition demo_settle_again :: promise_settle_data where
  "demo_settle_again = \<lparr>ps_id = ''old'', ps_state = SRejected, ps_value = default_value\<rparr>"

theorem promise_settle_too_late_witness:
  "\<exists>reply w'. locked mem_env default_options (promise_settle mem_env demo_settle_again) demo = (Inr reply, w')
     \<and> reply = promise_reply (sp_record old_promise)
     \<and> promise_in mem_env (mem_store (w_queue w')) = promise_in mem_env (mem_store (w_queue demo))"
  using demo_responds [OF promise_settle_too_late [where d = demo_settle_again and p = old_promise, OF demo_serving]]
  by (simp add: demo_settle_again_def) blast

section \<open>Reading and creating\<close>

text \<open>
  C28: The answer to a read shows a promise as its deadline has left it: one that is pending past
  its deadline is answered, and stored, in its timeout state, so that the promise in the answer
  is never pending past its deadline; an unknown id is answered with 404.
\<close>

theorem promise_get_current:
  assumes "serving E kv w"
  shows "responds E kv opts w (promise_get E i) (\<lambda>reply W.
    case promise_in E (kv (w_queue w)) i of
      None \<Rightarrow> reply = err 404 ''Promise not found'' \<and> promise_in E W = promise_in E (kv (w_queue w))
    | Some p \<Rightarrow> \<exists>q. promise_in E W = (promise_in E (kv (w_queue w)))(i \<mapsto> q)
        \<and> reply = promise_reply (sp_record q) \<and> \<not> expired (shared_now E w) (sp_record q)
        \<and> (if expired (shared_now E w) (sp_record p)
           then sp_record q = expired_record (sp_record p) else q = p))"
proof (rule responds_spec [OF assms(1) honest_promise_requests(2)
      promise_get_spec [OF begun_shared [OF assms(1)] serving_contract [OF assms(1)]]])
  fix D reply W
  let ?V = "kv (w_queue w)"
  assume d: "deadlines E (shared_now E w) {i} ?V D" and run: "got_promise E i D reply W"
  show "case promise_in E ?V i of
      None \<Rightarrow> reply = err 404 ''Promise not found'' \<and> promise_in E W = promise_in E ?V
    | Some p \<Rightarrow> \<exists>q. promise_in E W = (promise_in E ?V)(i \<mapsto> q)
        \<and> reply = promise_reply (sp_record q) \<and> \<not> expired (shared_now E w) (sp_record q)
        \<and> (if expired (shared_now E w) (sp_record p)
           then sp_record q = expired_record (sp_record p) else q = p)"
  proof (cases "promise_in E ?V i")
    case None
    with run deadlines_same [OF d] show ?thesis by (simp add: got_promise_def)
  next
    case (Some p)
    with run named_deadline [OF d Some] at_deadline_settled [of "shared_now E w" p] show ?thesis
      by (auto simp: got_promise_def at_deadline_def)
  qed
qed

theorem promise_get_current_witness:
  "\<exists>reply w'. locked mem_env default_options (promise_get mem_env ''root'') demo = (Inr reply, w')
     \<and> reply = promise_reply (sp_record root_promise)"
  using demo_responds [OF promise_get_current [where i = "''root''" and opts = default_options, OF demo_serving]]
  by (simp add: expired_def) blast

text \<open>
  C29: Creating a promise under a fresh id stores exactly one new promise with the request's
  parameter, tags and deadline: pending and created now, or, when its deadline has passed,
  already settled to its timeout state at the deadline.  A targeted promise gets a task for its
  target, pending at version 0 or fulfilled, and an untargeted one none.
\<close>

theorem promise_create_new:
  assumes "serving E kv w" "validate_create E d = None"
    and "promise_in E (kv (w_queue w)) (pc_id d) = None"
  shows "responds E kv opts w (promise_create E d) (\<lambda>reply W. \<exists>r. reply = promise_reply r
    \<and> p_id r = pc_id d \<and> p_param r = pc_param d \<and> p_tags r = pc_tags d \<and> p_timeout_at r = pc_timeout_at d
    \<and> p_value r = default_value
    \<and> (if lt64 (shared_now E w) (pc_timeout_at d)
       then p_state r = PPending \<and> p_created_at r = shared_now E w \<and> p_settled_at r = None
       else p_state r = timeout_state r \<and> p_created_at r = pc_timeout_at d
         \<and> p_settled_at r = Some (pc_timeout_at d))
    \<and> promise_in E W = (promise_in E (kv (w_queue w)))(pc_id d \<mapsto> bare r)
    \<and> (\<forall>j. j \<noteq> pc_id d \<longrightarrow> task_in E W j = task_in E (kv (w_queue w)) j)
    \<and> (case om_get (pc_tags d) TAG_TARGET of
         None \<Rightarrow> task_in E W (pc_id d) = None
       | Some tgt \<Rightarrow> \<exists>k. task_in E W (pc_id d) = Some k \<and> t_target k = tgt \<and> t_version k = 0
           \<and> t_state k = (if lt64 (shared_now E w) (pc_timeout_at d) then TPending else TFulfilled))
    \<and> schedule_in E W = schedule_in E (kv (w_queue w)))" (is "responds E kv opts w ?m ?P")
proof (rule responds_live [OF assms(1) honest_promise_requests(1)
      promise_create_spec [OF begun_shared [OF assms(1)] serving_contract [OF assms(1)] assms(2)]])
  fix D reply W
  let ?r = "created_record (shared_now E w) d None"
  assume eq: "promise_in E D = promise_in E (kv (w_queue w))" "task_in E D = task_in E (kv (w_queue w))"
      "schedule_in E D = schedule_in E (kv (w_queue w))"
    and run: "created_or_found E (now (shared_txn E opts w)) d D reply W"
  have new: "reply = promise_reply ?r" "created_store E Dispatch ?r D W"
    using run assms(3) eq by (simp_all add: created_or_found_def)
  have r: "p_id ?r = pc_id d" "target ?r = om_get (pc_tags d) TAG_TARGET"
    by (simp_all add: created_record_def target_def Let_def)
  show "?P reply W"
    by (rule exI [where x = ?r], insert new(2) r created_pending [of "shared_now E w" d None] new(1))
      (auto simp: created_store_def starts_def eq timeout_state_def is_timer_def created_record_def
        Let_def is_pending_def split: option.splits)
qed (use assms(3) in auto)

definition demo_create :: promise_create_data where
  "demo_create = \<lparr>pc_id = ''fresh'', pc_timeout_at = 500, pc_param = default_value, pc_tags = targeted_tags\<rparr>"

lemma demo_create_valid: "validate_create mem_env demo_create = None"
  by (simp add: validate_create_None demo_create_def targeted_tags_def TAG_TARGET_def TAG_DELAY_def
      mem_url_def demo_target_def prefix_def)

theorem promise_create_new_witness:
  "\<exists>reply w' k. locked mem_env default_options (promise_create mem_env demo_create) demo = (Inr reply, w')
     \<and> task_in mem_env (mem_store (w_queue w')) ''fresh'' = Some k \<and> t_state k = TPending"
  using demo_responds [OF promise_create_new [OF demo_serving demo_create_valid]]
  by (simp add: demo_create_def) blast

text \<open>
  Creation is idempotent: creating a promise under an id that exists, whatever the request's
  data, answers with the existing promise and changes no record.
\<close>

theorem promise_create_existing:
  assumes "serving E kv w" "validate_create E d = None"
    and "promise_in E (kv (w_queue w)) (pc_id d) = Some p" "\<not> expired (shared_now E w) (sp_record p)"
  shows "responds E kv opts w (promise_create E d) (\<lambda>reply W. reply = promise_reply (sp_record p)
    \<and> promise_in E W = promise_in E (kv (w_queue w)) \<and> task_in E W = task_in E (kv (w_queue w))
    \<and> schedule_in E W = schedule_in E (kv (w_queue w)))"
  by (rule responds_live [OF assms(1) honest_promise_requests(1)
      promise_create_spec [OF begun_shared [OF assms(1)] serving_contract [OF assms(1)] assms(2)]])
    (use assms(3,4) in \<open>auto simp: created_or_found_def\<close>)

definition demo_create_again :: promise_create_data where
  "demo_create_again = \<lparr>pc_id = ''root'', pc_timeout_at = 500, pc_param = default_value, pc_tags = om_empty\<rparr>"

theorem promise_create_existing_witness:
  "\<exists>reply w'. locked mem_env default_options (promise_create mem_env demo_create_again) demo = (Inr reply, w')
     \<and> reply = promise_reply (sp_record root_promise)"
proof -
  have "validate_create mem_env demo_create_again = None"
    by (simp add: validate_create_None demo_create_again_def)
  then show ?thesis
    using demo_responds [OF promise_create_existing [where d = demo_create_again and p = root_promise, OF demo_serving]]
    by (simp add: demo_create_again_def expired_def) blast
qed

section \<open>Registrations\<close>

text \<open>
  C30: A registration on a pending promise adds the awaiter to its callbacks once and in place,
  answers with the promise as it is, and changes nothing else.
\<close>

theorem register_callback_pending:
  assumes "serving E kv w" "validate_callback (cb_awaited d) (cb_awaiter d) = None"
    and "promise_in E (kv (w_queue w)) (cb_awaited d) = Some p" "promise_in E (kv (w_queue w)) (cb_awaiter d) = Some q"
    and "target (sp_record q) \<noteq> None" "is_external (sp_record p)"
    and "is_pending (sp_record p)" "lt64 (shared_now E w) (p_timeout_at (sp_record p))"
    and "is_pending (sp_record q)" "lt64 (shared_now E w) (p_timeout_at (sp_record q))"
  shows "responds E kv opts w (promise_register_callback E d) (\<lambda>reply W. reply = promise_reply (sp_record p)
    \<and> promise_in E W = (promise_in E (kv (w_queue w)))(cb_awaited d \<mapsto>
        p\<lparr>sp_callbacks := (if cb_awaiter d \<in> set (sp_callbacks p) then sp_callbacks p
                           else sp_callbacks p @ [cb_awaiter d])\<rparr>)
    \<and> task_in E W = task_in E (kv (w_queue w)) \<and> schedule_in E W = schedule_in E (kv (w_queue w)))"
proof (rule responds_live [OF assms(1) honest_promise_requests(4) promise_register_callback_spec
      [OF begun_shared [OF assms(1)] serving_contract [OF assms(1)] assms(2)]])
  fix D reply W
  assume eq: "promise_in E D = promise_in E (kv (w_queue w))" "task_in E D = task_in E (kv (w_queue w))"
      "schedule_in E D = schedule_in E (kv (w_queue w))" and run: "callback_registered E d D reply W"
  have "reply = promise_reply (sp_record p)" "only_promise E (cb_awaited d) (with_callback p (cb_awaiter d)) D W"
    using run assms(3-7,9) eq by (auto simp: callback_registered_def)
  then show "reply = promise_reply (sp_record p)
    \<and> promise_in E W = (promise_in E (kv (w_queue w)))(cb_awaited d \<mapsto>
        p\<lparr>sp_callbacks := (if cb_awaiter d \<in> set (sp_callbacks p) then sp_callbacks p
                           else sp_callbacks p @ [cb_awaiter d])\<rparr>)
    \<and> task_in E W = task_in E (kv (w_queue w)) \<and> schedule_in E W = schedule_in E (kv (w_queue w))"
    by (simp add: only_promise_def with_callback_def eq)
qed (use assms(3,4,8,10) live_not_expired in auto)

definition demo_callback :: callback_data where
  "demo_callback = \<lparr>cb_awaited = ''root:1'', cb_awaiter = ''root''\<rparr>"

lemma demo_origins [simp]: "origin_of ''root:1'' = ''root''" "origin_of ''root'' = ''root''"
  using origin_of_colon [of "''root''" "''1''"] by simp_all

lemma root_target [simp]: "target (sp_record root_promise) = Some demo_target"
  by (simp add: target_def demo_records)

theorem register_callback_pending_witness:
  "\<exists>reply w'. locked mem_env default_options (promise_register_callback mem_env demo_callback) demo = (Inr reply, w')
     \<and> reply = promise_reply (sp_record child_promise)
     \<and> task_in mem_env (mem_store (w_queue w')) = task_in mem_env (mem_store (w_queue demo))"
proof -
  have "validate_callback (cb_awaited demo_callback) (cb_awaiter demo_callback) = None"
    by (simp add: validate_callback_None demo_callback_def)
  then show ?thesis
    using demo_responds [OF register_callback_pending [where d = demo_callback and p = child_promise
          and q = root_promise, OF demo_serving]]
    by (simp add: demo_callback_def) blast
qed

text \<open>
  A registration on a promise that is already settled is not lost: the awaiter's task is
  resumed at once, so a suspended task becomes pending at its version with a new job and the
  awaited promise as its resume; no promise changes.
\<close>

theorem register_callback_settled:
  assumes "serving E kv w" "validate_callback (cb_awaited d) (cb_awaiter d) = None"
    and "promise_in E (kv (w_queue w)) (cb_awaited d) = Some p" "promise_in E (kv (w_queue w)) (cb_awaiter d) = Some q"
    and "target (sp_record q) \<noteq> None" "is_external (sp_record p)" "\<not> is_pending (sp_record p)"
    and "is_pending (sp_record q)" "lt64 (shared_now E w) (p_timeout_at (sp_record q))"
    and "task_in E (kv (w_queue w)) (cb_awaiter d) = Some k"
  shows "responds E kv opts w (promise_register_callback E d) (\<lambda>reply W. reply = promise_reply (sp_record p)
    \<and> promise_in E W = promise_in E (kv (w_queue w)) \<and> schedule_in E W = schedule_in E (kv (w_queue w))
    \<and> (\<forall>j. j \<noteq> cb_awaiter d \<longrightarrow> task_in E W j = task_in E (kv (w_queue w)) j)
    \<and> (\<exists>k'. task_in E W (cb_awaiter d) = Some k' \<and> t_version k' = t_version k
        \<and> (case t_state k of
             TSuspended \<Rightarrow> t_state k' = TPending \<and> t_job k' \<noteq> None \<and> os_elems (t_resumes k') = {cb_awaited d}
           | THalted \<Rightarrow> k' = k
           | _ \<Rightarrow> k' = k\<lparr>t_resumes := os_insert (cb_awaited d) (t_resumes k)\<rparr>)))"
    (is "responds E kv opts w ?m ?P")
proof (rule responds_live [OF assms(1) honest_promise_requests(4) promise_register_callback_spec
      [OF begun_shared [OF assms(1)] serving_contract [OF assms(1)] assms(2)]])
  fix D reply W
  assume D: "good E D" and eq: "promise_in E D = promise_in E (kv (w_queue w))" "task_in E D = task_in E (kv (w_queue w))"
      "schedule_in E D = schedule_in E (kv (w_queue w))" and run: "callback_registered E d D reply W"
  have change: "reply = promise_reply (sp_record p)"
    "task_change E (cb_awaiter d) (resumed Registration (cb_awaited d)) D W"
    using run assms(3-8) eq by (auto simp: callback_registered_def)
  have live: "t_state k \<noteq> TFulfilled"
    using good_task_promise [OF D, of "cb_awaiter d" k] eq assms(4,8,10) by auto
  obtain k' where k': "task_in E W (cb_awaiter d) = Some k'" "resumed Registration (cb_awaited d) k k'"
    using change(2) assms(10) eq by (auto simp: task_change_def)
  have "t_version k' = t_version k \<and> (case t_state k of
      TSuspended \<Rightarrow> t_state k' = TPending \<and> t_job k' \<noteq> None \<and> os_elems (t_resumes k') = {cb_awaited d}
    | THalted \<Rightarrow> k' = k
    | _ \<Rightarrow> k' = k\<lparr>t_resumes := os_insert (cb_awaited d) (t_resumes k)\<rparr>)"
    using k'(2) live by (cases "t_state k") (auto simp: resumed_def os_of_list_def)
  with k'(1) change show "?P reply W"
    by (simp add: task_change_def eq)
qed (use assms(3,4,7,9) live_not_expired in \<open>auto simp: expired_def\<close>)

definition demo_callback_settled :: callback_data where
  "demo_callback_settled = \<lparr>cb_awaited = ''root:0'', cb_awaiter = ''root''\<rparr>"

theorem register_callback_settled_witness:
  "\<exists>reply w' k. locked mem_env default_options (promise_register_callback mem_env demo_callback_settled) demo
       = (Inr reply, w')
     \<and> task_in mem_env (mem_store (w_queue w')) ''root'' = Some k \<and> t_state k = TPending"
proof -
  have "validate_callback (cb_awaited demo_callback_settled) (cb_awaiter demo_callback_settled) = None"
    using origin_of_colon [of "''root''" "''0''"] by (simp add: validate_callback_None demo_callback_settled_def)
  then show ?thesis
    using demo_responds [OF register_callback_settled [where d = demo_callback_settled and p = settled_child
          and q = root_promise and k = root_task and opts = default_options, OF demo_serving]]
    by (simp add: demo_callback_settled_def) (elim exE conjE, intro exI conjI, assumption+)
qed

text \<open>
  A listener registered on a pending external promise is added to its listeners once, and
  one registered on a settled promise is not stored: the reply carries the outcome.  Nothing
  else changes.
\<close>

theorem register_listener_records:
  assumes "serving E kv w" "x_url_parses E (li_address d)"
    and "promise_in E (kv (w_queue w)) (li_awaited d) = Some p" "is_external (sp_record p)"
    and "\<not> expired (shared_now E w) (sp_record p)"
  shows "responds E kv opts w (promise_register_listener E d) (\<lambda>reply W. reply = promise_reply (sp_record p)
    \<and> promise_in E W = (promise_in E (kv (w_queue w)))(li_awaited d \<mapsto>
        (if is_pending (sp_record p) \<and> li_address d \<notin> set (sp_listeners p)
         then p\<lparr>sp_listeners := sp_listeners p @ [li_address d]\<rparr> else p))
    \<and> task_in E W = task_in E (kv (w_queue w)) \<and> schedule_in E W = schedule_in E (kv (w_queue w)))"
    (is "responds E kv opts w ?m ?P")
proof (rule responds_live [OF assms(1) honest_promise_requests(5) promise_register_listener_spec
      [OF begun_shared [OF assms(1)] serving_contract [OF assms(1)]]])
  fix D reply W
  assume eq: "promise_in E D = promise_in E (kv (w_queue w))" "task_in E D = task_in E (kv (w_queue w))"
      "schedule_in E D = schedule_in E (kv (w_queue w))" and run: "listener_registered E d D reply W"
  have "reply = promise_reply (sp_record p)"
    and "if is_pending (sp_record p) then only_promise E (li_awaited d) (with_listener p (li_address d)) D W
      else W = D"
    using run assms(3,4) eq by (auto simp: listener_registered_def)
  then show "?P reply W"
    using assms(3) by (auto simp: only_promise_def with_listener_def eq split: if_splits)
qed (use assms(2,3,5) in \<open>auto simp: is_url_def\<close>)

definition demo_listener :: listener_data where
  "demo_listener = \<lparr>li_awaited = ''root:1'', li_address = ''poll://uni@g/p2''\<rparr>"

theorem register_listener_records_witness:
  "\<exists>reply w' p. locked mem_env default_options (promise_register_listener mem_env demo_listener) demo
       = (Inr reply, w')
     \<and> promise_in mem_env (mem_store (w_queue w')) ''root:1'' = Some p
     \<and> ''poll://uni@g/p2'' \<in> set (sp_listeners p)"
  using demo_responds [OF register_listener_records [where d = demo_listener and p = child_promise
        and opts = default_options, OF demo_serving]]
  by (force simp: demo_listener_def mem_url_def prefix_def expired_def)

end
