(* ===== verification/Leases.thy ===== *)
theory Leases
  imports Reliability
begin

text \<open>
  Who may act on a task.  The store holds the claim of a task that is delivered; a request acts
  on the task only while that claim's lease is live.  Here: what a request answers with a live
  claim, and that it does nothing without one.
\<close>

definition leased :: "('q, 'x) env_scheme \<Rightarrow> store_options \<Rightarrow> 'q world \<Rightarrow> string \<Rightarrow> bool" where
  "leased E opts w i \<longleftrightarrow> (\<exists>c. w_held w i = Some c \<and> live E (shared_txn E opts w) c)"

definition txn_leased :: "('q, 'x) env_scheme \<Rightarrow> 'q txn \<Rightarrow> string \<Rightarrow> bool" where
  "txn_leased E t i \<longleftrightarrow> (\<exists>c. held t i = Some c \<and> live E t c)"

lemma leased_txn: "txn_leased E (shared_txn E opts w) i \<longleftrightarrow> leased E opts w i"
  by (simp add: txn_leased_def leased_def)

text \<open>Deadlines that have not passed leave the transaction as it is.\<close>

lemma timeouts_live:
  assumes "begun E kv t" "queue_contract E kv"
    and "\<forall>i \<in> set ids. \<forall>p. promise_in E (view kv t) i = Some p \<longrightarrow> \<not> expired (now t) (sp_record p)"
  shows "wp (try_timeout E ids) (\<lambda>r t'. t' = t \<and> (case r of Inl e \<Rightarrow> \<exists>x. e = Storage x | Inr _ \<Rightarrow> True)) t"
  using assms(3)
proof (induction ids)
  case Nil
  then show ?case by (simp add: try_timeout_def)
next
  case (Cons i ids)
  have "wp (timeout_one E i) (\<lambda>r t'. t' = t \<and> (case r of Inl e \<Rightarrow> \<exists>x. e = Storage x | Inr _ \<Rightarrow> True)) t"
    unfolding timeout_one_def
    by (intro wp_bnd wp_get_promise [OF assms(2) goodD(1) [OF tx_invD(1) [OF begun_inv [OF assms(1)]]]])
      (use Cons.prems in \<open>simp_all add: wp_def run_bnd run_ret split: option.split\<close>)
  with Cons show ?case
    by (auto simp: try_timeout_def wp_def run_andthen run_ret split: prod.splits sum.splits)
qed

lemma wp_timeouts_live:
  assumes "begun E kv t" "queue_contract E kv"
    and "\<forall>i \<in> set ids. \<forall>p. promise_in E (view kv t) i = Some p \<longrightarrow> \<not> expired (now t) (sp_record p)"
    and "wp m (answers E kv t Q) t"
  shows "wp (andthen (try_timeout E ids) m) (answers E kv t Q) t"
  by (rule wp_andthenI [OF timeouts_live [OF assms(1-3)]])
    (use assms(4) in \<open>auto simp: answers_unchanged [OF assms(1) begun_inv [OF assms(1)]]\<close>)

lemma wp_timeout_live:
  assumes "begun E kv t" "queue_contract E kv" "promise_in E (view kv t) i = Some p" "\<not> expired (now t) (sp_record p)"
    and "wp m (answers E kv t Q) t"
  shows "wp (andthen (try_timeout E [i]) m) (answers E kv t Q) t"
  by (rule wp_timeouts_live [OF assms(1,2) _ assms(5)]) (use assms(3,4) in simp)

lemma wp_result: "wp m Q t \<Longrightarrow> fst (m t) = r0 \<Longrightarrow> wp m (\<lambda>r t'. r = r0 \<and> Q r t') t"
  by (auto simp: wp_def split: prod.splits)

section \<open>Acquiring\<close>

lemma holds_result: "fst (holds E i t) = Inr (txn_leased E t i)"
  by (auto simp: holds_def txn_leased_def split: option.split)

lemma holds_leased: "txn_leased E t i \<Longrightarrow> holds E i t = (Inr True, t)"
  by (auto simp: holds_def txn_leased_def split: option.split)

lemma acquire_unleased:
  assumes "\<not> txn_leased E t (t_id k)"
  shows "fst (acquire E k pid ttl t) = Inr None"
proof -
  obtain t' where "holds E (t_id k) t = (Inr False, t')"
    using holds_result [of E "t_id k" t] assms by (metis prod.collapse)
  then show ?thesis by (simp add: acquire_def renew_def run_bnd run_ret)
qed

lemma acquire_leased:
  assumes "held t (t_id k) = Some c" "live E t c" "q_renew_lease E (queue t) c (lease_of ttl) = (Inr (), q')"
  shows "fst (acquire E k pid ttl t) = Inr (Some (acquired k pid ttl))"
proof -
  have "holds E (t_id k) t = (Inr True, t)"
    by (rule holds_leased) (use assms in \<open>auto simp: txn_leased_def\<close>)
  with assms show ?thesis
    by (simp add: acquire_def renew_def run_bnd run_ret run_andthen put_task_def modify_def put_json_def)
qed

text \<open>The end of an acquisition, with the claim's lease and without it.\<close>

lemma task_acquire_leased_spec:
  assumes b: "begun E kv t" and c: "queue_contract E kv"
    and p: "promise_in E (view kv t) (ta_id d) = Some p" "\<not> expired (now t) (sp_record p)"
    and k: "task_in E (view kv t) (ta_id d) = Some k" "t_state k = TPending" "t_version k = ta_version d"
    and cl: "held t (ta_id d) = Some cl" "live E t cl"
      "q_renew_lease E (queue t) cl (lease_of (ta_ttl d)) = (Inr (), q')"
  shows "wp (task_acquire E d) (answers E kv t (\<lambda>reply W. (\<exists>v. reply = ok v) \<and>
    only_task E (ta_id d) (acquired k (ta_pid d) (ta_ttl d)) (view kv t) W)) t"
proof -
  note inv = begun_inv [OF b]
  have i: "t_id k = ta_id d" using task_in_id [OF tx_invD(1) [OF inv] k(1)] .
  let ?k = "acquired k (ta_pid d) (ta_ttl d)"
  have "wp (acquire E k (ta_pid d) (ta_ttl d)) (keeps E kv t (\<lambda>x t'. x = Some ?k \<and> view kv t' = put_t ?k (view kv t))) t"
    by (rule wp_mono [OF wp_result [OF acquire_spec [OF c inv k(1,2)] acquire_leased]])
      (use cl i in auto)
  then have "wp (bnd (acquire E k (ta_pid d) (ta_ttl d)) (\<lambda>taken. case taken of
      None \<Rightarrow> finished E (err 409 ''Task is not pending'')
    | Some k' \<Rightarrow> bnd (task_view E k') (\<lambda>v. finished E (ok v)))) (answers E kv t (\<lambda>reply W. (\<exists>v. reply = ok v) \<and>
      only_task E (ta_id d) ?k (view kv t) W)) t"
    by (rule answers_bnd [OF b])
      (use i in \<open>auto intro!: answers_task_view [OF b c, of _ "ta_id d"] only_task_put\<close>)
  then show ?thesis
    unfolding task_acquire_def
    by (intro wp_timeout_live [OF b c p] answers_get_task [OF b c inv]) (use k in simp)
qed

text \<open>The answers of a request that is refused.\<close>

definition refused :: "store \<Rightarrow> reply \<Rightarrow> store \<Rightarrow> bool" where
  "refused V reply W \<longleftrightarrow> W = V \<and> status reply \<in> {404, 409}"

lemma answers_refused:
  "begun E kv t0 \<Longrightarrow> queue_contract E kv \<Longrightarrow> tx_inv E kv t0 t \<Longrightarrow> view kv t = V \<Longrightarrow> s \<in> {404, 409} \<Longrightarrow>
   wp (finished E (err s msg)) (answers E kv t0 (refused V)) t"
  by (rule answers_finished) (auto simp: refused_def)

lemma task_acquire_unleased_spec:
  assumes b: "begun E kv t" and c: "queue_contract E kv"
    and p: "promise_in E (view kv t) (ta_id d) = Some p" "\<not> expired (now t) (sp_record p)"
    and k: "\<not> (\<exists>k. task_in E (view kv t) (ta_id d) = Some k \<and> t_state k = TPending \<and> t_version k = ta_version d
      \<and> txn_leased E t (ta_id d))"
  shows "wp (task_acquire E d) (answers E kv t (refused (view kv t))) t"
proof -
  note inv = begun_inv [OF b]
  have "wp (bnd (acquire E k (ta_pid d) (ta_ttl d)) (\<lambda>taken. case taken of
      None \<Rightarrow> finished E (err 409 ''Task is not pending'')
    | Some k' \<Rightarrow> bnd (task_view E k') (\<lambda>v. finished E (ok v)))) (answers E kv t (refused (view kv t))) t"
    if k': "task_in E (view kv t) (ta_id d) = Some k" "t_state k = TPending" "t_version k = ta_version d" for k
  proof -
    have "\<not> txn_leased E t (t_id k)"
      using task_in_id [OF tx_invD(1) [OF inv] k'(1)] k k' by auto
    then have "wp (acquire E k (ta_pid d) (ta_ttl d)) (keeps E kv t (\<lambda>x t'. x = None \<and> view kv t' = view kv t)) t"
      by (intro wp_mono [OF wp_result [OF acquire_spec [OF c inv k'(1,2)] acquire_unleased]]) auto
    then show ?thesis
      by (rule answers_bnd [OF b]) (auto intro!: answers_refused [OF b c])
  qed
  then show ?thesis
    unfolding task_acquire_def
    by (intro wp_timeout_live [OF b c p] answers_get_task [OF b c inv] wp_case_option wp_if)
      (auto intro!: answers_refused [OF b c inv])
qed

section \<open>Settling and suspending\<close>

lemma wp_holds_unleased:
  assumes "\<not> txn_leased E t i"
    and "\<And>t'. same_base kv t t' \<Longrightarrow> view kv t' = view kv t \<Longrightarrow> Q (Inr False) t'"
  shows "wp (holds E i) Q t"
  by (rule wp_mono [OF wp_result [OF wp_holds [where Q = "\<lambda>r t'. same_base kv t t' \<and> view kv t' = view kv t"] holds_result]])
    (use assms in auto)

lemma task_fulfill_unleased_spec:
  assumes b: "begun E kv t" and c: "queue_contract E kv"
    and v: "ac_kind (tf_action d) = ''promise.settle''" "ps_id (ac_data (tf_action d)) = tf_id d"
    and p: "promise_in E (view kv t) (tf_id d) = Some p" "\<not> expired (now t) (sp_record p)"
    and k: "\<not> (\<exists>k. task_in E (view kv t) (tf_id d) = Some k \<and> is_acquired_at k (tf_version d)
      \<and> txn_leased E t (tf_id d))"
  shows "wp (task_fulfill E d) (answers E kv t (refused (view kv t))) t"
proof -
  note inv = begun_inv [OF b]
  have "wp (bnd (holds E (t_id k)) (\<lambda>held. if \<not> held then finished E invalid_state else m))
      (answers E kv t (refused (view kv t))) t"
    if k': "task_in E (view kv t) (tf_id d) = Some k" "is_acquired_at k (tf_version d)" for k m
  proof -
    have "\<not> txn_leased E t (t_id k)"
      using task_in_id [OF tx_invD(1) [OF inv] k'(1)] k k' by auto
    then show ?thesis
      by (intro wp_bnd wp_holds_unleased [where kv = kv])
        (auto simp: invalid_state_def intro!: answers_refused [OF b c] tx_inv_view [OF inv])
  qed
  then show ?thesis
    unfolding task_fulfill_def Let_def v
    by (simp only: simp_thms if_False, intro wp_timeout_live [OF b c p] answers_get_task [OF b c inv] wp_case_option wp_if
        answers_get_promise [OF b c inv])
      (auto simp: invalid_state_def p intro!: answers_refused [OF b c inv])
qed

lemma task_suspend_unleased_spec:
  assumes b: "begun E kv t" and c: "queue_contract E kv"
    and v: "ts_actions d \<noteq> []" "awaited_of (ts_id d) (ts_actions d) [] = Inr ids"
    and p: "\<forall>i \<in> insert (ts_id d) (set ids). \<forall>p. promise_in E (view kv t) i = Some p \<longrightarrow> \<not> expired (now t) (sp_record p)"
    and k: "\<not> (\<exists>k. task_in E (view kv t) (ts_id d) = Some k \<and> is_acquired_at k (ts_version d)
      \<and> txn_leased E t (ts_id d))"
  shows "wp (task_suspend E d) (answers E kv t (refused (view kv t))) t"
proof -
  note inv = begun_inv [OF b]
  have "wp (bnd (if is_acquired_at k (ts_version d) then holds E (t_id k) else ret False) (\<lambda>held.
        if \<not> held then finished E (err 409 ''Task is not acquired or version mismatch'') else m))
      (answers E kv t (refused (view kv t))) t"
    if k': "task_in E (view kv t) (ts_id d) = Some k" for k m
  proof (cases "is_acquired_at k (ts_version d)")
    case True
    then have "\<not> txn_leased E t (t_id k)"
      using task_in_id [OF tx_invD(1) [OF inv] k'] k k' by auto
    with True show ?thesis
      by (simp, intro wp_bnd wp_holds_unleased [where kv = kv])
        (auto intro!: answers_refused [OF b c] tx_inv_view [OF inv])
  qed (auto intro!: answers_refused [OF b c inv])
  with p show ?thesis
    unfolding task_suspend_def v(2) sum.case
    by (simp only: v(1) if_False, intro wp_timeouts_live [OF b c] answers_get_task [OF b c inv] wp_case_option)
      (auto intro!: answers_refused [OF b c inv])
qed

section \<open>Leases that last\<close>

text \<open>
  A lease lasts when it is live and is acknowledged, whatever job ids are drawn from the queue
  meanwhile: the only thing the kernel does with the queue before the acknowledgement.
\<close>

definition drawn :: "('q, 'x) env_scheme \<Rightarrow> 'q \<Rightarrow> 'q \<Rightarrow> bool" where
  "drawn E q q' \<longleftrightarrow> q' = snd (q_next_job_id E q)"

definition lasting :: "('q, 'x) env_scheme \<Rightarrow> i64 \<Rightarrow> claim \<Rightarrow> 'q \<Rightarrow> bool" where
  "lasting E time c q \<longleftrightarrow> (\<forall>q'. (drawn E)\<^sup>*\<^sup>* q q' \<longrightarrow>
     (\<exists>x. q_lease_expiry E q' (c_queue c) (c_id c) = Some x \<and> lt64 time (clamp_i64 x))
     \<and> (\<forall>ef q''. q_ack_with E q' c ef \<noteq> (Inl ClaimLost, q'')))"

definition holding :: "('q, 'x) env_scheme \<Rightarrow> string \<Rightarrow> claim \<Rightarrow> 'q txn \<Rightarrow> bool" where
  "holding E i c t \<longleftrightarrow> held t i = Some c \<and> lasting E (now t) c (queue t) \<and> quiet t"

lemma lasting_drawn: "lasting E time c q \<Longrightarrow> q_next_job_id E q = (job, q') \<Longrightarrow> lasting E time c q'"
  unfolding lasting_def by (metis converse_rtranclp_into_rtranclp drawn_def snd_conv)

interpretation holding: buffered_property E "holding E i c"
  for E :: "('q, 'x) env_scheme" and i :: string and c :: claim
  by unfold_locales (auto simp: holding_def quiet_def intro: lasting_drawn)

lemma holding_live: "holding E i c t \<Longrightarrow> live E t c"
proof -
  assume "holding E i c t"
  then have "\<exists>x. q_lease_expiry E (queue t) (c_queue c) (c_id c) = Some x \<and> lt64 (now t) (clamp_i64 x)"
    unfolding holding_def lasting_def by blast
  then show "live E t c" by (auto simp: live_def)
qed

lemma holding_holds: "holding E i c t \<Longrightarrow> holds E i t = (Inr True, t)"
  using holding_live [of E i c t] by (intro holds_leased) (auto simp: txn_leased_def holding_def)

text \<open>A settlement under a lease that lasts is not answered with a conflict.\<close>

definition no_conflict :: "error + reply \<Rightarrow> 'q txn \<Rightarrow> bool" where
  "no_conflict r t \<longleftrightarrow> (\<forall>reply. r = Inr reply \<longrightarrow> status reply \<noteq> 409)"

lemma settlement_holding:
  assumes "holding E i c t" "status reply \<noteq> 409"
  shows "wp (commit_settlement E i reply) no_conflict t"
proof -
  have "commit_ack E i t \<noteq> (Inl (Storage ClaimLost), t')" for t'
  proof
    assume lost: "commit_ack E i t = (Inl (Storage ClaimLost), t')"
    have ack: "q_ack_with E (queue t) c ef \<noteq> (Inl ClaimLost, q')" for ef q'
      using assms(1) unfolding holding_def lasting_def by blast
    have "quiet (drop_claim i (t\<lparr>writes := om_empty, enqueues := [], queue := q'\<rparr>))" for q'
      using assms(1) by (simp add: holding_def quiet_def drop_claim_def)
    then have fin: "finish E (drop_claim i (t\<lparr>writes := om_empty, enqueues := [], queue := q'\<rparr>))
        \<noteq> (Inl (Storage ClaimLost), t'')" for q' t''
      using finish_quiet by metis
    show False
      using lost ack fin holding_live [OF assms(1)] assms(1)
      unfolding run_commit_ack
      by (auto simp: holding_def split: option.splits if_splits prod.splits sum.splits)
  qed
  then show ?thesis
    using assms(2) by (auto simp: wp_def no_conflict_def commit_settlement_def split: prod.split sum.split)
qed

lemma wp_kept:
  assumes "keeping I m" "I t" "\<And>x t'. I t' \<Longrightarrow> wp (f x) no_conflict t'"
  shows "wp (bnd m f) no_conflict t"
proof -
  have "wp m (\<lambda>_ t'. I t') t"
    using assms(1,2) by (auto simp: wp_def keeping_def split: prod.split dest: spec [where x = t])
  then have "wp m (\<lambda>r t'. case r of Inl e \<Rightarrow> no_conflict (Inl e) t' | Inr x \<Rightarrow> wp (f x) no_conflict t') t"
    by (rule wp_mono) (auto simp: no_conflict_def assms(3) split: sum.split)
  then show ?thesis by (rule wp_bnd)
qed

lemma wp_bnd_always: "(\<And>x t'. wp (f x) no_conflict t') \<Longrightarrow> wp (bnd m f) no_conflict t"
  by (rule wp_bnd) (auto simp: wp_def no_conflict_def split: prod.split sum.split)

lemma wp_timeouts_no_conflict:
  assumes "begun E kv t" "queue_contract E kv"
    and "\<forall>i \<in> set ids. \<forall>p. promise_in E (view kv t) i = Some p \<longrightarrow> \<not> expired (now t) (sp_record p)"
    and "wp m no_conflict t"
  shows "wp (andthen (try_timeout E ids) m) no_conflict t"
  by (rule wp_andthenI [OF timeouts_live [OF assms(1-3)]]) (use assms(4) in \<open>auto simp: no_conflict_def\<close>)

lemma wp_found_no_conflict:
  assumes "queue_contract E kv" "readable E (view kv t)"
  shows "task_in E (view kv t) i = Some k \<Longrightarrow> wp (f (Some k)) no_conflict t \<Longrightarrow> wp (bnd (get_task E i) f) no_conflict t"
    and "promise_in E (view kv t) i = Some p \<Longrightarrow> wp (g (Some p)) no_conflict t \<Longrightarrow> wp (bnd (get_promise E i) g) no_conflict t"
  by (rule wp_bnd, (rule wp_get_task [OF assms] wp_get_promise [OF assms]); simp add: no_conflict_def)+

lemma wp_holds_held: "holding E i c t \<Longrightarrow> wp (f True) no_conflict t \<Longrightarrow> wp (bnd (holds E i) f) no_conflict t"
  by (simp add: wp_def run_bnd holding_holds)

text \<open>A worker that holds its task under a lease that lasts is not refused.\<close>

lemma task_fulfill_held:
  assumes b: "begun E kv t" and c: "queue_contract E kv"
    and v: "ac_kind (tf_action d) = ''promise.settle''" "ps_id (ac_data (tf_action d)) = tf_id d"
    and p: "promise_in E (view kv t) (tf_id d) = Some p" "\<not> expired (now t) (sp_record p)"
    and k: "task_in E (view kv t) (tf_id d) = Some k" "is_acquired_at k (tf_version d)"
    and h: "holding E (tf_id d) cl t"
  shows "wp (task_fulfill E d) no_conflict t"
proof -
  have good: "good E (view kv t)" using tx_invD(1) [OF begun_inv [OF b]] .
  note found = wp_found_no_conflict [OF c goodD(1) [OF good]]
  have i: "t_id k = tf_id d" using task_in_id [OF good k(1)] .
  let ?s = "ac_data (tf_action d)"
  have "wp (bnd (settle_pending E p (ps_state ?s) (ps_value ?s)) (\<lambda>p'.
      commit_settlement E (t_id k) (promise_reply (sp_record p')))) no_conflict t"
    by (rule wp_kept [OF holding.kept_settle h], unfold i, rule settlement_holding) (simp_all add: promise_reply_def)
  then have "wp (bnd (holds E (t_id k)) (\<lambda>held. if \<not> held then finished E invalid_state
      else bnd (settle_pending E p (ps_state ?s) (ps_value ?s)) (\<lambda>p'.
        commit_settlement E (t_id k) (promise_reply (sp_record p'))))) no_conflict t"
    unfolding i by (intro wp_holds_held [OF h]) simp
  note at_promise = found(2) [OF p(1), where g = "\<lambda>x. case x of None \<Rightarrow> finished E (err 404 ''Promise not found'')
      | Some promise \<Rightarrow> bnd (holds E (t_id k)) (\<lambda>held. if \<not> held then finished E invalid_state
          else bnd (settle_pending E promise (ps_state ?s) (ps_value ?s)) (\<lambda>p'.
            commit_settlement E (t_id k) (promise_reply (sp_record p'))))", unfolded option.case, OF this]
  show ?thesis
    unfolding task_fulfill_def Let_def v
    by (simp only: simp_thms if_False, rule wp_timeouts_no_conflict [OF b c], use p in simp,
        rule found(1) [OF k(1)], use k(2) at_promise in simp)
qed

lemma task_suspend_held:
  assumes b: "begun E kv t" and c: "queue_contract E kv"
    and v: "ts_actions d \<noteq> []" "awaited_of (ts_id d) (ts_actions d) [] = Inr ids"
    and p: "\<forall>i \<in> insert (ts_id d) (set ids). \<forall>p. promise_in E (view kv t) i = Some p \<longrightarrow> \<not> expired (now t) (sp_record p)"
    and k: "task_in E (view kv t) (ts_id d) = Some k" "is_acquired_at k (ts_version d)"
    and a: "awaitable E (view kv t) ids = Inr ps"
    and h: "holding E (ts_id d) cl t"
  shows "wp (task_suspend E d) no_conflict t"
proof -
  have good: "good E (view kv t)" using tx_invD(1) [OF begun_inv [OF b]] .
  note found = wp_found_no_conflict [OF c goodD(1) [OF good]]
  have i: "t_id k = ts_id d" using task_in_id [OF good k(1)] .
  have settled: "wp (suspend_on E (ts_id d) k ps) no_conflict t"
    if "list_ex (\<lambda>promise. \<not> is_pending (sp_record promise)) ps"
    using that unfolding suspend_on_def Let_def andthen_def finished_def
    by (simp only: if_True, intro wp_bnd_always) (simp add: no_conflict_def)
  have pending: "wp (suspend_on E (ts_id d) k ps) no_conflict t"
    if "\<not> list_ex (\<lambda>promise. \<not> is_pending (sp_record promise)) ps"
    using that unfolding suspend_on_def Let_def andthen_def
    by (simp only: if_False, intro wp_kept [OF holding.kept_registers h] wp_kept [OF holding.kept_put(1)]
        settlement_holding) (assumption | simp add: empty_reply_def)+
  have loaded: "wp (bnd (load_awaited E ids) (\<lambda>loaded. case loaded of
      Inl reply \<Rightarrow> finished E reply
    | Inr awaited \<Rightarrow> suspend_on E (ts_id d) k awaited)) no_conflict t"
  proof (rule wp_bnd, rule wp_mono [OF load_awaited_spec [OF c begun_inv [OF b]]])
    fix r t' assume "keeps E kv t (\<lambda>x t'. t' = t \<and> x = awaitable E (view kv t) ids) r t'"
    then show "case r of Inl e \<Rightarrow> no_conflict (Inl e) t' | Inr x \<Rightarrow> wp (case x of
        Inl reply \<Rightarrow> finished E reply | Inr awaited \<Rightarrow> suspend_on E (ts_id d) k awaited) no_conflict t'"
      using settled pending by (auto simp: keeps_def a no_conflict_def split: sum.splits)
  qed
  have "wp (bnd (if is_acquired_at k (ts_version d) then holds E (t_id k) else ret False) (\<lambda>held.
      if \<not> held then finished E (err 409 ''Task is not acquired or version mismatch'')
      else bnd (load_awaited E ids) (\<lambda>loaded. case loaded of
        Inl reply \<Rightarrow> finished E reply
      | Inr awaited \<Rightarrow> suspend_on E (ts_id d) k awaited))) no_conflict t"
    using k(2) loaded unfolding i by (simp, intro wp_holds_held [OF h]) simp
  with k(1) p show ?thesis
    unfolding task_suspend_def v(2) sum.case
    by (simp only: v(1) if_False, intro wp_timeouts_no_conflict [OF b c] found(1) [OF k(1)]) auto
qed

text \<open>A task held firmly: the store holds its claim, whose lease lasts.\<close>

definition firmly_held :: "('q, 'x) env_scheme \<Rightarrow> store_options \<Rightarrow> 'q world \<Rightarrow> string \<Rightarrow> bool" where
  "firmly_held E opts w i \<longleftrightarrow> (\<exists>c. w_held w i = Some c \<and> lasting E (shared_now E w) c (w_queue w))"

lemma firmly_holding:
  assumes "serving E kv w" "firmly_held E opts w i"
  obtains c where "holding E i c (shared_txn E opts w)"
  using assms quiet_begun [OF begun_shared [OF assms(1), of opts]]
  by (auto simp: firmly_held_def holding_def)

lemma locked_no_conflict:
  assumes "wp m no_conflict (shared_txn E opts w)" "locked E opts m w = (Inr reply, w')"
  shows "status reply \<noteq> 409"
  using assms by (auto simp: wp_def no_conflict_def locked_def split: prod.splits)

end
