(* ===== verification/Task_Properties.thy ===== *)
theory Task_Properties
  imports Promise_Properties Leases
begin

text \<open>
  What the task requests promise to a worker: a task is worked on by at most the holder of a
  live lease at its current version, and a request that lost its lease or names an old version
  leaves every record as it is.
\<close>

definition unchanged :: "('q, 'x) env_scheme \<Rightarrow> store \<Rightarrow> store \<Rightarrow> bool" where
  "unchanged E V W \<longleftrightarrow> promise_in E W = promise_in E V \<and> task_in E W = task_in E V
     \<and> schedule_in E W = schedule_in E V"

text \<open>Only the task at \<open>i\<close> changes, to \<open>k\<close>.\<close>

definition task_becomes ::
  "('q, 'x) env_scheme \<Rightarrow> string \<Rightarrow> stored_task \<Rightarrow> store \<Rightarrow> store \<Rightarrow> bool" where
  "task_becomes E i k V W \<longleftrightarrow> task_in E W = (task_in E V)(i \<mapsto> k)
     \<and> promise_in E W = promise_in E V \<and> schedule_in E W = schedule_in E V"

lemma unchanged_refl [simp]: "unchanged E V V"
  by (simp add: unchanged_def)

lemma over_same:
  assumes "promise_in E D = promise_in E V" "task_in E D = task_in E V" "schedule_in E D = schedule_in E V"
  shows "only_task E i k D W \<longleftrightarrow> task_becomes E i k V W" "unchanged E D W \<longleftrightarrow> unchanged E V W"
    "unchanged E V D"
  using assms by (simp_all add: only_task_def task_becomes_def unchanged_def)

lemma shared_view: "view kv (shared_txn E opts w) = kv (w_queue w)"
  by (simp add: shared_txn_def new_txn_def view_def fun_eq_iff)

section \<open>Acquiring\<close>

text \<open>
  C16: A worker that names the version of a delivered task whose claim has a live lease acquires
  it: the version advances by one, the worker's process and time to live are recorded, the
  resumes are cleared, and no other record changes.
\<close>

theorem task_acquire_leased:
  assumes "serving E kv w" "promise_in E (kv (w_queue w)) (ta_id d) = Some p"
    and "\<not> expired (shared_now E w) (sp_record p)"
    and "task_in E (kv (w_queue w)) (ta_id d) = Some k" "t_state k = TPending" "t_version k = ta_version d"
    and "w_held w (ta_id d) = Some c" "live E (shared_txn E opts w) c"
    and "q_renew_lease E (w_queue w) c (lease_of (ta_ttl d)) = (Inr (), q')"
  shows "responds E kv opts w (task_acquire E d) (\<lambda>reply W. status reply = 200
    \<and> task_becomes E (ta_id d) (k\<lparr>t_state := TAcquired, t_version := t_version k + 1,
        t_pid := Some (ta_pid d), t_ttl := Some (ta_ttl d), t_resumes := om_empty\<rparr>) (kv (w_queue w)) W)"
proof (rule respondsI [OF assms(1) honest_task_requests(4) task_acquire_leased_spec
      [OF begun_shared [OF assms(1)] serving_contract [OF assms(1)]]])
  show "promise_in E (view kv (shared_txn E opts w)) (ta_id d) = Some p"
    "task_in E (view kv (shared_txn E opts w)) (ta_id d) = Some k"
    using assms by (simp_all add: shared_view)
qed (use assms in \<open>auto simp: shared_view only_task_def task_becomes_def acquired_def\<close>)

definition demo_acquire :: task_acquire_data where
  "demo_acquire = \<lparr>ta_id = ''idle'', ta_version = 0, ta_pid = ''p2'', ta_ttl = 100\<rparr>"

lemma demo_acquire_simps [simp]:
  "ta_id demo_acquire = ''idle''" "ta_version demo_acquire = 0" "ta_ttl demo_acquire = 100"
  by (simp_all add: demo_acquire_def)

lemma demo_claims [simp]:
  "w_held demo ''idle'' = Some (mem_claim ''job2'' (demo_job ''idle''))"
  "w_held demo ''work'' = Some (mem_claim ''job1'' (demo_job ''work''))"
  "w_held demo ''root'' = None"
  by (simp_all add: demo_def)

lemma demo_jobs [simp]:
  "om_get (m_jobs (w_queue demo)) ''job1'' = Some (demo_job ''work'')"
  "om_get (m_jobs (w_queue demo)) ''job2'' = Some (demo_job ''idle'')"
  "mj_lease (demo_job i) = Some 100"
  by (simp_all add: demo_def demo_queue_def demo_job_def)

lemma demo_live [simp]:
  "live mem_env (shared_txn mem_env opts demo) (mem_claim ''job2'' (demo_job ''idle''))"
  "live mem_env (shared_txn mem_env opts demo) (mem_claim ''job1'' (demo_job ''work''))"
  by (simp_all add: live_def mem_expiry_def mem_claim_def clamp_i64_def i64_max_def)

lemma demo_renew:
  "\<exists>q'. q_renew_lease mem_env (w_queue demo) (mem_claim ''job2'' (demo_job ''idle'')) l = (Inr (), q')"
  by (simp add: mem_renew_def mem_settle_def mem_leased_def mem_claim_def)

theorem task_acquire_leased_witness:
  "\<exists>reply w' k. locked mem_env default_options (task_acquire mem_env demo_acquire) demo = (Inr reply, w')
     \<and> task_in mem_env (mem_store (w_queue w')) ''idle'' = Some k \<and> t_version k = 1 \<and> t_state k = TAcquired"
proof -
  obtain q' where q': "q_renew_lease mem_env (w_queue demo) (mem_claim ''job2'' (demo_job ''idle'')) (lease_of 100)
      = (Inr (), q')"
    using demo_renew by blast
  show ?thesis
    using demo_responds [OF task_acquire_leased [where d = demo_acquire and p = idle_promise and k = idle_task
          and opts = default_options and c = "mem_claim ''job2'' (demo_job ''idle'')", OF demo_serving]] q'
    by (force simp: task_becomes_def expired_def)
qed

text \<open>The text of such a request, sent to the example store.\<close>

lemma acquire_parsed: "parse_request mem_env ''acquire'' = Inr \<lparr>rq_kind = ''task.acquire'',
    rq_head = \<lparr>hd_corr_id = ''3'', hd_version = None\<rparr>, rq_data = jget acquire_json ''data''\<rparr>"
  by code_simp

lemma acquire_decoded: "dec_task_acquire (jget acquire_json ''data'') = Some demo_acquire"
  by code_simp

lemma acquire_handled: "handle mem_env ''task.acquire'' c (jget acquire_json ''data'') = task_acquire mem_env demo_acquire"
  by (simp add: handle_def parsed_def acquire_decoded)

lemma acquire_sent:
  obtains out w' k where "send_timed mem_env default_options ''acquire'' demo = (out, w')"
    and "task_in mem_env (mem_store (w_queue w')) ''idle'' = Some k" "t_state k = TAcquired"
proof -
  let ?c = "mem_claim ''job2'' (demo_job ''idle'')"
  obtain q' where q': "q_renew_lease mem_env (w_queue demo) ?c (lease_of 100) = (Inr (), q')"
    using demo_renew by blast
  have "responds mem_env mem_store default_options demo (task_acquire mem_env demo_acquire) (\<lambda>_ W.
      \<exists>k. task_in mem_env W ''idle'' = Some k \<and> t_state k = TAcquired)"
    by (rule respondsI [OF demo_serving honest_task_requests(4) task_acquire_leased_spec
          [OF begun_shared [OF demo_serving] mem_contract, where p = idle_promise and k = idle_task and cl = ?c]])
      (use q' in \<open>auto simp: shared_view only_task_def expired_def\<close>)
  from demo_responds [OF this] obtain reply w' k where
    run: "locked mem_env default_options (task_acquire mem_env demo_acquire) demo = (Inr reply, w')"
    and k: "task_in mem_env (mem_store (w_queue w')) ''idle'' = Some k" "t_state k = TAcquired"
    by (elim exE conjE)
  have "\<exists>out. send_timed mem_env default_options ''acquire'' demo = (out, w')"
    by (simp add: send_timed_def acquire_parsed acquire_handled run)
  then show thesis using that [OF _ k] by (elim exE)
qed

text \<open>
  C17: Fencing: an acquisition changes no record, and answers with a conflict or 404, unless the
  task is pending, at the version the worker names, and delivered with a lease that is live.
\<close>

theorem task_acquire_fenced:
  assumes "serving E kv w" "promise_in E (kv (w_queue w)) (ta_id d) = Some p"
    and "\<not> expired (shared_now E w) (sp_record p)"
    and "\<not> (\<exists>k. task_in E (kv (w_queue w)) (ta_id d) = Some k \<and> t_state k = TPending
      \<and> t_version k = ta_version d \<and> leased E opts w (ta_id d))"
  shows "responds E kv opts w (task_acquire E d)
    (\<lambda>reply W. status reply \<in> {404, 409} \<and> unchanged E (kv (w_queue w)) W)"
proof (rule respondsI [OF assms(1) honest_task_requests(4) task_acquire_unleased_spec
      [OF begun_shared [OF assms(1)] serving_contract [OF assms(1)]]])
  show "promise_in E (view kv (shared_txn E opts w)) (ta_id d) = Some p"
    using assms by (simp add: shared_view)
qed (use assms in \<open>auto simp: shared_view leased_txn refused_def\<close>)

definition demo_acquire_stale :: task_acquire_data where
  "demo_acquire_stale = \<lparr>ta_id = ''work'', ta_version = 0, ta_pid = ''p2'', ta_ttl = 100\<rparr>"

theorem task_acquire_fenced_witness:
  "\<exists>reply w'. locked mem_env default_options (task_acquire mem_env demo_acquire_stale) demo = (Inr reply, w')
     \<and> status reply \<in> {404, 409}
     \<and> task_in mem_env (mem_store (w_queue w')) = task_in mem_env (mem_store (w_queue demo))"
  using demo_responds [OF task_acquire_fenced [where d = demo_acquire_stale and p = work_promise
        and opts = default_options, OF demo_serving]]
  by (simp add: demo_acquire_stale_def expired_def unchanged_def) blast

section \<open>Fulfilling\<close>

lemma fulfill_outcome:
  assumes "serving E kv w" "ac_kind (tf_action d) = ''promise.settle''" "ps_id (ac_data (tf_action d)) = tf_id d"
    and "promise_in E (kv (w_queue w)) (tf_id d) = Some p" "\<not> expired (shared_now E w) (sp_record p)"
    and "task_in E (kv (w_queue w)) (tf_id d) = Some k"
  shows "responds E kv opts w (task_fulfill E d) (\<lambda>reply W.
    status reply = 409 \<and> unchanged E (kv (w_queue w)) W
    \<or> t_state k = TAcquired \<and> t_version k = tf_version d \<and> is_pending (sp_record p)
      \<and> (\<exists>r. r = (sp_record p)\<lparr>p_state := settled_as (ps_state (ac_data (tf_action d))),
             p_value := ps_value (ac_data (tf_action d)), p_settled_at := Some (shared_now E w)\<rparr>
           \<and> reply = promise_reply r \<and> settlement E (tf_id d) p r (kv (w_queue w)) W))" (is "responds E kv opts w ?m ?P")
proof (rule responds_live_or_lost [OF assms(1) honest_task_requests(8) task_fulfill_spec
      [OF begun_shared [OF assms(1)] serving_contract [OF assms(1)] assms(2,3)]])
  fix D reply W
  let ?r = "settled_record (shared_now E w) (ps_state (ac_data (tf_action d))) (ps_value (ac_data (tf_action d))) (sp_record p)"
  assume D: "good E D" and eq: "promise_in E D = promise_in E (kv (w_queue w))"
      "task_in E D = task_in E (kv (w_queue w))" "schedule_in E D = schedule_in E (kv (w_queue w))"
    and run: "fulfilled E (now (shared_txn E opts w)) d D reply W"
  have p: "promise_in E D (tf_id d) = Some p" using eq assms(4) by simp
  consider "W = D" "reply = invalid_state" | "is_acquired_at k (tf_version d)" "is_pending (sp_record p)"
      "settled_store E (shared_now E w) (tf_id d) p ?r D W" "reply = promise_reply ?r"
    using run assms(4,6) eq by (auto simp: fulfilled_def Let_def)
  then show "?P reply W"
  proof cases
    case 1
    with over_same(3) [OF eq] show ?thesis by (simp add: invalid_state_def)
  next
    case 2
    with assms(5) have "lt64 (shared_now E w) (p_timeout_at (sp_record p))"
      by (simp add: expired_def)
    with 2 settlement_same [OF settled_store_settlement [OF D p 2(2) by_client 2(3)] eq]
    show ?thesis
      unfolding settled_record_def is_acquired_at_def by blast
  qed
qed (use assms(4,5) in \<open>auto simp: invalid_state_def\<close>)

lemma fulfill_firm:
  assumes "serving E kv w" "ac_kind (tf_action d) = ''promise.settle''" "ps_id (ac_data (tf_action d)) = tf_id d"
    and "promise_in E (kv (w_queue w)) (tf_id d) = Some p" "\<not> expired (shared_now E w) (sp_record p)"
    and "task_in E (kv (w_queue w)) (tf_id d) = Some k" "is_acquired_at k (tf_version d)"
    and "firmly_held E opts w (tf_id d)" "locked E opts (task_fulfill E d) w = (Inr reply, w')"
  shows "status reply \<noteq> 409"
proof -
  obtain c where "holding E (tf_id d) c (shared_txn E opts w)"
    using firmly_holding [OF assms(1,8)] by metis
  then have "wp (task_fulfill E d) no_conflict (shared_txn E opts w)"
    by (intro task_fulfill_held [OF begun_shared [OF assms(1)] serving_contract [OF assms(1)] assms(2,3)])
      (use assms(4-7) in \<open>simp_all add: shared_view\<close>)
  then show ?thesis by (rule locked_no_conflict [OF _ assms(9)])
qed

text \<open>
  C18: Fulfilling a task settles its promise with the given state and value and fulfils the task,
  when the task is acquired at the version the worker names; otherwise, and when the lease is
  found lost at the commit, the answer is a conflict and no record changes.  A worker that names
  the version of its task and whose lease lasts is not answered with a conflict.
\<close>

theorem task_fulfill_settles:
  assumes "serving E kv w" "ac_kind (tf_action d) = ''promise.settle''" "ps_id (ac_data (tf_action d)) = tf_id d"
    and "promise_in E (kv (w_queue w)) (tf_id d) = Some p" "\<not> expired (shared_now E w) (sp_record p)"
    and "task_in E (kv (w_queue w)) (tf_id d) = Some k"
  shows "responds E kv opts w (task_fulfill E d) (\<lambda>reply W.
    status reply = 409 \<and> unchanged E (kv (w_queue w)) W
    \<or> t_state k = TAcquired \<and> t_version k = tf_version d \<and> is_pending (sp_record p)
      \<and> (\<exists>r. r = (sp_record p)\<lparr>p_state := settled_as (ps_state (ac_data (tf_action d))),
             p_value := ps_value (ac_data (tf_action d)), p_settled_at := Some (shared_now E w)\<rparr>
           \<and> reply = promise_reply r \<and> settlement E (tf_id d) p r (kv (w_queue w)) W))
    \<and> (is_acquired_at k (tf_version d) \<and> firmly_held E opts w (tf_id d) \<longrightarrow>
        (\<forall>reply w'. locked E opts (task_fulfill E d) w = (Inr reply, w') \<longrightarrow> status reply \<noteq> 409))"
  using fulfill_outcome [OF assms] fulfill_firm [OF assms] by blast

definition demo_fulfill :: task_fulfill_data where
  "demo_fulfill = \<lparr>tf_id = ''work'', tf_version = 1, tf_action = \<lparr>ac_kind = ''promise.settle'',
     ac_data = \<lparr>ps_id = ''work'', ps_state = SResolved, ps_value = default_value\<rparr>\<rparr>\<rparr>"

text \<open>The example's worker holds its task firmly: drawing job ids does not touch the jobs.\<close>

lemma demo_drawn: "(drawn mem_env)\<^sup>*\<^sup>* m m' \<Longrightarrow> m_jobs m' = m_jobs m \<and> m_clock m' = m_clock m"
  by (induction rule: rtranclp_induct) (auto simp: drawn_def mem_next_id_def)

lemma demo_firmly_held: "firmly_held mem_env opts demo ''work''"
proof -
  have "lasting mem_env 0 (mem_claim ''job1'' (demo_job ''work'')) (w_queue demo)"
    using demo_drawn by (force simp: lasting_def mem_claim_def mem_expiry_def mem_ack_with_def mem_settle_def
        mem_leased_def clamp_i64_def i64_max_def)
  then show ?thesis by (simp add: firmly_held_def)
qed

theorem task_fulfill_settles_witness:
  "\<exists>reply w' q. locked mem_env default_options (task_fulfill mem_env demo_fulfill) demo = (Inr reply, w')
     \<and> promise_in mem_env (mem_store (w_queue w')) ''work'' = Some q \<and> p_state (sp_record q) = PResolved"
proof -
  have d: "tf_id demo_fulfill = ''work''" "tf_version demo_fulfill = 1"
    by (simp_all add: demo_fulfill_def)
  have k: "is_acquired_at work_task (tf_version demo_fulfill)"
    by (simp add: d is_acquired_at_def)
  have all: "responds mem_env mem_store default_options demo (task_fulfill mem_env demo_fulfill) (\<lambda>reply W.
      status reply = 409 \<or> (\<exists>r. p_state r = PResolved \<and> settlement mem_env ''work'' work_promise r (mem_store (w_queue demo)) W))
    \<and> (\<forall>reply w'. locked mem_env default_options (task_fulfill mem_env demo_fulfill) demo = (Inr reply, w') \<longrightarrow> status reply \<noteq> 409)"
    using task_fulfill_settles [where d = demo_fulfill and p = work_promise and k = work_task
        and opts = default_options, OF demo_serving] demo_firmly_held k
    by (auto simp: d expired_def demo_fulfill_def elim!: responds_mono)
  from demo_responds [OF conjunct1 [OF all]] all show ?thesis
    by (fastforce simp: settlement_def)
qed

text \<open>
  C19: Fencing: a fulfilment without a live lease on the task, or at another version than the
  task's, changes no record and answers with a conflict or 404.
\<close>

theorem task_fulfill_fenced:
  assumes "serving E kv w" "ac_kind (tf_action d) = ''promise.settle''" "ps_id (ac_data (tf_action d)) = tf_id d"
    and "promise_in E (kv (w_queue w)) (tf_id d) = Some p" "\<not> expired (shared_now E w) (sp_record p)"
    and "\<not> (\<exists>k. task_in E (kv (w_queue w)) (tf_id d) = Some k \<and> is_acquired_at k (tf_version d)
      \<and> leased E opts w (tf_id d))"
  shows "responds E kv opts w (task_fulfill E d)
    (\<lambda>reply W. status reply \<in> {404, 409} \<and> unchanged E (kv (w_queue w)) W)"
proof (rule respondsI [OF assms(1) honest_task_requests(8) task_fulfill_unleased_spec
      [OF begun_shared [OF assms(1)] serving_contract [OF assms(1)] assms(2,3)]])
  show "promise_in E (view kv (shared_txn E opts w)) (tf_id d) = Some p"
    using assms by (simp add: shared_view)
qed (use assms in \<open>auto simp: shared_view leased_txn refused_def\<close>)

definition demo_fulfill_stale :: task_fulfill_data where
  "demo_fulfill_stale = demo_fulfill\<lparr>tf_version := 0\<rparr>"

theorem task_fulfill_fenced_witness:
  "\<exists>reply w'. locked mem_env default_options (task_fulfill mem_env demo_fulfill_stale) demo = (Inr reply, w')
     \<and> status reply \<in> {404, 409}
     \<and> promise_in mem_env (mem_store (w_queue w')) = promise_in mem_env (mem_store (w_queue demo))"
  using demo_responds [OF task_fulfill_fenced [where d = demo_fulfill_stale and p = work_promise
        and opts = default_options, OF demo_serving]]
  by (simp add: demo_fulfill_stale_def demo_fulfill_def expired_def unchanged_def is_acquired_at_def) blast

section \<open>Suspending\<close>

lemma awaitable_all:
  "\<forall>j \<in> set ids. \<exists>p. promise_in E V j = Some p \<and> is_external (sp_record p) \<Longrightarrow>
   \<exists>ps. awaitable E V ids = Inr ps \<and> (\<forall>p. p \<in> set ps \<longleftrightarrow> (\<exists>j \<in> set ids. promise_in E V j = Some p))"
  by (induction ids) auto

text \<open>A suspension whose awaited promises exist and are external, in terms of its specification.\<close>

lemma suspend_awaiting:
  assumes "serving E kv w" "ts_actions d \<noteq> []" "awaited_of (ts_id d) (ts_actions d) [] = Inr ids"
    and "\<forall>i \<in> insert (ts_id d) (set ids). \<forall>p. promise_in E (kv (w_queue w)) i = Some p \<longrightarrow>
      \<not> expired (shared_now E w) (sp_record p)"
    and "task_in E (kv (w_queue w)) (ts_id d) = Some k"
    and "\<forall>j \<in> set ids. \<exists>p. promise_in E (kv (w_queue w)) j = Some p \<and> is_external (sp_record p)"
  shows "responds E kv opts w (task_suspend E d) (\<lambda>reply W.
    let V = kv (w_queue w); k' = k\<lparr>t_resumes := om_empty\<rparr> in
    status reply = 409 \<and> unchanged E V W
    \<or> is_acquired_at k (ts_version d)
      \<and> (if \<exists>j \<in> set ids. \<exists>p. promise_in E V j = Some p \<and> \<not> is_pending (sp_record p)
         then status reply = 300 \<and> task_becomes E (ts_id d) k' V W
         else reply = empty_reply \<and> task_in E W = (task_in E V)(ts_id d \<mapsto> transition k' TSuspended)
           \<and> schedule_in E W = schedule_in E V
           \<and> (\<forall>j. promise_in E W j = map_option (\<lambda>p. if j \<in> set ids then with_callback p (ts_id d) else p)
                (promise_in E V j))))" (is "responds E kv opts w ?m ?P")
proof (rule responds_live_or_lost [OF assms(1) honest_task_requests(9) task_suspend_spec
      [OF begun_shared [OF assms(1)] serving_contract [OF assms(1)] assms(2,3)]])
  fix D reply W
  assume eq: "promise_in E D = promise_in E (kv (w_queue w))"
      "task_in E D = task_in E (kv (w_queue w))" "schedule_in E D = schedule_in E (kv (w_queue w))"
    and run: "suspended E (ts_id d) (ts_version d) ids D reply W"
  obtain ps where ps: "awaitable E D ids = Inr ps"
    "\<And>p. p \<in> set ps \<longleftrightarrow> (\<exists>j \<in> set ids. promise_in E D j = Some p)"
    using awaitable_all [of ids E D] assms(6) eq(1) by auto
  show "?P reply W"
    using run assms(5) ps(2)
    by (auto simp: suspended_def ps(1) eq over_same(2,3) [OF eq] Let_def only_task_def task_becomes_def
        registered_on_def split: if_splits)
qed (use assms(4) in \<open>auto simp: invalid_state_def Let_def\<close>)

lemma suspend_firm:
  assumes "serving E kv w" "ts_actions d \<noteq> []" "awaited_of (ts_id d) (ts_actions d) [] = Inr ids"
    and "\<forall>i \<in> insert (ts_id d) (set ids). \<forall>p. promise_in E (kv (w_queue w)) i = Some p \<longrightarrow>
      \<not> expired (shared_now E w) (sp_record p)"
    and "task_in E (kv (w_queue w)) (ts_id d) = Some k"
    and "\<forall>j \<in> set ids. \<exists>p. promise_in E (kv (w_queue w)) j = Some p \<and> is_external (sp_record p)"
    and "is_acquired_at k (ts_version d)" "firmly_held E opts w (ts_id d)"
    and "locked E opts (task_suspend E d) w = (Inr reply, w')"
  shows "status reply \<noteq> 409"
proof -
  obtain c where "holding E (ts_id d) c (shared_txn E opts w)"
    using firmly_holding [OF assms(1,8)] by metis
  moreover obtain ps where "awaitable E (view kv (shared_txn E opts w)) ids = Inr ps"
    using awaitable_all [of ids E "kv (w_queue w)"] assms(6) by (auto simp: shared_view)
  ultimately have "wp (task_suspend E d) no_conflict (shared_txn E opts w)"
    by (intro task_suspend_held [OF begun_shared [OF assms(1)] serving_contract [OF assms(1)] assms(2,3)])
      (use assms(4,5,7) in \<open>simp_all add: shared_view\<close>)
  then show ?thesis by (rule locked_no_conflict [OF _ assms(9)])
qed

lemma suspend_outcome:
  assumes "serving E kv w" "ts_actions d \<noteq> []" "awaited_of (ts_id d) (ts_actions d) [] = Inr ids"
    and "\<forall>i \<in> insert (ts_id d) (set ids). \<forall>p. promise_in E (kv (w_queue w)) i = Some p \<longrightarrow>
      \<not> expired (shared_now E w) (sp_record p)"
    and "task_in E (kv (w_queue w)) (ts_id d) = Some k"
    and "\<forall>j \<in> set ids. \<exists>p. promise_in E (kv (w_queue w)) j = Some p \<and> is_external (sp_record p)
      \<and> is_pending (sp_record p)"
  shows "responds E kv opts w (task_suspend E d) (\<lambda>reply W.
    status reply = 409 \<and> unchanged E (kv (w_queue w)) W
    \<or> t_state k = TAcquired \<and> t_version k = ts_version d \<and> status reply = 200
      \<and> task_in E W = (task_in E (kv (w_queue w)))(ts_id d \<mapsto>
          k\<lparr>t_state := TSuspended, t_pid := None, t_ttl := None, t_resumes := om_empty\<rparr>)
      \<and> (\<forall>j \<in> set ids. \<exists>q. promise_in E W j = Some q \<and> ts_id d \<in> set (sp_callbacks q)
          \<and> map_option sp_record (promise_in E (kv (w_queue w)) j) = Some (sp_record q))
      \<and> (\<forall>j. j \<notin> set ids \<longrightarrow> promise_in E W j = promise_in E (kv (w_queue w)) j))"
proof (rule responds_mono [OF suspend_awaiting [OF assms(1-5)]])
  show "\<forall>j \<in> set ids. \<exists>p. promise_in E (kv (w_queue w)) j = Some p \<and> is_external (sp_record p)"
    using assms(6) by blast
  have "\<not> (\<exists>j \<in> set ids. \<exists>p. promise_in E (kv (w_queue w)) j = Some p \<and> \<not> is_pending (sp_record p))"
    using assms(6) by auto
  then show "status reply = 409 \<and> unchanged E (kv (w_queue w)) W
    \<or> t_state k = TAcquired \<and> t_version k = ts_version d \<and> status reply = 200
      \<and> task_in E W = (task_in E (kv (w_queue w)))(ts_id d \<mapsto>
          k\<lparr>t_state := TSuspended, t_pid := None, t_ttl := None, t_resumes := om_empty\<rparr>)
      \<and> (\<forall>j \<in> set ids. \<exists>q. promise_in E W j = Some q \<and> ts_id d \<in> set (sp_callbacks q)
          \<and> map_option sp_record (promise_in E (kv (w_queue w)) j) = Some (sp_record q))
      \<and> (\<forall>j. j \<notin> set ids \<longrightarrow> promise_in E W j = promise_in E (kv (w_queue w)) j)"
    if "let V = kv (w_queue w); k' = k\<lparr>t_resumes := om_empty\<rparr> in
      status reply = 409 \<and> unchanged E V W
      \<or> is_acquired_at k (ts_version d)
        \<and> (if \<exists>j \<in> set ids. \<exists>p. promise_in E V j = Some p \<and> \<not> is_pending (sp_record p)
           then status reply = 300 \<and> task_becomes E (ts_id d) k' V W
           else reply = empty_reply \<and> task_in E W = (task_in E V)(ts_id d \<mapsto> transition k' TSuspended)
             \<and> schedule_in E W = schedule_in E V
             \<and> (\<forall>j. promise_in E W j = map_option (\<lambda>p. if j \<in> set ids then with_callback p (ts_id d) else p)
                  (promise_in E V j)))" for reply W
    using that assms(6)
    by (auto simp: Let_def is_acquired_at_def empty_reply_def transition_def option.map_ident)
qed

text \<open>
  C20: A task that suspends on promises that are all pending is registered as an awaiter on every
  one of them, in the same transaction that suspends it, so that whichever is settled first wakes
  it; its version is kept, its process and resumes are cleared.  When the claim is lost the
  answer is a conflict and no record changes, and a worker whose lease lasts is not answered
  with one.
\<close>

theorem task_suspend_registers:
  assumes "serving E kv w" "ts_actions d \<noteq> []" "awaited_of (ts_id d) (ts_actions d) [] = Inr ids"
    and "\<forall>i \<in> insert (ts_id d) (set ids). \<forall>p. promise_in E (kv (w_queue w)) i = Some p \<longrightarrow>
      \<not> expired (shared_now E w) (sp_record p)"
    and "task_in E (kv (w_queue w)) (ts_id d) = Some k"
    and "\<forall>j \<in> set ids. \<exists>p. promise_in E (kv (w_queue w)) j = Some p \<and> is_external (sp_record p)
      \<and> is_pending (sp_record p)"
  shows "responds E kv opts w (task_suspend E d) (\<lambda>reply W.
    status reply = 409 \<and> unchanged E (kv (w_queue w)) W
    \<or> t_state k = TAcquired \<and> t_version k = ts_version d \<and> status reply = 200
      \<and> task_in E W = (task_in E (kv (w_queue w)))(ts_id d \<mapsto>
          k\<lparr>t_state := TSuspended, t_pid := None, t_ttl := None, t_resumes := om_empty\<rparr>)
      \<and> (\<forall>j \<in> set ids. \<exists>q. promise_in E W j = Some q \<and> ts_id d \<in> set (sp_callbacks q)
          \<and> map_option sp_record (promise_in E (kv (w_queue w)) j) = Some (sp_record q))
      \<and> (\<forall>j. j \<notin> set ids \<longrightarrow> promise_in E W j = promise_in E (kv (w_queue w)) j))
    \<and> (is_acquired_at k (ts_version d) \<and> firmly_held E opts w (ts_id d) \<longrightarrow>
        (\<forall>reply w'. locked E opts (task_suspend E d) w = (Inr reply, w') \<longrightarrow> status reply \<noteq> 409))"
proof -
  have "\<forall>j \<in> set ids. \<exists>p. promise_in E (kv (w_queue w)) j = Some p \<and> is_external (sp_record p)"
    using assms(6) by blast
  from suspend_outcome [OF assms] suspend_firm [OF assms(1-5) this] show ?thesis by blast
qed

lemma suspend_awake:
  assumes "serving E kv w" "ts_actions d \<noteq> []" "awaited_of (ts_id d) (ts_actions d) [] = Inr ids"
    and "\<forall>i \<in> insert (ts_id d) (set ids). \<forall>p. promise_in E (kv (w_queue w)) i = Some p \<longrightarrow>
      \<not> expired (shared_now E w) (sp_record p)"
    and "task_in E (kv (w_queue w)) (ts_id d) = Some k"
    and "\<forall>j \<in> set ids. \<exists>p. promise_in E (kv (w_queue w)) j = Some p \<and> is_external (sp_record p)"
    and "j \<in> set ids" "promise_in E (kv (w_queue w)) j = Some q" "\<not> is_pending (sp_record q)"
  shows "responds E kv opts w (task_suspend E d) (\<lambda>reply W.
    status reply = 409 \<and> unchanged E (kv (w_queue w)) W
    \<or> t_state k = TAcquired \<and> t_version k = ts_version d \<and> status reply = 300
      \<and> task_becomes E (ts_id d) (k\<lparr>t_resumes := om_empty\<rparr>) (kv (w_queue w)) W)"
  by (rule responds_mono [OF suspend_awaiting [OF assms(1-6)]])
    (use assms(7-9) in \<open>auto simp: Let_def is_acquired_at_def split: if_splits\<close>)

text \<open>
  C21: A task that suspends on promises one of which is already settled is not suspended: it is
  answered with status 300 and stays acquired at its version, with its resumes cleared, and no
  promise records it as an awaiter; a worker whose lease lasts is not answered with a conflict.
\<close>

theorem task_suspend_settled:
  assumes "serving E kv w" "ts_actions d \<noteq> []" "awaited_of (ts_id d) (ts_actions d) [] = Inr ids"
    and "\<forall>i \<in> insert (ts_id d) (set ids). \<forall>p. promise_in E (kv (w_queue w)) i = Some p \<longrightarrow>
      \<not> expired (shared_now E w) (sp_record p)"
    and "task_in E (kv (w_queue w)) (ts_id d) = Some k"
    and "\<forall>j \<in> set ids. \<exists>p. promise_in E (kv (w_queue w)) j = Some p \<and> is_external (sp_record p)"
    and "j \<in> set ids" "promise_in E (kv (w_queue w)) j = Some q" "\<not> is_pending (sp_record q)"
  shows "responds E kv opts w (task_suspend E d) (\<lambda>reply W.
    status reply = 409 \<and> unchanged E (kv (w_queue w)) W
    \<or> t_state k = TAcquired \<and> t_version k = ts_version d \<and> status reply = 300
      \<and> task_becomes E (ts_id d) (k\<lparr>t_resumes := om_empty\<rparr>) (kv (w_queue w)) W)
    \<and> (is_acquired_at k (ts_version d) \<and> firmly_held E opts w (ts_id d) \<longrightarrow>
        (\<forall>reply w'. locked E opts (task_suspend E d) w = (Inr reply, w') \<longrightarrow> status reply \<noteq> 409))"
  using suspend_awake [OF assms] suspend_firm [OF assms(1-6)] by blast

definition demo_await :: "string \<Rightarrow> task_suspend_data" where
  "demo_await j = \<lparr>ts_id = ''work'', ts_version = 1, ts_actions = [\<lparr>ac_kind = ''promise.register_callback'',
     ac_data = \<lparr>cb_awaited = j, cb_awaiter = ''work''\<rparr>\<rparr>]\<rparr>"

lemma demo_await_simps [simp]:
  "ts_id (demo_await j) = ''work''" "ts_version (demo_await j) = 1" "ts_actions (demo_await j) \<noteq> []"
  by (simp_all add: demo_await_def)

lemma demo_awaited:
  "awaited_of ''work'' (ts_actions (demo_await (''work:'' @ [c]))) [] = Inr [''work:'' @ [c]]"
  using origin_of_colon [of "''work''" "[c]"] by (simp add: demo_await_def validate_callback_def)

lemma demo_await_work:
  "is_acquired_at work_task (ts_version (demo_await j))" "ts_id (demo_await j) = ''work''"
  by (simp_all add: is_acquired_at_def)

theorem task_suspend_registers_witness:
  "\<exists>reply w' q. locked mem_env default_options (task_suspend mem_env (demo_await ''work:1'')) demo = (Inr reply, w')
     \<and> promise_in mem_env (mem_store (w_queue w')) ''work:1'' = Some q \<and> ''work'' \<in> set (sp_callbacks q)"
proof -
  let ?m = "task_suspend mem_env (demo_await ''work:1'')"
  have all: "responds mem_env mem_store default_options demo ?m (\<lambda>reply W. status reply = 409
      \<or> (\<exists>q. promise_in mem_env W ''work:1'' = Some q \<and> ''work'' \<in> set (sp_callbacks q)))
    \<and> (\<forall>reply w'. locked mem_env default_options ?m demo = (Inr reply, w') \<longrightarrow> status reply \<noteq> 409)"
    using task_suspend_registers [where d = "demo_await ''work:1''" and ids = "[''work:1'']"
        and k = work_task and opts = default_options, OF demo_serving] demo_awaited [of "CHR ''1''"]
      demo_firmly_held demo_await_work
    by (auto simp: expired_def elim!: responds_mono)
  from demo_responds [OF conjunct1 [OF all]] all show ?thesis by blast
qed

theorem task_suspend_settled_witness:
  "\<exists>reply w' k. locked mem_env default_options (task_suspend mem_env (demo_await ''work:0'')) demo = (Inr reply, w')
     \<and> status reply = 300 \<and> task_in mem_env (mem_store (w_queue w')) ''work'' = Some k \<and> t_state k = TAcquired"
proof -
  let ?m = "task_suspend mem_env (demo_await ''work:0'')"
  have all: "responds mem_env mem_store default_options demo ?m (\<lambda>reply W. status reply = 409
      \<or> status reply = 300 \<and> task_becomes mem_env ''work'' (work_task\<lparr>t_resumes := om_empty\<rparr>) (mem_store (w_queue demo)) W)
    \<and> (\<forall>reply w'. locked mem_env default_options ?m demo = (Inr reply, w') \<longrightarrow> status reply \<noteq> 409)"
    using task_suspend_settled [where d = "demo_await ''work:0''" and ids = "[''work:0'']"
        and k = work_task and j = "''work:0''" and q = work_settled and opts = default_options, OF demo_serving]
      demo_awaited [of "CHR ''0''"] demo_firmly_held demo_await_work
    by (auto simp: expired_def elim!: responds_mono)
  from demo_responds [OF conjunct1 [OF all]] all show ?thesis
    by (force simp: task_becomes_def)
qed

end
