(* ===== verification/System_Properties.thy ===== *)
theory System_Properties
  imports Waiting Versions Task_Properties
begin

text \<open>
  What holds of the running system, whatever its requests, timers, deliveries and restarts and
  in whatever order they come: the invariant of its records, the refinement of the abstract
  protocol, and what follows from it for a promise or a task over time.
\<close>

section \<open>Stable facts of the abstract protocol\<close>

lemma settled_stable:
  assumes "protocol_step s s'" "a_promise s i = Some p" "\<not> is_pending p"
  shows "a_promise s' i = Some p"
  using assms by (cases rule: protocol_step.cases) auto

lemma promise_frame_stable:
  assumes "protocol_step s s'" "a_promise s i = Some p"
  shows "\<exists>p'. a_promise s' i = Some p' \<and> p_id p' = p_id p \<and> p_param p' = p_param p
    \<and> p_tags p' = p_tags p \<and> p_timeout_at p' = p_timeout_at p \<and> p_created_at p' = p_created_at p"
  using assms by (cases rule: protocol_step.cases) (auto dest: settles_frame)

section \<open>Over every run\<close>

text \<open>
  C1: From a store that is empty under the keys of the crate, whatever requests, timers,
  deliveries, restarts and steps of the queue follow, every stored record decodes and satisfies
  the invariant: a promise has a task exactly when it has a target, the task is fulfilled
  exactly when the promise is settled, only an acquired task has a process and a time to live,
  a settled promise has no registrations, and every registered awaiter has a task.
\<close>

theorem reachable_records_good:
  assumes "queue_contract E kv" "\<And>k. prefix ''resonate/'' k \<Longrightarrow> kv (w_queue w) k = None"
    and "(store_step E kv opts)\<^sup>*\<^sup>* w w'"
  shows "good E (kv (w_queue w'))"
proof -
  have "serving E kv w" using assms(1) good_empty [OF assms(2)] by (simp add: serving_def)
  then show ?thesis using served.reach_inv [OF assms(3)] by (simp add: serving_def)
qed

theorem reachable_records_good_witness:
  "\<exists>w'. (store_step mem_env mem_store default_options)\<^sup>*\<^sup>* (from_queue mem_empty) w'
     \<and> good mem_env (mem_store (w_queue w'))"
  using reachable_records_good [OF mem_contract, where w = "from_queue mem_empty" and opts = default_options]
  by (auto simp: from_queue_def mem_empty_def mem_store_def)

text \<open>
  C2: The whole implementation, with its transactions, indexes, jobs, claims and registrations,
  refines the abstract protocol of promises and tasks: every run from a store with good records
  is a run of the protocol's steps (create, settle, and the moves of a task) on the wire records
  and the states and versions of the tasks.
\<close>

theorem store_refines_protocol:
  assumes "queue_contract E kv" "good E (kv (w_queue w))" "(store_step E kv opts)\<^sup>*\<^sup>* w w'"
  shows "protocol_steps (abs_store E (kv (w_queue w))) (abs_store E (kv (w_queue w')))"
  using served.reach_refines [OF assms(3)] assms(1,2) by (simp add: serving_def abs_world_def)

theorem store_refines_protocol_witness:
  "\<exists>w'. (store_step mem_env mem_store default_options)\<^sup>*\<^sup>* demo w'
     \<and> protocol_steps (abs_store mem_env (mem_store (w_queue demo))) (abs_store mem_env (mem_store (w_queue w')))"
  using store_refines_protocol [OF mem_contract demo_good rtranclp.rtrancl_refl] by blast

text \<open>
  C3: A settled promise is final: whatever happens afterwards, its record, with its state, value
  and time of settlement, is the same for ever.
\<close>

theorem settled_promise_final:
  assumes "queue_contract E kv" "good E (kv (w_queue w))" "(store_step E kv opts)\<^sup>*\<^sup>* w w'"
    and "promise_in E (kv (w_queue w)) i = Some p" "\<not> is_pending (sp_record p)"
  shows "map_option sp_record (promise_in E (kv (w_queue w')) i) = Some (sp_record p)"
  using served.reach_stable [where P = "\<lambda>a. a_promise a i = Some (sp_record p)", OF _ assms(3)]
    settled_stable assms(1,2,4,5) by (simp add: serving_def abs_world_def)

theorem settled_promise_final_witness:
  "map_option sp_record (promise_in mem_env (mem_store (w_queue demo)) ''old'') = Some (sp_record old_promise)"
  by (rule settled_promise_final [OF mem_contract demo_good rtranclp.rtrancl_refl]) simp_all

text \<open>
  C6: The identity of a promise never changes: once created, its id, parameter, tags, deadline
  and time of creation are the same for ever, and the promise is never deleted.
\<close>

theorem promise_identity_stable:
  assumes "queue_contract E kv" "good E (kv (w_queue w))" "(store_step E kv opts)\<^sup>*\<^sup>* w w'"
    and "promise_in E (kv (w_queue w)) i = Some p"
  shows "\<exists>q. promise_in E (kv (w_queue w')) i = Some q \<and> p_id (sp_record q) = p_id (sp_record p)
    \<and> p_param (sp_record q) = p_param (sp_record p) \<and> p_tags (sp_record q) = p_tags (sp_record p)
    \<and> p_timeout_at (sp_record q) = p_timeout_at (sp_record p)
    \<and> p_created_at (sp_record q) = p_created_at (sp_record p)"
proof -
  let ?P = "\<lambda>a. \<exists>q. a_promise a i = Some q \<and> p_id q = p_id (sp_record p) \<and> p_param q = p_param (sp_record p)
    \<and> p_tags q = p_tags (sp_record p) \<and> p_timeout_at q = p_timeout_at (sp_record p)
    \<and> p_created_at q = p_created_at (sp_record p)"
  have "?P a'" if "?P a" "protocol_step a a'" for a a'
    using that promise_frame_stable [OF that(2), of i] by fastforce
  then have "?P (abs_world E kv w')"
    by (rule served.reach_stable [OF _ assms(3)]) (use assms in \<open>simp_all add: serving_def abs_world_def\<close>)
  then show ?thesis by (auto simp: abs_world_def)
qed

theorem promise_identity_stable_witness:
  "\<exists>q. promise_in mem_env (mem_store (w_queue demo)) ''root'' = Some q \<and> p_timeout_at (sp_record q) = 1000"
  using promise_identity_stable [OF mem_contract demo_good rtranclp.rtrancl_refl, where i = "''root''"]
  by simp

text \<open>
  C5: Versions fence: over a run of any steps of the system, the version of a task has advanced by
  exactly the number of the run's steps that acquired the task, so no two acquisitions have the
  same version while the versions fit their width; and a fulfilled task stays fulfilled, at its
  version, and is never acquired again.
\<close>

theorem task_version_advances:
  assumes "queue_contract E kv" "good E (kv (w_queue (f 0)))"
    and "\<forall>s < n. store_step E kv opts (f s) (f (Suc s))"
    and "task_in E (kv (w_queue (f 0))) i = Some k"
  shows "\<exists>k'. task_in E (kv (w_queue (f n))) i = Some k'
    \<and> t_version k' = t_version k + of_nat (card (acquisitions E kv i f n))
    \<and> (sint (t_version k) + int (card (acquisitions E kv i f n)) < 2 ^ 63 \<longrightarrow>
         sint (t_version k') = sint (t_version k) + int (card (acquisitions E kv i f n)))
    \<and> (t_state k = TFulfilled \<longrightarrow> t_state k' = TFulfilled \<and> acquisitions E kv i f n = {})"
proof -
  have "serving E kv (f 0)" using assms(1,2) by (simp add: serving_def)
  from run_counts [OF assms(3) this assms(4)] obtain k' where
    "task_in E (kv (w_queue (f n))) i = Some k'"
    "t_version k' = t_version k + of_nat (card (acquisitions E kv i f n))"
    "t_state k = TFulfilled \<longrightarrow> t_state k' = TFulfilled \<and> acquisitions E kv i f n = {}"
    by blast
  then show ?thesis using version_counts by simp
qed

theorem task_version_advances_witness:
  "\<exists>out w' k. send_timed mem_env default_options ''acquire'' demo = (out, w')
     \<and> task_in mem_env (mem_store (w_queue w')) ''idle'' = Some k \<and> t_state k = TAcquired
     \<and> t_version k = 1 \<and> t_version idle_task = 0"
proof -
  obtain out w' k where run: "send_timed mem_env default_options ''acquire'' demo = (out, w')"
    and k: "task_in mem_env (mem_store (w_queue w')) ''idle'' = Some k" "t_state k = TAcquired"
    by (rule acquire_sent)
  let ?f = "\<lambda>s :: nat. if s = 0 then demo else w'"
  have steps: "\<forall>s < 1. store_step mem_env mem_store default_options (?f s) (?f (Suc s))"
    using request [OF run] by simp
  have before: "\<not> is_acquired mem_env mem_store ''idle'' demo" by (simp add: is_acquired_def)
  have "acquisitions mem_env mem_store ''idle'' ?f 1 = {0}"
    using k before by (auto simp: acquisitions_def) (auto simp: is_acquired_def)
  then have "t_version k = 1"
    using task_version_advances [where f = ?f and i = "''idle''" and k = idle_task, OF mem_contract _ steps]
      demo_good [of mem_env] k by simp
  with run k show ?thesis by simp
qed

text \<open>
  C4: No wake-up is lost: in every run whose clock goes forward, from records that are good and
  waiting (an empty store has such records), a suspended task is registered with a promise that
  is still pending, so that its settlement will resume it, or the promise of the task itself is
  past its deadline, so that the task is about to be fulfilled.
\<close>

theorem no_wakeup_lost:
  assumes "queue_contract E kv" "good E (kv (w_queue w))" "waiting E (shared_now E w) (kv (w_queue w))"
    and "(timed_step E kv opts)\<^sup>*\<^sup>* w w'"
    and "task_in E (kv (w_queue w')) i = Some k" "t_state k = TSuspended"
  shows "(\<exists>j p. promise_in E (kv (w_queue w')) j = Some p \<and> is_pending (sp_record p) \<and> i \<in> set (sp_callbacks p))
    \<or> (\<exists>p. promise_in E (kv (w_queue w')) i = Some p \<and> le64 (p_timeout_at (sp_record p)) (shared_now E w'))"
proof -
  have "attending E kv w'"
    using attended.reach_inv [OF assms(4)] assms(1,2,3) by (simp add: attending_def serving_def)
  then show ?thesis
    using assms(5,6) by (auto simp: attending_def waiting_def registered_def overdue_def)
qed

lemma demo_waiting: "waiting mem_env 0 (mem_store (w_queue demo))"
  unfolding waiting_def
proof (intro allI impI disjI1)
  fix i k assume k: "task_in mem_env (mem_store (w_queue demo)) i = Some k" "t_state k = TSuspended"
  then have "i = ''root''" by (auto split: if_splits)
  then show "registered mem_env (mem_store (w_queue demo)) i"
    unfolding registered_def by (intro exI [where x = "''root:1''"] exI [where x = child_promise]) simp
qed

theorem no_wakeup_lost_witness:
  "\<exists>j p. promise_in mem_env (mem_store (w_queue demo)) j = Some p \<and> is_pending (sp_record p)
     \<and> ''root'' \<in> set (sp_callbacks p)"
proof -
  have "waiting mem_env (shared_now mem_env demo) (mem_store (w_queue demo))"
    using demo_waiting by (simp only: demo_now)
  from no_wakeup_lost [OF mem_contract demo_good this rtranclp.rtrancl_refl, of "''root''" root_task]
  have "(\<exists>j p. promise_in mem_env (mem_store (w_queue demo)) j = Some p \<and> is_pending (sp_record p)
      \<and> ''root'' \<in> set (sp_callbacks p)) \<or> (1000 :: int) \<le> 0"
    by (simp del: demo_promises) (simp only: demo_promises, auto)
  then show ?thesis by simp
qed

section \<open>Every request\<close>

text \<open>
  C12: Every request is answered: whatever its text, a network's request over good records
  returns a response (no handler panics on a missing record), leaves the records good, and has
  moved them by steps of the protocol.
\<close>

theorem send_answers:
  assumes "queue_contract E kv" "good E (kv (w_queue w))"
  shows "\<exists>time body w'. send_timed E opts raw w = (Some (time, body), w') \<and> time = shared_now E w
    \<and> good E (kv (w_queue w'))
    \<and> protocol_steps (abs_store E (kv (w_queue w))) (abs_store E (kv (w_queue w')))"
proof -
  obtain out w' where run: "send_timed E opts raw w = (out, w')" by (metis surj_pair)
  note s = send_timed_serving [OF _ run, of kv]
  obtain time body where out: "out = Some (time, body)"
    using s(3) assms by (cases out) (auto simp: serving_def)
  have "time = shared_now E w"
    using run out by (auto simp: send_timed_def split: sum.splits prod.splits)
  with s(1,2) assms run out show ?thesis
    by (simp add: serving_def abs_world_def)
qed

theorem send_answers_witness:
  "\<exists>body w'. send_timed mem_env default_options ''{}'' demo = (Some (0, body), w')"
  using send_answers [OF mem_contract demo_good, of default_options "''{}''"] by auto

text \<open>
  C13: A request fails only with its queue: over a queue that reports no errors, the dispatch of
  every request, of any kind and with any data, produces a reply of the protocol and never an
  error of the crate (a record that does not decode, or a panic), and even over an unreliable
  queue the only error is the queue's own.
\<close>

theorem handle_fails_only_with_queue:
  assumes "queue_contract E kv" "good E (kv (w_queue w))"
    and "locked E opts (handle E kind corr_id data) w = (Inl e, w')"
  shows "\<not> reliable E \<and> (\<exists>x. e = Storage x) \<and> good E (kv (w_queue w'))"
proof -
  have w: "serving E kv w" using assms(1,2) by (simp add: serving_def)
  have "responds E kv opts w (handle E kind corr_id data) (\<lambda>_ _. True)"
    by (rule respondsI [OF w honest_handle handle_safe [OF begun_shared [OF w] assms(1)]]) auto
  with assms(3) show ?thesis by (auto simp: responds_def serving_def reliable_healthy)
qed

text \<open>A queue whose reads fail.\<close>

definition down_env :: "mem env" where
  "down_env = mem_env\<lparr>q_kv_get := \<lambda>_ _. Inl (QueueFailure [])\<rparr>"

lemma down_simps:
  "q_kv_get down_env = (\<lambda>_ _. Inl (QueueFailure []))" "q_kv_entries down_env = q_kv_entries mem_env"
  "q_next_job_id down_env = q_next_job_id mem_env" "q_renew_lease down_env = q_renew_lease mem_env"
  "q_claim_by_id down_env = q_claim_by_id mem_env" "q_claim down_env = q_claim mem_env"
  "q_commit_effects down_env = q_commit_effects mem_env" "q_ack_with down_env = q_ack_with mem_env"
  "q_ack down_env = q_ack mem_env" "q_nack down_env = q_nack mem_env"
  by (simp_all add: down_env_def)

lemma down_contract: "queue_contract down_env mem_store"
  unfolding queue_contract_def
proof (intro conjI)
  show "reads_ok down_env mem_store"
    using mem_contract unfolding queue_contract_def reads_ok_def down_simps by blast
  show "settles_ok down_env mem_store"
    using mem_contract unfolding queue_contract_def settles_ok_def down_simps by blast
  show "claims_ok down_env mem_store"
    using mem_contract unfolding queue_contract_def claims_ok_def down_simps by blast
qed

theorem handle_fails_only_with_queue_witness:
  "\<exists>w'. locked down_env default_options (handle down_env ''schedule.get'' [] (JObject [(''id'', JString ''x'')])) demo
       = (Inl (Storage (QueueFailure [])), w') \<and> \<not> reliable down_env"
proof -
  have "fst (locked down_env default_options
      (handle down_env ''schedule.get'' [] (JObject [(''id'', JString ''x'')])) demo) = Inl (Storage (QueueFailure []))"
    by (simp add: locked_def handle_def parsed_def dec_id_data_def struct_fields_def field_def
        dec_string_def schedule_get_def get_schedule_def get_json_def get_raw_def down_simps storage_def run_bnd
        shared_txn_def new_txn_def)
  then obtain w' where run: "locked down_env default_options
      (handle down_env ''schedule.get'' [] (JObject [(''id'', JString ''x'')])) demo = (Inl (Storage (QueueFailure [])), w')"
    by (metis prod.collapse)
  then show ?thesis
    using handle_fails_only_with_queue [OF down_contract demo_good run] by blast
qed

end
