(* ===== verification/Task_Lifecycle.thy ===== *)
theory Task_Lifecycle
  imports Task_Properties
begin

text \<open>
  The moves of a task between its states, its creation together with its promise, and the
  requests a worker makes under its version.
\<close>

lemma responds_deadline:
  assumes "serving E kv w" "honest E m"
    and "wp m (answers E kv (shared_txn E opts w)
      (after_deadlines E (now (shared_txn E opts w)) {i} (kv (queue (shared_txn E opts w))) R)) (shared_txn E opts w)"
    and "promise_in E (kv (w_queue w)) i = Some p" "\<not> expired (shared_now E w) (sp_record p)"
    and "\<And>D reply W. good E D \<Longrightarrow> promise_in E D = promise_in E (kv (w_queue w)) \<Longrightarrow>
      task_in E D = task_in E (kv (w_queue w)) \<Longrightarrow> schedule_in E D = schedule_in E (kv (w_queue w)) \<Longrightarrow>
      R D reply W \<Longrightarrow> P reply W"
  shows "responds E kv opts w m P"
  by (rule responds_live [OF assms(1,2), where ids = "{i}" and R = R])
    (use assms(3-6) in simp_all)

section \<open>Releasing, halting and continuing\<close>

text \<open>
  C24: A worker gives a task back: a release at the version of an acquired task makes it pending,
  with no process and no time to live, at the same version; a release at any other version or in
  any other state changes no record.
\<close>

theorem task_release_frees:
  assumes "serving E kv w" "promise_in E (kv (w_queue w)) (tv_id d) = Some p"
    and "\<not> expired (shared_now E w) (sp_record p)" "task_in E (kv (w_queue w)) (tv_id d) = Some k"
  shows "responds E kv opts w (task_release E d) (\<lambda>reply W.
    if t_state k = TAcquired \<and> t_version k = tv_version d
    then status reply = 200
      \<and> task_becomes E (tv_id d) (k\<lparr>t_state := TPending, t_pid := None, t_ttl := None\<rparr>) (kv (w_queue w)) W
    else status reply = 409 \<and> unchanged E (kv (w_queue w)) W)"
proof (rule responds_deadline [OF assms(1) honest_task_requests(5) task_release_spec
      [OF begun_shared [OF assms(1)] serving_contract [OF assms(1)]] assms(2,3)])
  fix D reply W
  assume eq: "promise_in E D = promise_in E (kv (w_queue w))" "task_in E D = task_in E (kv (w_queue w))"
      "schedule_in E D = schedule_in E (kv (w_queue w))" and run: "released_task E d D reply W"
  show "if t_state k = TAcquired \<and> t_version k = tv_version d
    then status reply = 200
      \<and> task_becomes E (tv_id d) (k\<lparr>t_state := TPending, t_pid := None, t_ttl := None\<rparr>) (kv (w_queue w)) W
    else status reply = 409 \<and> unchanged E (kv (w_queue w)) W"
    using run assms(4) over_same [OF eq]
    by (auto simp: released_task_def eq is_acquired_at_def invalid_state_def empty_reply_def transition_def
        split: if_splits)
qed

definition demo_release :: task_version_data where
  "demo_release = \<lparr>tv_id = ''work'', tv_version = 1\<rparr>"

theorem task_release_frees_witness:
  "\<exists>reply w' k. locked mem_env default_options (task_release mem_env demo_release) demo = (Inr reply, w')
     \<and> task_in mem_env (mem_store (w_queue w')) ''work'' = Some k \<and> t_state k = TPending \<and> t_version k = 1"
  using demo_responds [OF task_release_frees [where d = demo_release and p = work_promise and k = work_task
        and opts = default_options, OF demo_serving]]
  by (force simp: demo_release_def expired_def task_becomes_def)

text \<open>
  A halt takes a task out of the hands of its worker and out of delivery: unless it is
  fulfilled, it is halted at its version, with no process and no time to live, and no other
  record changes; a fulfilled task is refused.
\<close>

theorem task_halt_stops:
  assumes "serving E kv w" "promise_in E (kv (w_queue w)) i = Some p"
    and "\<not> expired (shared_now E w) (sp_record p)" "task_in E (kv (w_queue w)) i = Some k"
  shows "responds E kv opts w (task_halt E i) (\<lambda>reply W.
    if t_state k = TFulfilled then status reply = 409 \<and> unchanged E (kv (w_queue w)) W
    else status reply = 200
      \<and> task_becomes E i (k\<lparr>t_state := THalted, t_pid := None, t_ttl := None\<rparr>) (kv (w_queue w)) W)"
proof (rule responds_deadline [OF assms(1) honest_task_requests(2) task_halt_spec
      [OF begun_shared [OF assms(1)] serving_contract [OF assms(1)]] assms(2,3)])
  fix D reply W
  assume D: "good E D" and eq: "promise_in E D = promise_in E (kv (w_queue w))"
      "task_in E D = task_in E (kv (w_queue w))" "schedule_in E D = schedule_in E (kv (w_queue w))"
    and run: "halted_task E i D reply W"
  have "k\<lparr>t_state := THalted, t_pid := None, t_ttl := None\<rparr> = k" if "t_state k = THalted"
    using goodD(3) [OF D, of i k] assms(4) that eq by (auto simp: task_ok_def)
  then show "if t_state k = TFulfilled then status reply = 409 \<and> unchanged E (kv (w_queue w)) W
    else status reply = 200
      \<and> task_becomes E i (k\<lparr>t_state := THalted, t_pid := None, t_ttl := None\<rparr>) (kv (w_queue w)) W"
    using run assms(4) over_same [OF eq]
    by (auto simp: halted_task_def eq empty_reply_def transition_def task_becomes_def unchanged_def
        fun_upd_idem split: if_splits)
qed

theorem task_halt_stops_witness:
  "\<exists>reply w' k. locked mem_env default_options (task_halt mem_env ''work'') demo = (Inr reply, w')
     \<and> task_in mem_env (mem_store (w_queue w')) ''work'' = Some k \<and> t_state k = THalted \<and> t_pid k = None"
  using demo_responds [OF task_halt_stops [where i = "''work''" and p = work_promise and k = work_task
        and opts = default_options, OF demo_serving]]
  by (force simp: expired_def task_becomes_def)

text \<open>
  C25: A continue undoes a halt and nothing else: a halted task is pending again, at its version
  and with its resumes; a task in any other state is refused and nothing changes.  The continued
  task has a delivery to come: the queue has accepted a job under the job id of the task that
  executes this task, and no acknowledgement has ended that job, even when one has ended the job
  the task had while it was halted.  The hypothesis on the books of the queue is an
  invariant that every run keeps.
\<close>

theorem task_continue_resumes:
  assumes "serving E kv w" "audited E kv G w" "promise_in E (kv (w_queue w)) i = Some p"
    and "\<not> expired (shared_now E w) (sp_record p)" "task_in E (kv (w_queue w)) i = Some k"
  shows "responds E kv opts w (task_continue E i) (\<lambda>reply W.
    if t_state k = THalted
    then status reply = 200 \<and> (\<exists>job. task_becomes E i
      (k\<lparr>t_state := TPending, t_pid := None, t_ttl := None, t_job := Some job\<rparr>) (kv (w_queue w)) W)
    else status reply = 409 \<and> unchanged E (kv (w_queue w)) W)
    \<and> (\<forall>r w' k'. locked E opts (task_continue E i) w = (r, w') \<and> task_in E (kv (w_queue w')) i = Some k'
         \<and> t_state k' = TPending \<longrightarrow> has_live_job E G (w_queue w') k')"
proof (intro conjI allI impI responds_deadline [OF assms(1) honest_task_requests(3) task_continue_spec
      [OF begun_shared [OF assms(1)] serving_contract [OF assms(1)]] assms(3,4)]; (elim conjE)?)
  have books: "keeps_books E kv G" using assms(2) by (simp add: audited_def)
  show "has_live_job E G (w_queue w') k'"
    if "locked E opts (task_continue E i) w = (r, w')" "task_in E (kv (w_queue w')) i = Some k'" "t_state k' = TPending"
    for r w' k'
    by (rule locked_live_job [OF assms(2) accounts_task_moves(3) [OF books] that])
next
  fix D reply W
  assume eq: "promise_in E D = promise_in E (kv (w_queue w))" "task_in E D = task_in E (kv (w_queue w))"
      "schedule_in E D = schedule_in E (kv (w_queue w))" and run: "continued_task E i D reply W"
  show "if t_state k = THalted
    then status reply = 200 \<and> (\<exists>job. task_becomes E i
      (k\<lparr>t_state := TPending, t_pid := None, t_ttl := None, t_job := Some job\<rparr>) (kv (w_queue w)) W)
    else status reply = 409 \<and> unchanged E (kv (w_queue w)) W"
    using run assms(5) over_same [OF eq]
    by (auto simp: continued_task_def eq empty_reply_def transition_def split: if_splits)
qed

text \<open>The example store with the record of one of its tasks replaced.\<close>

definition demo_with :: "stored_task \<Rightarrow> mem world" where
  "demo_with k = demo\<lparr>w_queue := demo_queue\<lparr>m_kv := om_insert (task_key (t_id k)) (Doc (enc_task k)) demo_kv\<rparr>\<rparr>"

lemma demo_with_store: "mem_store (w_queue (demo_with k)) = put_t k (mem_store (w_queue demo))"
  by (simp add: demo_with_def demo_def demo_queue_def mem_store_def mem_store_insert put_defs)

lemma demo_with_now [simp]: "shared_now mem_env (demo_with k) = 0"
  by (simp add: demo_with_def shared_now_def demo_queue_def clamp_i64_def i64_max_def)

lemma demo_with_serving:
  assumes "task_in mem_env (mem_store (w_queue demo)) i = Some k" "task_ok i k'" "t_target k' = t_target k"
    and "t_state k' = TFulfilled \<longleftrightarrow> t_state k = TFulfilled"
  shows "serving mem_env mem_store (demo_with k')"
  using put_task_good [OF demo_good assms] by (simp add: serving_def mem_contract demo_with_store)

definition stopped_task :: stored_task where
  "stopped_task = transition work_task THalted"

lemma demo_halted:
  "serving mem_env mem_store (demo_with stopped_task)" "t_state stopped_task = THalted"
  "promise_in mem_env (mem_store (w_queue (demo_with stopped_task))) ''work'' = Some work_promise"
  "task_in mem_env (mem_store (w_queue (demo_with stopped_task))) ''work'' = Some stopped_task"
proof -
  have i: "t_id stopped_task = ''work''" by (simp add: stopped_task_def)
  show "serving mem_env mem_store (demo_with stopped_task)"
    by (rule demo_with_serving [where i = "''work''" and k = work_task])
      (simp_all add: stopped_task_def task_ok_def, simp add: demo_records)
  show "promise_in mem_env (mem_store (w_queue (demo_with stopped_task))) ''work'' = Some work_promise"
    "task_in mem_env (mem_store (w_queue (demo_with stopped_task))) ''work'' = Some stopped_task"
    using i by (simp_all add: demo_with_store)
qed (simp add: stopped_task_def)

text \<open>The store once a delivery has acknowledged the job of the halted task.\<close>

definition stopped_demo :: "mem world" where
  "stopped_demo = demo\<lparr>w_queue := (w_queue (demo_with stopped_task))
     \<lparr>m_jobs := om_insert ''job2'' (demo_job ''idle'') om_empty\<rparr>\<rparr>"

lemma stopped_demo_store: "mem_store (w_queue stopped_demo) = mem_store (w_queue (demo_with stopped_task))"
  by (simp add: stopped_demo_def mem_store_def)

lemma stopped_demo_ended: "mem_ended (w_queue stopped_demo) = {''job0'', ''job1''}"
proof -
  have jobs: "mem_jobs (w_queue stopped_demo) = mem_jobs demo_queue"
    by (simp add: stopped_demo_def demo_with_def mem_jobs_def)
  have known: "om_get (m_jobs (w_queue stopped_demo)) j = (if j = ''job2'' then Some (demo_job ''idle'') else None)" for j
    by (simp add: stopped_demo_def)
  show ?thesis
    unfolding mem_ended_def jobs known demo_requests by auto
qed

lemma stopped_demo_ready:
  "serving mem_env mem_store stopped_demo" "audited mem_env mem_store mem_ledger stopped_demo"
  "promise_in mem_env (mem_store (w_queue stopped_demo)) ''work'' = Some work_promise"
  "task_in mem_env (mem_store (w_queue stopped_demo)) ''work'' = Some stopped_task"
  "\<not> expired (shared_now mem_env stopped_demo) (sp_record work_promise)"
proof -
  show "serving mem_env mem_store stopped_demo"
    using demo_halted(1) by (simp add: serving_def stopped_demo_store)
  show "promise_in mem_env (mem_store (w_queue stopped_demo)) ''work'' = Some work_promise"
    "task_in mem_env (mem_store (w_queue stopped_demo)) ''work'' = Some stopped_task"
    using demo_halted(3,4) by (simp_all only: stopped_demo_store)
  show "\<not> expired (shared_now mem_env stopped_demo) (sp_record work_promise)"
    using demo_with_now [of stopped_task]
    by (simp add: expired_def shared_now_def stopped_demo_def demo_with_def clamp_i64_def i64_max_def)
  have work: "t_id stopped_task = ''work''" "t_job stopped_task = Some ''job1''" "\<not> working stopped_task"
    by (simp_all add: stopped_task_def working_def, simp add: demo_records)
  have "in_order mem_env (mem_jobs demo_queue) (mem_ended (w_queue stopped_demo)) (mem_store (w_queue stopped_demo))"
    unfolding stopped_demo_store demo_with_store
    by (rule demo_in_order [where k = stopped_task])
      (simp_all add: work stopped_demo_ended fun_eq_iff del: demo_promises demo_tasks)
  then have "audited mem_env mem_store mem_ledger \<lparr>w_queue = w_queue stopped_demo, w_held = w_held demo\<rparr>"
    by (intro demo_audited_at) (auto simp: stopped_demo_def demo_with_def demo_known split: if_splits)
  moreover have "\<lparr>w_queue = w_queue stopped_demo, w_held = w_held demo\<rparr> = stopped_demo"
    by (simp add: stopped_demo_def)
  ultimately show "audited mem_env mem_store mem_ledger stopped_demo" by simp
qed

theorem task_continue_resumes_witness:
  "\<exists>reply w' k. locked mem_env default_options (task_continue mem_env ''work'') stopped_demo = (Inr reply, w')
     \<and> task_in mem_env (mem_store (w_queue w')) ''work'' = Some k \<and> t_state k = TPending
     \<and> has_live_job mem_env mem_ledger (w_queue w') k
     \<and> \<not> has_live_job mem_env mem_ledger (w_queue stopped_demo) stopped_task"
proof -
  have "t_job stopped_task = Some ''job1''" by (simp add: stopped_task_def) (simp add: demo_records)
  then have unemployed: "\<not> has_live_job mem_env mem_ledger (w_queue stopped_demo) stopped_task"
    by (simp add: has_live_job_def stopped_demo_ended)
  note continues = task_continue_resumes [where opts = default_options,
      OF stopped_demo_ready(1,2,3) stopped_demo_ready(5,4)]
  have "responds mem_env mem_store default_options stopped_demo (task_continue mem_env ''work'')
    (\<lambda>_ W. \<exists>k. task_in mem_env W ''work'' = Some k \<and> t_state k = TPending)"
    by (rule responds_mono [OF continues [THEN conjunct1]]) (auto simp: demo_halted(2) task_becomes_def)
  from demo_responds [OF this] obtain reply w' k where run:
    "locked mem_env default_options (task_continue mem_env ''work'') stopped_demo = (Inr reply, w')"
    "task_in mem_env (mem_store (w_queue w')) ''work'' = Some k" "t_state k = TPending"
    by blast
  have "has_live_job mem_env mem_ledger (w_queue w') k"
    by (rule continues [THEN conjunct2, rule_format, OF conjI [OF run(1) conjI [OF run(2,3)]]])
  with run unemployed show ?thesis by (intro exI conjI)
qed

section \<open>Creating a task with its promise\<close>

text \<open>
  C23: A worker that creates a targeted promise under a fresh id holds its task from the start:
  the promise is stored pending, with the request's parameter, tags and deadline, and its task
  acquired at version 1 by the worker's process for its time to live; a deadline that has passed
  makes the promise settled and the task fulfilled, held by nobody.
\<close>

theorem task_create_new:
  assumes "serving E kv w" "ac_kind (tc_action d) = ''promise.create''" "tc_pid d \<noteq> []" "\<not> lt64 (tc_ttl d) 1"
    and "validate_create E (ac_data (tc_action d)) = None"
    and "om_get (pc_tags (ac_data (tc_action d))) TAG_TARGET = Some tgt"
    and "om_get (pc_tags (ac_data (tc_action d))) TAG_DELAY = None"
    and "promise_in E (kv (w_queue w)) (pc_id (ac_data (tc_action d))) = None"
  shows "responds E kv opts w (task_create E d) (\<lambda>reply W.
    let c = ac_data (tc_action d); V = kv (w_queue w); live = lt64 (shared_now E w) (pc_timeout_at c) in
    status reply = 200
    \<and> (\<exists>r k. p_id r = pc_id c \<and> p_param r = pc_param c \<and> p_tags r = pc_tags c \<and> p_timeout_at r = pc_timeout_at c
        \<and> is_pending r = live \<and> promise_in E W = (promise_in E V)(pc_id c \<mapsto> bare r)
        \<and> t_id k = pc_id c \<and> t_target k = tgt \<and> task_in E W = (task_in E V)(pc_id c \<mapsto> k)
        \<and> (if live then t_state k = TAcquired \<and> t_version k = 1 \<and> t_pid k = Some (tc_pid d) \<and> t_ttl k = Some (tc_ttl d)
           else t_state k = TFulfilled \<and> t_version k = 0 \<and> t_pid k = None \<and> t_ttl k = None))
    \<and> schedule_in E W = schedule_in E V)" (is "responds E kv opts w ?m ?P")
proof (rule responds_live [OF assms(1) honest_task_requests(10) task_create_spec
      [OF begun_shared [OF assms(1)] serving_contract [OF assms(1)] assms(2-7)]])
  let ?c = "ac_data (tc_action d)"
  let ?r = "created_record (shared_now E w) ?c None"
  fix D reply W
  assume D: "good E D" and eq: "promise_in E D = promise_in E (kv (w_queue w))"
      "task_in E D = task_in E (kv (w_queue w))" "schedule_in E D = schedule_in E (kv (w_queue w))"
    and run: "task_created E (now (shared_txn E opts w)) d D reply W"
  have none: "task_in E D (pc_id ?c) = None"
    using good_task_promise [OF D] assms(8) eq(1) by (metis option.distinct(1) option.exhaust)
  then obtain v where new: "reply = ok v" "created_store E (Acquire (tc_pid d) (tc_ttl d)) ?r D W"
    using run assms(8) eq by (auto simp: task_created_def Let_def)
  have r: "p_id ?r = pc_id ?c" "target ?r = Some tgt" "p_param ?r = pc_param ?c" "p_tags ?r = pc_tags ?c"
    "p_timeout_at ?r = pc_timeout_at ?c"
    using assms(6) by (simp_all add: created_record_def target_def Let_def)
  obtain k where k: "task_in E W (pc_id ?c) = Some k" "t_id k = pc_id ?c" "t_target k = tgt"
      "starts (is_pending ?r) (Acquire (tc_pid d) (tc_ttl d)) k"
    using new(2) r(1,2) by (auto simp: created_store_def)
  have tasks: "task_in E W = (task_in E D)(pc_id ?c \<mapsto> k)"
    using new(2) k(1) r(1) by (auto simp: created_store_def)
  show "?P reply W"
    unfolding Let_def
    by (intro conjI exI [where x = ?r] exI [where x = k])
      (use new r k(2-4) tasks created_pending [of "shared_now E w" ?c None] in \<open>simp_all add: created_store_def eq starts_def split: if_splits\<close>)
qed (use assms(8) in auto)

definition demo_start :: task_create_data where
  "demo_start = \<lparr>tc_pid = ''p2'', tc_ttl = 100, tc_action = \<lparr>ac_kind = ''promise.create'', ac_data = demo_create\<rparr>\<rparr>"

lemma demo_start_simps [simp]:
  "tc_pid demo_start = ''p2''" "tc_ttl demo_start = 100" "ac_kind (tc_action demo_start) = ''promise.create''"
  "ac_data (tc_action demo_start) = demo_create" "pc_id demo_create = ''fresh''"
  "pc_timeout_at demo_create = 500" "pc_tags demo_create = targeted_tags"
  by (simp_all add: demo_start_def demo_create_def)

lemma targeted_no_delay: "om_get targeted_tags TAG_DELAY = None"
  by (simp add: targeted_tags_def TAG_TARGET_def TAG_DELAY_def)

theorem task_create_new_witness:
  "\<exists>reply w' k. locked mem_env default_options (task_create mem_env demo_start) demo = (Inr reply, w')
     \<and> task_in mem_env (mem_store (w_queue w')) ''fresh'' = Some k \<and> t_state k = TAcquired \<and> t_version k = 1"
  using demo_responds [OF task_create_new [where d = demo_start and tgt = demo_target and opts = default_options,
        OF demo_serving]] demo_create_valid targeted_no_delay
  by (force simp: Let_def)

text \<open>
  A task is created for one worker only: creating a task under an id whose task is acquired,
  suspended or halted is answered with a conflict and changes no record, so it does not disturb
  the worker that holds the task.
\<close>

theorem task_create_busy:
  assumes "serving E kv w" "ac_kind (tc_action d) = ''promise.create''" "tc_pid d \<noteq> []" "\<not> lt64 (tc_ttl d) 1"
    and "validate_create E (ac_data (tc_action d)) = None"
    and "om_get (pc_tags (ac_data (tc_action d))) TAG_TARGET = Some tgt"
    and "om_get (pc_tags (ac_data (tc_action d))) TAG_DELAY = None"
    and "promise_in E (kv (w_queue w)) (pc_id (ac_data (tc_action d))) = Some p"
    and "\<not> expired (shared_now E w) (sp_record p)"
    and "task_in E (kv (w_queue w)) (pc_id (ac_data (tc_action d))) = Some k"
    and "t_state k \<in> {TAcquired, TSuspended, THalted}"
  shows "responds E kv opts w (task_create E d)
    (\<lambda>reply W. status reply = 409 \<and> unchanged E (kv (w_queue w)) W)"
proof (rule responds_deadline [OF assms(1) honest_task_requests(10) task_create_spec
      [OF begun_shared [OF assms(1)] serving_contract [OF assms(1)] assms(2-7)] assms(8,9)])
  fix D reply W
  assume eq: "promise_in E D = promise_in E (kv (w_queue w))" "task_in E D = task_in E (kv (w_queue w))"
      "schedule_in E D = schedule_in E (kv (w_queue w))"
    and run: "task_created E (now (shared_txn E opts w)) d D reply W"
  then show "status reply = 409 \<and> unchanged E (kv (w_queue w)) W"
    using assms(10,11) over_same(3) [OF eq] by (auto simp: task_created_def Let_def already_exists_def)
qed

definition demo_restart :: task_create_data where
  "demo_restart = demo_start\<lparr>tc_action := \<lparr>ac_kind = ''promise.create'', ac_data = demo_create\<lparr>pc_id := ''work''\<rparr>\<rparr>\<rparr>"

theorem task_create_busy_witness:
  "\<exists>reply w'. locked mem_env default_options (task_create mem_env demo_restart) demo = (Inr reply, w')
     \<and> status reply = 409 \<and> task_in mem_env (mem_store (w_queue w')) ''work'' = Some work_task"
proof -
  have "validate_create mem_env (demo_create\<lparr>pc_id := ''work''\<rparr>) = None"
    by (simp add: validate_create_None demo_create_def targeted_tags_def TAG_TARGET_def TAG_DELAY_def
        mem_url_def demo_target_def prefix_def)
  then show ?thesis
    using demo_responds [OF task_create_busy [where d = demo_restart and tgt = demo_target and p = work_promise
          and k = work_task and opts = default_options, OF demo_serving]] targeted_no_delay
    by (force simp: demo_restart_def expired_def unchanged_def)
qed

section \<open>Requests under a version\<close>

text \<open>
  C22: Fencing: a suspension without a live lease on the task, or at another version than the
  task's, changes no record and answers with a conflict or 404, so no awaiter is registered by a
  worker that has lost its task.
\<close>

theorem task_suspend_fenced:
  assumes "serving E kv w" "ts_actions d \<noteq> []" "awaited_of (ts_id d) (ts_actions d) [] = Inr ids"
    and "\<forall>i \<in> insert (ts_id d) (set ids). \<forall>p. promise_in E (kv (w_queue w)) i = Some p \<longrightarrow>
      \<not> expired (shared_now E w) (sp_record p)"
    and "\<not> (\<exists>k. task_in E (kv (w_queue w)) (ts_id d) = Some k \<and> is_acquired_at k (ts_version d)
      \<and> leased E opts w (ts_id d))"
  shows "responds E kv opts w (task_suspend E d)
    (\<lambda>reply W. status reply \<in> {404, 409} \<and> unchanged E (kv (w_queue w)) W)"
  by (rule respondsI [OF assms(1) honest_task_requests(9) task_suspend_unleased_spec
        [OF begun_shared [OF assms(1)] serving_contract [OF assms(1)] assms(2,3)]])
    (use assms(4,5) in \<open>auto simp: shared_view leased_txn refused_def\<close>)

definition demo_await_stale :: task_suspend_data where
  "demo_await_stale = demo_await ''work:1''\<lparr>ts_version := 7\<rparr>"

theorem task_suspend_fenced_witness:
  "\<exists>reply w'. locked mem_env default_options (task_suspend mem_env demo_await_stale) demo = (Inr reply, w')
     \<and> status reply \<in> {404, 409}
     \<and> promise_in mem_env (mem_store (w_queue w')) ''work:1'' = Some work_child"
proof -
  have d: "ts_id demo_await_stale = ''work''" "ts_version demo_await_stale = 7"
    "ts_actions demo_await_stale = ts_actions (demo_await ''work:1'')"
    by (simp_all add: demo_await_stale_def demo_await_def)
  have a: "awaited_of (ts_id demo_await_stale) (ts_actions demo_await_stale) [] = Inr [''work:1'']"
    using demo_awaited [of "CHR ''1''"] by (simp add: d)
  have "responds mem_env mem_store default_options demo (task_suspend mem_env demo_await_stale)
    (\<lambda>reply W. status reply \<in> {404, 409} \<and> unchanged mem_env (mem_store (w_queue demo)) W)"
    by (rule task_suspend_fenced [OF demo_serving _ a]) (auto simp: d expired_def is_acquired_at_def)
  from demo_responds [OF this] show ?thesis
    by (elim exE conjE) (auto simp: unchanged_def)
qed

text \<open>
  A fence at a version that is not the version of an acquired task runs no action: the answer
  is a conflict, 404 when there is no such task, or 400 for an action it does not accept, and no
  record changes.
\<close>

theorem task_fence_stale:
  assumes "serving E kv w" "as_str (jget (ac_data (fe_action d)) ''id'') = Some a" "a \<noteq> fe_id d"
    and "origin_of a = origin_of (fe_id d)"
    and "\<forall>i \<in> {fe_id d, a}. \<forall>p. promise_in E (kv (w_queue w)) i = Some p \<longrightarrow> \<not> expired (shared_now E w) (sp_record p)"
    and "\<not> (\<exists>k. task_in E (kv (w_queue w)) (fe_id d) = Some k \<and> is_acquired_at k (fe_version d))"
  shows "responds E kv opts w (task_fence E corr_id d)
    (\<lambda>reply W. status reply \<in> {400, 404, 409} \<and> unchanged E (kv (w_queue w)) W)"
proof (rule respondsI [OF assms(1) honest_task_requests(11) task_fence_spec
      [OF begun_shared [OF assms(1)] serving_contract [OF assms(1)] assms(2-4)]])
  fix reply W
  assume "or_rejected (acceptable E (ac_kind (fe_action d)) (ac_data (fe_action d))) (kv (queue (shared_txn E opts w)))
    (after_deadlines E (now (shared_txn E opts w)) {fe_id d, a} (kv (queue (shared_txn E opts w)))
      (fence_answer E (now (shared_txn E opts w)) corr_id d)) reply W"
  then consider "status reply = 400" "W = kv (w_queue w)"
    | D where "deadlines E (shared_now E w) {fe_id d, a} (kv (w_queue w)) D" "fence_answer E (shared_now E w) corr_id d D reply W"
    by (auto simp: or_rejected_def after_deadlines_def)
  then show "status reply \<in> {400, 404, 409} \<and> unchanged E (kv (w_queue w)) W"
  proof cases
    case (2 D)
    note same = deadlines_same [OF 2(1) assms(5)]
    show ?thesis
      using 2(2) assms(6) over_same(3) [OF same]
      by (auto simp: fence_answer_def Let_def same split: option.splits)
  qed simp
qed

definition demo_fence :: "i64 \<Rightarrow> task_fence_data" where
  "demo_fence v = \<lparr>fe_id = ''work'', fe_version = v, fe_action = \<lparr>ac_kind = ''promise.settle'',
     ac_data = JObject [(''id'', JString ''work:1''), (''state'', enc_settle_state SResolved)]\<rparr>\<rparr>"

text \<open>
  A fence at the version of an acquired task settles another promise of the same origin: a
  promise that is pending before its deadline is settled with the action's state and value, in
  the transaction that checked the version.
\<close>

theorem task_fence_settles:
  assumes "serving E kv w" "ac_kind (fe_action d) = ''promise.settle''"
    and "dec_promise_settle (ac_data (fe_action d)) = Some s"
    and "as_str (jget (ac_data (fe_action d)) ''id'') = Some (ps_id s)" "ps_id s \<noteq> fe_id d"
    and "origin_of (ps_id s) = origin_of (fe_id d)"
    and "promise_in E (kv (w_queue w)) (fe_id d) = Some q" "\<not> expired (shared_now E w) (sp_record q)"
    and "task_in E (kv (w_queue w)) (fe_id d) = Some k" "is_acquired_at k (fe_version d)"
    and "promise_in E (kv (w_queue w)) (ps_id s) = Some p" "is_pending (sp_record p)"
    and "lt64 (shared_now E w) (p_timeout_at (sp_record p))"
  shows "responds E kv opts w (task_fence E corr_id d) (\<lambda>reply W. \<exists>r records.
    r = (sp_record p)\<lparr>p_state := settled_as (ps_state s), p_value := ps_value s, p_settled_at := Some (shared_now E w)\<rparr>
    \<and> reply = fence_reply ''promise.settle'' corr_id (promise_reply r) records
    \<and> settlement E (ps_id s) p r (kv (w_queue w)) W)" (is "responds E kv opts w ?m ?P")
proof (rule respondsI [OF assms(1) honest_task_requests(11) task_fence_spec
      [OF begun_shared [OF assms(1)] serving_contract [OF assms(1)] assms(4-6)]])
  let ?r = "settled_record (shared_now E w) (ps_state s) (ps_value s) (sp_record p)"
  fix reply W
  assume "or_rejected (acceptable E (ac_kind (fe_action d)) (ac_data (fe_action d))) (kv (queue (shared_txn E opts w)))
    (after_deadlines E (now (shared_txn E opts w)) {fe_id d, ps_id s} (kv (queue (shared_txn E opts w)))
      (fence_answer E (now (shared_txn E opts w)) corr_id d)) reply W"
  then obtain D where D: "good E D" "deadlines E (shared_now E w) {fe_id d, ps_id s} (kv (w_queue w)) D"
      "fence_answer E (shared_now E w) corr_id d D reply W"
    using assms(2,3) by (auto simp: or_rejected_def after_deadlines_def acceptable_def)
  have live: "\<forall>i \<in> {fe_id d, ps_id s}. \<forall>p. promise_in E (kv (w_queue w)) i = Some p \<longrightarrow> \<not> expired (shared_now E w) (sp_record p)"
    using assms(7,8,11,13) live_not_expired by auto
  note same = deadlines_same [OF D(2) live]
  obtain inner records where f: "reply = fence_reply ''promise.settle'' corr_id inner records"
      "settled_promise E (shared_now E w) s D inner W"
    using D(3) assms(2,3,9,10) by (auto simp: fence_answer_def Let_def same fenced_def)
  then have "inner = promise_reply ?r" "settled_store E (shared_now E w) (ps_id s) p ?r D W"
    using assms(11,12) by (auto simp: settled_promise_def settled_or_kept_def same)
  moreover have "settlement E (ps_id s) p ?r (kv (w_queue w)) W"
    using settlement_same [OF settled_store_settlement [OF D(1) _ assms(12) by_client [OF assms(13)]] same]
      calculation(2) assms(11) same(1) by simp
  ultimately show "?P reply W"
    using f(1) unfolding settled_record_def by blast
qed

lemma demo_fence_simps [simp]:
  "fe_id (demo_fence v) = ''work''" "fe_version (demo_fence v) = v"
  "ac_kind (fe_action (demo_fence v)) = ''promise.settle''"
  "as_str (jget (ac_data (fe_action (demo_fence v))) ''id'') = Some ''work:1''"
  by (simp_all add: demo_fence_def jget_def as_str_def)

lemma work_origins [simp]: "origin_of ''work:1'' = ''work''" "origin_of ''work'' = ''work''"
  using origin_of_colon [of "''work''" "''1''"] by simp_all

theorem task_fence_stale_witness:
  "\<exists>reply w'. locked mem_env default_options (task_fence mem_env [] (demo_fence 0)) demo = (Inr reply, w')
     \<and> promise_in mem_env (mem_store (w_queue w')) ''work:1'' = Some work_child"
proof -
  have "responds mem_env mem_store default_options demo (task_fence mem_env [] (demo_fence 0))
    (\<lambda>reply W. status reply \<in> {400, 404, 409} \<and> unchanged mem_env (mem_store (w_queue demo)) W)"
    by (rule task_fence_stale [OF demo_serving, where a = "''work:1''"]) (auto simp: expired_def is_acquired_at_def)
  from demo_responds [OF this] show ?thesis
    by (elim exE conjE) (auto simp: unchanged_def)
qed

lemma demo_fence_data:
  "dec_promise_settle (ac_data (fe_action (demo_fence v)))
    = Some \<lparr>ps_id = ''work:1'', ps_state = SResolved, ps_value = default_value\<rparr>"
  by (simp add: demo_fence_def dec_promise_settle_def struct_fields_def field_def dec_string_def
      enc_settle_state_def dec_settle_state_def null_default_def variant_named_def)

theorem task_fence_settles_witness:
  "\<exists>reply w' q. locked mem_env default_options (task_fence mem_env [] (demo_fence 1)) demo = (Inr reply, w')
     \<and> promise_in mem_env (mem_store (w_queue w')) ''work:1'' = Some q \<and> p_state (sp_record q) = PResolved"
proof -
  let ?s = "\<lparr>ps_id = ''work:1'', ps_state = SResolved, ps_value = default_value\<rparr>"
  have "responds mem_env mem_store default_options demo (task_fence mem_env [] (demo_fence 1)) (\<lambda>reply W. \<exists>r records.
    r = (sp_record work_child)\<lparr>p_state := settled_as (ps_state ?s), p_value := ps_value ?s,
      p_settled_at := Some (shared_now mem_env demo)\<rparr>
    \<and> reply = fence_reply ''promise.settle'' [] (promise_reply r) records
    \<and> settlement mem_env (ps_id ?s) work_child r (mem_store (w_queue demo)) W)"
    by (rule task_fence_settles [where d = "demo_fence 1", OF demo_serving _ demo_fence_data, where q = work_promise and k = work_task])
      (simp_all add: expired_def is_acquired_at_def)
  from demo_responds [OF this] show ?thesis
    by (elim exE conjE) (auto simp: settlement_def)
qed

end
