(* ===== verification/Worker_Properties.thy ===== *)
theory Worker_Properties
  imports Task_Lifecycle
begin

text \<open>
  What the background work does to the records: the timers of promises and of schedules, and the
  delivery of jobs to the subscribers of an address.
\<close>

section \<open>Timers\<close>

text \<open>
  C31: A promise's timer settles the promise, once: a promise that is still pending is settled to
  its timeout state at its deadline, whenever the timer comes, with its task fulfilled and its
  awaiters woken; a timer that comes after the settlement, or again, changes nothing.
\<close>

theorem timer_settles_once:
  assumes "serving E kv w"
  shows "responds E kv opts w (fire E (PromiseTimeout i)) (\<lambda>_ W.
    case promise_in E (kv (w_queue w)) i of
      None \<Rightarrow> W = kv (w_queue w)
    | Some p \<Rightarrow>
        if is_pending (sp_record p)
        then settlement E i p ((sp_record p)\<lparr>p_state := timeout_state (sp_record p),
            p_settled_at := Some (p_timeout_at (sp_record p))\<rparr>) (kv (w_queue w)) W
        else W = kv (w_queue w))"
proof (rule respondsI [OF assms honest_fire fire_spec [OF begun_shared [OF assms] serving_contract [OF assms]]])
  fix x W
  have good: "good E (kv (w_queue w))" using assms by (simp add: serving_def)
  assume "timer_fired E (now (shared_txn E opts w)) (PromiseTimeout i) (kv (queue (shared_txn E opts w))) W"
  then show "case promise_in E (kv (w_queue w)) i of
      None \<Rightarrow> W = kv (w_queue w)
    | Some p \<Rightarrow>
        if is_pending (sp_record p)
        then settlement E i p ((sp_record p)\<lparr>p_state := timeout_state (sp_record p),
            p_settled_at := Some (p_timeout_at (sp_record p))\<rparr>) (kv (w_queue w)) W
        else W = kv (w_queue w)"
    using settled_store_settlement [OF good _ _ by_deadline]
    by (auto simp: timer_fired_def expired_record_def split: option.splits if_splits)
qed

theorem timer_settles_once_witness:
  "\<exists>x w' q. locked mem_env default_options (fire mem_env (PromiseTimeout ''root:1'')) demo = (Inr x, w')
     \<and> promise_in mem_env (mem_store (w_queue w')) ''root:1'' = Some q \<and> \<not> is_pending (sp_record q)"
proof -
  have "\<not> is_pending ((sp_record child_promise)\<lparr>p_state := timeout_state (sp_record child_promise), p_settled_at := s\<rparr>)" for s
    by (simp add: is_pending_def)
  then show ?thesis
    using demo_responds [OF timer_settles_once [where i = "''root:1''" and opts = default_options, OF demo_serving]]
    by (auto simp: settlement_def)
qed

text \<open>
  C33: A schedule fires once for each of its runs: the timer of the run the schedule is waiting
  for records the run, moves the schedule on to the next run of its cron expression, and sees to
  it that the promise of the run exists, created from the schedule's parameter, tags and timeout
  unless it is already there; the timer of any other run changes nothing.
\<close>

theorem schedule_fires_once:
  assumes "serving E kv w"
  shows "responds E kv opts w (fire E (ScheduleAt i at)) (\<lambda>_ W.
    let V = kv (w_queue w) in
    case schedule_in E V i of
      None \<Rightarrow> W = V
    | Some s \<Rightarrow>
        if s_next_run_at s = at
        then schedule_in E W = (schedule_in E V)(i \<mapsto> s\<lparr>s_last_run_at := Some at,
            s_next_run_at := (case next_after E (s_cron s) at of Some nxt \<Rightarrow> nxt | None \<Rightarrow> at)\<rparr>)
          \<and> (\<forall>j. j \<noteq> schedule_promise_id s \<longrightarrow>
              promise_in E W j = promise_in E V j \<and> task_in E W j = task_in E V j)
          \<and> (if promise_in E V (schedule_promise_id s) = None
             then \<exists>r. promise_in E W (schedule_promise_id s) = Some (bare r)
                \<and> p_id r = schedule_promise_id s \<and> p_param r = s_promise_param s
                \<and> p_timeout_at r = sat_add at (s_promise_timeout s)
                \<and> om_get (p_tags r) ''resonate:schedule'' = Some i
             else promise_in E W = promise_in E V \<and> task_in E W = task_in E V)
        else W = V)" (is "responds E kv opts w ?m ?P")
proof (rule respondsI [OF assms honest_fire fire_spec [OF begun_shared [OF assms] serving_contract [OF assms]]])
  fix x W
  have good: "good E (kv (w_queue w))" using assms by (simp add: serving_def)
  assume f: "timer_fired E (now (shared_txn E opts w)) (ScheduleAt i at) (kv (queue (shared_txn E opts w))) W"
  show "?P x W"
  proof (cases "\<exists>s. schedule_in E (kv (w_queue w)) i = Some s \<and> s_next_run_at s = at")
    case True
    then obtain s where s: "schedule_in E (kv (w_queue w)) i = Some s" "s_next_run_at s = at" by blast
    have i: "s_id s = i" using goodD(6) [OF good s(1)] by (simp add: schedule_ok_def)
    let ?r = "created_record (shared_now E w) (schedule_promise_data s) (Some at)"
    have r: "p_id ?r = schedule_promise_id s" "p_param ?r = s_promise_param s"
      "p_timeout_at ?r = sat_add at (s_promise_timeout s)" "om_get (p_tags ?r) ''resonate:schedule'' = Some i"
      using s(2) i by (simp_all add: created_record_def schedule_promise_data_def Let_def)
    have next_run: "fired_schedule E s = s\<lparr>s_last_run_at := Some at,
        s_next_run_at := (case next_after E (s_cron s) at of Some nxt \<Rightarrow> nxt | None \<Rightarrow> at)\<rparr>"
      using s(2) by (auto simp: fired_schedule_def split: option.split)
    have "fired_store E (shared_now E w) s (kv (w_queue w)) W"
      using f s by (simp add: timer_fired_def)
    then obtain X where X: "schedule_in E W = (schedule_in E (kv (w_queue w)))(i \<mapsto> fired_schedule E s)"
        "promise_in E W = promise_in E X" "task_in E W = task_in E X"
        "if promise_in E (kv (w_queue w)) (schedule_promise_id s) = None
         then created_store E Dispatch ?r (kv (w_queue w)) X else X = kv (w_queue w)"
      using s(2) i by (auto simp: fired_store_def)
    show ?thesis
    proof (cases "promise_in E (kv (w_queue w)) (schedule_promise_id s) = None")
      case True
      then have "created_store E Dispatch ?r (kv (w_queue w)) X" using X(4) by simp
      with True s r X(1-3) next_run show ?thesis
        by (auto simp: Let_def created_store_def)
    qed (use s X next_run in \<open>simp add: Let_def\<close>)
  next
    case False
    then have "W = kv (w_queue w)"
      using f by (auto simp: timer_fired_def split: option.splits)
    with False show ?thesis
      by (cases "schedule_in E (kv (w_queue w)) i") (simp_all add: Let_def)
  qed
qed

theorem schedule_fires_once_witness:
  "\<exists>x w' s. locked mem_env default_options (fire mem_env (ScheduleAt ''tick'' 60000)) demo = (Inr x, w')
     \<and> schedule_in mem_env (mem_store (w_queue w')) ''tick'' = Some s \<and> s_last_run_at s = Some 60000"
proof -
  have "s_next_run_at demo_schedule = 60000" by (simp add: demo_schedule_def)
  then show ?thesis
    using demo_responds [OF schedule_fires_once [where i = "''tick''" and at = 60000 and opts = default_options, OF demo_serving]]
    by (force simp: Let_def)
qed

section \<open>Delivery\<close>

text \<open>
  C34: A job is delivered with the version its task has, and delivering it does not advance that
  version: a pending task is offered as it is, an acquired one, whose worker has lost its lease,
  is pending again, so that the worker that lost it still names the version that the next
  acquisition replaces; for a task in another state, and for none, no message is sent and nothing
  changes.
\<close>

theorem delivery_offers_task:
  assumes "serving E kv w" "from_slice E ''Delivery'' dec_delivery (c_payload cl) = Inr (Execute i)"
    and "\<forall>p. promise_in E (kv (w_queue w)) i = Some p \<longrightarrow> \<not> expired (shared_now E w) (sp_record p)"
  shows "responds E kv opts w (deliver E cl) (\<lambda>message W.
    case task_in E (kv (w_queue w)) i of
      None \<Rightarrow> message = None \<and> unchanged E (kv (w_queue w)) W
    | Some k \<Rightarrow>
        if t_state k = TPending
        then message = Some (execute_message i (t_version k)) \<and> unchanged E (kv (w_queue w)) W
        else if t_state k = TAcquired
        then message = Some (execute_message i (t_version k))
          \<and> task_becomes E i (k\<lparr>t_state := TPending, t_pid := None, t_ttl := None\<rparr>) (kv (w_queue w)) W
        else message = None \<and> unchanged E (kv (w_queue w)) W)" (is "responds E kv opts w ?m ?P")
proof (rule responds_live [OF assms(1) honest_deliver deliver_execute_spec
      [OF begun_shared [OF assms(1)] serving_contract [OF assms(1)] assms(2)]])
  fix D message W
  assume eq: "promise_in E D = promise_in E (kv (w_queue w))" "task_in E D = task_in E (kv (w_queue w))"
      "schedule_in E D = schedule_in E (kv (w_queue w))" and run: "delivered E i D message W"
  show "?P message W"
    using run over_same [OF eq]
    by (auto simp: delivered_def eq transition_def split: option.splits task_state.splits)
qed (use assms(3) in auto)

theorem delivery_offers_task_witness:
  "\<exists>w'. locked mem_env default_options (deliver mem_env (mem_claim ''job1'' (demo_job ''work''))) demo
       = (Inr (Some (execute_message ''work'' 1)), w')
     \<and> (\<exists>k. task_in mem_env (mem_store (w_queue w')) ''work'' = Some k \<and> t_state k = TPending)"
proof -
  have "from_slice mem_env ''Delivery'' dec_delivery (c_payload (mem_claim ''job1'' (demo_job ''work'')))
      = Inr (Execute ''work'')"
    by (simp add: mem_claim_def demo_job_def from_slice_enc codec)
  from demo_responds [OF delivery_offers_task [OF demo_serving this, of default_options]]
  obtain message w' where run: "locked mem_env default_options (deliver mem_env (mem_claim ''job1'' (demo_job ''work''))) demo
      = (Inr message, w')"
    and m: "message = Some (execute_message ''work'' 1)"
      "task_becomes mem_env ''work'' (work_task\<lparr>t_state := TPending, t_pid := None, t_ttl := None\<rparr>)
        (mem_store (w_queue demo)) (mem_store (w_queue w'))"
    by (auto simp: expired_def)
  then show ?thesis by (simp add: task_becomes_def)
qed

end
