(* ===== verification/Branches.thy ===== *)
theory Branches
  imports Examples
begin

text \<open>
  The preload of a branch.  The code scans the committed index only until it has one id more than
  the limit, merges the index entries of the request itself, sorts and cuts; here it is shown to
  return what a full scan of the index, with the request's own entries, would return.
\<close>

section \<open>The least elements of a list\<close>

lemma in_take_sorted:
  fixes xs :: "'a::linorder list"
  assumes "sorted_wrt (<) xs"
  shows "x \<in> set (take n xs) \<longleftrightarrow> x \<in> set xs \<and> card {y \<in> set xs. y < x} < n"
  using assms
proof (induction xs arbitrary: n)
  case Nil
  then show ?case by simp
next
  case (Cons a xs)
  show ?case
  proof (cases n)
    case 0
    then show ?thesis by simp
  next
    case (Suc m)
    have below: "{y \<in> set (a # xs). y < a} = {}" and new: "a \<notin> set xs"
      using Cons.prems by (auto dest: less_asym)
    have "card {y \<in> set (a # xs). y < x} = Suc (card {y \<in> set xs. y < x})" if "x \<in> set xs"
    proof -
      have "{y \<in> set (a # xs). y < x} = insert a {y \<in> set xs. y < x}"
        using Cons.prems that by auto
      with new show ?thesis by simp
    qed
    moreover have "card {y \<in> set (a # xs). y < a} = 0" using below by simp
    ultimately show ?thesis
      using Cons Suc new by (cases "x = a") (simp_all only: take_Suc_Cons list.set insert_iff sorted_wrt.simps, auto)
  qed
qed

text \<open>The least \<open>n\<close> elements of a set are those of a subset that has \<open>n\<close> elements below any other.\<close>

lemma take_sorted_subset:
  fixes S T :: "'a::linorder set"
  assumes "finite S" "T \<subseteq> S" "\<And>x. x \<in> S \<Longrightarrow> x \<notin> T \<Longrightarrow> n \<le> card {y \<in> T. y < x}"
  shows "take n (sorted_list_of_set T) = take n (sorted_list_of_set S)"
proof -
  have fin: "finite T" using assms(1,2) by (rule rev_finite_subset)
  have strict: "sorted_wrt (<) (take n (sorted_list_of_set U))" for U :: "'a set"
    by (rule sorted_wrt_take) simp
  have le: "card {y \<in> T. y < x} \<le> card {y \<in> S. y < x}" for x
    using assms(1,2) by (intro card_mono) auto
  have "x \<in> T \<and> card {y \<in> T. y < x} < n \<longleftrightarrow> x \<in> S \<and> card {y \<in> S. y < x} < n" for x
  proof
    assume x: "x \<in> T \<and> card {y \<in> T. y < x} < n"
    have "y \<in> T" if y: "y \<in> S" "y < x" for y
    proof (rule ccontr)
      assume "y \<notin> T"
      then have "n \<le> card {z \<in> T. z < y}" using assms(3) y(1) by simp
      also have "\<dots> \<le> card {z \<in> T. z < x}" using fin y(2) by (intro card_mono) auto
      finally show False using x by simp
    qed
    then have "{y \<in> S. y < x} = {y \<in> T. y < x}" using assms(2) by auto
    with x assms(2) show "x \<in> S \<and> card {y \<in> S. y < x} < n" by auto
  next
    assume x: "x \<in> S \<and> card {y \<in> S. y < x} < n"
    then have "card {y \<in> T. y < x} < n" using le [of x] by simp
    with x assms(3) [of x] show "x \<in> T \<and> card {y \<in> T. y < x} < n" by fastforce
  qed
  then have "set (take n (sorted_list_of_set T)) = set (take n (sorted_list_of_set S))"
    by (auto simp: in_take_sorted fin assms(1))
  with strict show ?thesis by (metis sorted_wrt_less_unique)
qed

section \<open>The scans\<close>

text \<open>The ids of entries under a branch's prefix, in key order.\<close>

definition entry_ids :: "bytes \<Rightarrow> string \<Rightarrow> (bytes \<times> 'a) list \<Rightarrow> string list" where
  "entry_ids p own kvs = filter (\<lambda>i. i \<noteq> own) (List.map_filter (\<lambda>kv. branch_entry_id p (fst kv)) kvs)"

lemma entry_ids_simps [simp]:
  "entry_ids p own [] = []"
  "entry_ids p own (kv # kvs) = (case branch_entry_id p (fst kv) of
     None \<Rightarrow> entry_ids p own kvs
   | Some i \<Rightarrow> if i \<noteq> own then i # entry_ids p own kvs else entry_ids p own kvs)"
  by (simp_all add: entry_ids_def List.map_filter_simps split: option.split)

lemma in_entry_ids:
  "i \<in> set (entry_ids p own kvs) \<longleftrightarrow> i \<noteq> own \<and> (\<exists>k v. (k, v) \<in> set kvs \<and> branch_entry_id p k = Some i)"
  by (induction kvs) (auto split: option.split)

lemma scan_branch_all:
  "length ids \<le> n \<Longrightarrow>
   scan_branch p own n (map Inr kvs) ids = Inr (ids @ take (Suc n - length ids) (entry_ids p own kvs))"
proof (induction kvs arbitrary: ids)
  case (Cons kb kvs)
  obtain k b where kb: "kb = (k, b)" by (cases kb)
  show ?case
  proof (cases "\<exists>i. branch_entry_id p k = Some i \<and> i \<noteq> own")
    case True
    then obtain i where i: "branch_entry_id p k = Some i" "i \<noteq> own" by blast
    show ?thesis
    proof (cases "length ids = n")
      case False
      then have "Suc n - length ids = Suc (Suc n - length (ids @ [i]))" using Cons.prems by simp
      with False i kb Cons.prems Cons.IH [of "ids @ [i]"] show ?thesis by simp
    qed (use i kb in simp)
  qed (use Cons kb in \<open>auto split: option.split\<close>)
qed simp

lemma scan_branch_cut:
  "scan_branch p own n (map Inr xs @ [Inl e]) ids = Inr r \<Longrightarrow>
   scan_branch p own n (map Inr (xs @ ys)) ids = Inr r"
  by (induction xs arbitrary: ids) (auto simp: Let_def split: option.splits if_splits)

lemma prefix_le: "prefix p k \<Longrightarrow> p \<le> (k :: string)"
  by (induction p k rule: list_induct2') auto

lemma prefix_between: "prefix p k' \<Longrightarrow> p \<le> k \<Longrightarrow> k \<le> (k' :: string) \<Longrightarrow> prefix p k"
proof (induction p arbitrary: k k')
  case (Cons c p)
  then obtain r where r: "k' = c # r" "prefix p r" by (cases k') auto
  with Cons.prems(2,3) obtain s where "k = c # s" "p \<le> s" "s \<le> r" by (cases k) auto
  with Cons.IH r show ?case by simp
qed simp

lemma branch_entry_prefix: "branch_entry_id p k = Some i \<Longrightarrow> prefix p k"
  by (auto simp: branch_entry_id_def bind_eq_Some_conv)

lemma scan_writes_set:
  assumes "ascending ws" "\<forall>k \<in> fst ` set ws. p \<le> k"
  shows "set (scan_writes p own ws ids) =
      set ids \<union> {i. i \<noteq> own \<and> (\<exists>k v. (k, Some v) \<in> set ws \<and> branch_entry_id p k = Some i)}"
    and "distinct ids \<Longrightarrow> distinct (scan_writes p own ws ids)"
proof -
  have "set (scan_writes p own ws ids) =
      set ids \<union> {i. i \<noteq> own \<and> (\<exists>k v. (k, Some v) \<in> set ws \<and> branch_entry_id p k = Some i)}
    \<and> (distinct ids \<longrightarrow> distinct (scan_writes p own ws ids))"
    using assms
  proof (induction ws arbitrary: ids)
    case (Cons w ws)
    obtain k v where w: "w = (k, v)" by (cases w)
    show ?case
    proof (cases "prefix p k")
      case True
      let ?here = "{i. i \<noteq> own \<and> v \<noteq> None \<and> branch_entry_id p k = Some i}"
      define ids' where "ids' = (case v of None \<Rightarrow> ids
        | Some _ \<Rightarrow> (case branch_entry_id p k of
            None \<Rightarrow> ids | Some i \<Rightarrow> if i \<noteq> own \<and> i \<notin> set ids then ids @ [i] else ids))"
      have ids': "scan_writes p own (w # ws) ids = scan_writes p own ws ids'"
          "set ids' = set ids \<union> ?here" "distinct ids \<Longrightarrow> distinct ids'"
        using True w by (auto simp: ids'_def split: option.splits)
      have "{i. i \<noteq> own \<and> (\<exists>k v. (k, Some v) \<in> set (w # ws) \<and> branch_entry_id p k = Some i)}
          = ?here \<union> {i. i \<noteq> own \<and> (\<exists>k v. (k, Some v) \<in> set ws \<and> branch_entry_id p k = Some i)}"
        using w by auto
      with Cons.IH [of ids'] Cons.prems w ids' show ?thesis by auto
    next
      case False
      have none: "branch_entry_id p k' \<noteq> Some i" if "k' = k \<or> k' \<in> fst ` set ws" for k' i
      proof
        assume b: "branch_entry_id p k' = Some i"
        have "k \<le> k'" using that Cons.prems(1) w by (auto simp: less_imp_le)
        then show False
          using prefix_between [OF branch_entry_prefix [OF b], of k] Cons.prems(2) w False by simp
      qed
      have "k' = k \<or> k' \<in> fst ` set ws" if "(k', v') \<in> set (w # ws)" for k' v'
        using that w by force
      then have empty: "{i. i \<noteq> own \<and> (\<exists>k v. (k, Some v) \<in> set (w # ws) \<and> branch_entry_id p k = Some i)} = {}"
        using none by blast
      show ?thesis unfolding empty using False w by simp
    qed
  qed simp
  then show "set (scan_writes p own ws ids) =
      set ids \<union> {i. i \<noteq> own \<and> (\<exists>k v. (k, Some v) \<in> set ws \<and> branch_entry_id p k = Some i)}"
    and "distinct ids \<Longrightarrow> distinct (scan_writes p own ws ids)" by blast+
qed

lemma range_from:
  fixes ws :: "(string \<times> 'a) list"
  assumes "ascending ws" and rs_def: "rs = dropWhile (\<lambda>(k, v). k < p) ws"
  shows "ascending rs" "\<forall>k \<in> fst ` set rs. p \<le> k" "prefix p k \<Longrightarrow> (k, v) \<in> set rs \<longleftrightarrow> (k, v) \<in> set ws"
proof -
  have split: "ws = takeWhile (\<lambda>(k, v). k < p) ws @ rs" by (simp add: rs_def)
  then have sorted: "sorted_wrt (<) (map fst (takeWhile (\<lambda>(k, v). k < p) ws) @ map fst rs)"
    using assms(1) by (metis ascending_def map_append)
  then show asc: "ascending rs" by (simp add: ascending_def sorted_wrt_append)
  show "\<forall>k \<in> fst ` set rs. p \<le> k"
  proof (cases rs)
    case (Cons x xs)
    then have "\<not> fst x < p" using hd_dropWhile [of "\<lambda>(k, v). k < p" ws] by (auto simp: rs_def split: prod.splits)
    with Cons asc show ?thesis by (cases x) fastforce
  qed simp
  assume "prefix p k"
  then have "\<not> k < p" using prefix_le by (simp add: not_less)
  then have "(k, v) \<notin> set (takeWhile (\<lambda>(k, v). k < p) ws)" by (auto dest: set_takeWhileD)
  then show "(k, v) \<in> set rs \<longleftrightarrow> (k, v) \<in> set ws" using split by (metis Un_iff set_append)
qed

section \<open>The preload\<close>

text \<open>The promises of a branch other than \<open>own\<close>, by the index as the transaction sees it.\<close>

definition branch_siblings :: "store \<Rightarrow> string \<Rightarrow> string \<Rightarrow> string set" where
  "branch_siblings V branch own = {i. utf8 i \<and> i \<noteq> own \<and> V (branch_key branch i) \<noteq> None}"

text \<open>The index entries of the requests are never deletions.\<close>

definition index_grows :: "'q txn \<Rightarrow> string \<Rightarrow> bool" where
  "index_grows t branch \<longleftrightarrow> (\<forall>i. om_get (writes t) (branch_key branch i) \<noteq> Some None)"

lemma committed_siblings:
  assumes "lists_prefix V (branch_prefix b) kvs"
  shows "sorted_wrt (<) (entry_ids (branch_prefix b) own kvs)"
    and "set (entry_ids (branch_prefix b) own kvs) = branch_siblings V b own"
proof -
  have "sorted_wrt (<) (map fst kvs)" "\<forall>kv \<in> set kvs. prefix (branch_prefix b) (fst kv)"
    using assms by (auto simp: lists_prefix_def)
  then show "sorted_wrt (<) (entry_ids (branch_prefix b) own kvs)"
  proof (induction kvs)
    case (Cons kv kvs)
    have "i < j" if "branch_entry_id (branch_prefix b) (fst kv) = Some i" "j \<in> set (entry_ids (branch_prefix b) own kvs)"
      for i j
      using that Cons.prems
      by (auto simp: in_entry_ids branch_entry_id_Some branch_key_def)
    with Cons show ?case by (auto split: option.split)
  qed simp
  show "set (entry_ids (branch_prefix b) own kvs) = branch_siblings V b own"
    using assms prefix_of_key(4) [of b]
    by (auto simp: in_entry_ids branch_entry_id_Some branch_siblings_def lists_prefix_def)
qed

lemma preload_ids_full:
  assumes c: "queue_contract E kv" and g: "index_grows t b" and r: "preload_ids E b own t = Inr ids"
  shows "ids = take (preload_limit t) (sorted_list_of_set (branch_siblings (view kv t) b own))"
    and "finite (branch_siblings (view kv t) b own)"
proof -
  let ?p = "branch_prefix b" and ?n = "preload_limit t"
  let ?rs = "dropWhile (\<lambda>(k, v). k < ?p) (entries (writes t))"
  obtain kvs where kvs: "lists_prefix (kv (queue t)) ?p kvs"
    and stream: "q_kv_entries E (queue t) ?p = map Inr kvs
      \<or> (\<exists>n e. q_kv_entries E (queue t) ?p = map Inr (take n kvs) @ [Inl e])"
    using contract_entries [OF c] by metis
  let ?C = "entry_ids ?p own kvs"
  note C = committed_siblings [OF kvs, of own]
  have dC: "distinct ?C" using C(1) by (simp add: strict_sorted_iff)
  obtain found where found: "scan_branch ?p own ?n (q_kv_entries E (queue t) ?p) [] = Inr found"
      "ids = take ?n (sort (scan_writes ?p own ?rs found))"
    using r by (auto simp: preload_ids_def Let_def split: sum.splits)
  have "scan_branch ?p own ?n (map Inr kvs) [] = Inr found"
    using stream
  proof (elim disjE exE)
    fix m e assume "q_kv_entries E (queue t) ?p = map Inr (take m kvs) @ [Inl e]"
    then show ?thesis
      using found(1) scan_branch_cut [of ?p own ?n "take m kvs" e "[]" found "drop m kvs"] by simp
  qed (use found(1) in simp)
  then have f: "found = take (Suc ?n) ?C" by (simp add: scan_branch_all)
  have asc: "ascending (entries (writes t))" by simp
  note rs = range_from [OF asc refl, of ?p]
  have W: "{i. i \<noteq> own \<and> (\<exists>k v. (k, Some v) \<in> set ?rs \<and> branch_entry_id ?p k = Some i)}
      = {i. utf8 i \<and> i \<noteq> own \<and> (\<exists>v. om_get (writes t) (branch_key b i) = Some (Some v))}" (is "_ = ?W")
    using rs(3) prefix_of_key(4) [of b] by (auto simp: branch_entry_id_Some in_entries)
  let ?T = "set (scan_writes ?p own ?rs found)" and ?S = "branch_siblings (view kv t) b own"
  have T: "?T = set found \<union> ?W"
    by (simp only: scan_writes_set(1) [OF rs(1,2)] W)
  have dT: "distinct (scan_writes ?p own ?rs found)"
    by (rule scan_writes_set(2) [OF rs(1,2)]) (simp add: f dC)
  have S: "?S = set ?C \<union> ?W"
    using g C(2) by (auto simp: branch_siblings_def view_def index_grows_def split: option.splits)
  have "finite (set found \<union> ?W)"
    unfolding T [symmetric] by (rule List.finite_set)
  with S show fin: "finite ?S" by simp
  have "sort (scan_writes ?p own ?rs found) = sorted_list_of_set ?T"
    using dT by (simp add: sorted_list_of_set_sort_remdups distinct_remdups_id)
  moreover have "take ?n (sorted_list_of_set ?T) = take ?n (sorted_list_of_set ?S)"
  proof (rule take_sorted_subset [OF fin])
    show "?T \<subseteq> ?S" using T S f by (auto dest: in_set_takeD)
    fix x assume "x \<in> ?S" "x \<notin> ?T"
    then have x: "x \<in> set ?C" "x \<notin> set (take (Suc ?n) ?C)" using S T f by auto
    have long: "Suc ?n < length ?C"
    proof (rule ccontr)
      assume "\<not> Suc ?n < length ?C"
      then have "take (Suc ?n) ?C = ?C" by simp
      with x show False by simp
    qed
    have "sorted_wrt (<) (take (Suc ?n) ?C @ drop (Suc ?n) ?C)" using C(1) by simp
    moreover have "x \<in> set (drop (Suc ?n) ?C)"
      using x by (metis Un_iff append_take_drop_id set_append)
    ultimately have "y < x" if "y \<in> set found" for y
      using that f unfolding sorted_wrt_append by blast
    then have "set found \<subseteq> {y \<in> ?T. y < x}" using T by auto
    then have "card (set found) \<le> card {y \<in> ?T. y < x}" by (intro card_mono) auto
    moreover have "card (set found) = Suc ?n"
      using distinct_card [of found] dC long by (simp add: f)
    ultimately show "?n \<le> card {y \<in> ?T. y < x}" by simp
  qed
  ultimately show "ids = take ?n (sorted_list_of_set ?S)" using found(2) by simp
qed

lemma load_records_state: "\<exists>r. load_records E ids t = (r, t)"
proof (induction ids)
  case (Cons i ids)
  then obtain r where "load_records E ids t = (r, t)" by blast
  then show ?case
    by (cases "get_json E ''StoredPromise'' dec_stored_promise (promise_key i) t"; cases r)
      (simp_all add: run_bnd run_ret get_promise_def)
qed (simp add: run_ret)

lemma branch_entry_other:
  "put_p p V (branch_key b i) = V (branch_key b i)" "put_t k V (branch_key b i) = V (branch_key b i)"
  "put_s s V (branch_key b i) = V (branch_key b i)"
  by (simp_all add: put_defs)

text \<open>
  C37: The preload that a reply carries is exactly what a full scan of the branch would give: the
  records of the promises indexed under the branch, those of the request itself included and the
  promise itself excluded, in id order and at most as many as the limit.  The scan that stops
  early, the merge of the request's own entries and the cut lose nothing and add nothing; only a
  failed read of the queue ends it otherwise, and nothing is changed.
\<close>

theorem preload_complete:
  assumes "queue_contract E kv" "good E (view kv t)" "om_get (p_tags p) TAG_BRANCH = Some branch"
    and "index_grows t branch" "preload E p t = (r, t')"
  shows "t' = t \<and> (case r of
      Inl e \<Rightarrow> \<exists>x. e = Storage x
    | Inr records \<Rightarrow> length records \<le> preload_limit t
        \<and> finite (branch_siblings (view kv t) branch (p_id p))
        \<and> records = map sp_record (List.map_filter (promise_in E (view kv t))
            (take (preload_limit t) (sorted_list_of_set (branch_siblings (view kv t) branch (p_id p))))))"
proof -
  let ?ids = "take (preload_limit t) (sorted_list_of_set (branch_siblings (view kv t) branch (p_id p)))"
  have inv: "tx_inv E kv t t" using assms(2) by (simp add: tx_inv_def)
  have short: "length (map f (List.map_filter g ids)) \<le> length ids" for f :: "stored_promise \<Rightarrow> promise_record" and g and ids :: "string list"
    by (induction ids) (auto simp: List.map_filter_simps split: option.split)
  have "wp (preload E p) (\<lambda>r t'. t' = t \<and> (case r of Inl e \<Rightarrow> \<exists>x. e = Storage x
      | Inr records \<Rightarrow> finite (branch_siblings (view kv t) branch (p_id p))
          \<and> records = map sp_record (List.map_filter (promise_in E (view kv t)) ?ids))) t"
  proof (cases "preload_ids E branch (p_id p) t")
    case (Inl e)
    then have "\<exists>x. e = Storage x"
      by (auto simp: preload_ids_def Let_def dest: scan_branch_error split: sum.splits)
    with Inl assms(3) show ?thesis by (simp add: preload_def wp_def run_bnd reads_def)
  next
    case (Inr ids)
    note full = preload_ids_full [OF assms(1,4) Inr]
    have "wp (load_records E ids) (\<lambda>r t'. t' = t \<and> (case r of Inl e \<Rightarrow> \<exists>x. e = Storage x
      | Inr records \<Rightarrow> records = map sp_record (List.map_filter (promise_in E (view kv t)) ids))) t"
      using load_records_spec [OF assms(1) inv, of ids] load_records_state [of E ids t]
      by (auto simp: wp_def keeps_def split: sum.splits)
    then have "wp (load_records E ids) (\<lambda>r t'. t' = t \<and> (case r of Inl e \<Rightarrow> \<exists>x. e = Storage x
      | Inr records \<Rightarrow> finite (branch_siblings (view kv t) branch (p_id p))
          \<and> records = map sp_record (List.map_filter (promise_in E (view kv t)) ?ids))) t"
      unfolding full(1) by (rule wp_mono) (use full(2) in \<open>auto split: sum.splits\<close>)
    with Inr assms(3) show ?thesis by (simp add: preload_def wp_def run_bnd reads_def)
  qed
  then show ?thesis
    using assms(5) short [of sp_record "promise_in E (view kv t)" ?ids]
    by (auto simp: wp_def split: sum.splits)
qed

text \<open>A request on the example store that has indexed a promise under a branch.\<close>

definition branch_txn :: "mem txn" where
  "branch_txn = (shared_txn mem_env default_options demo)
     \<lparr>writes := om_insert (branch_key ''b'' ''work:1'') (Some (Raw [])) om_empty\<rparr>"

lemma view_one_write:
  "view kv ((shared_txn E opts w)\<lparr>writes := om_insert k (Some v) om_empty\<rparr>) = (kv (w_queue w))(k \<mapsto> v)"
  by (auto simp: fun_eq_iff view_def)

lemma branch_txn_view: "view mem_store branch_txn = (mem_store (w_queue demo))(branch_key ''b'' ''work:1'' \<mapsto> Raw [])"
  unfolding branch_txn_def by (rule view_one_write)

lemma good_indexed: "good E V \<Longrightarrow> good E (V(branch_key b i \<mapsto> v))"
  by (rule good_same_records(1) [where V = V]) (simp_all add: same_records_def)

lemma branch_txn_good: "good mem_env (view mem_store branch_txn)"
  unfolding branch_txn_view by (rule good_indexed [OF demo_good])

lemma branch_txn_siblings: "branch_siblings (view mem_store branch_txn) ''b'' ''root'' = {''work:1''}"
proof -
  have "mem_store (w_queue demo) (branch_key ''b'' i) = None" for i
    by (simp only: demo_store branch_entry_other)
  moreover have "utf8 ''work:1''" by (rule utf8_ascii) simp
  ultimately show ?thesis
    by (auto simp: branch_siblings_def branch_txn_view branch_key_def)
qed

theorem preload_complete_witness:
  "\<exists>r. preload mem_env (pending_record ''root'' (om_insert TAG_BRANCH ''b'' om_empty)) branch_txn = (r, branch_txn)
     \<and> (case r of Inl e \<Rightarrow> \<exists>x. e = Storage x | Inr records \<Rightarrow> records = [sp_record work_child])"
proof -
  let ?p = "pending_record ''root'' (om_insert TAG_BRANCH ''b'' om_empty)"
  obtain r t' where run: "preload mem_env ?p branch_txn = (r, t')" by (metis surj_pair)
  have limit: "preload_limit branch_txn = 10"
    by (simp add: branch_txn_def shared_txn_def new_txn_def default_options_def)
  have grows: "index_grows branch_txn ''b''" by (simp add: index_grows_def branch_txn_def)
  have id: "p_id ?p = ''root''" "om_get (p_tags ?p) TAG_BRANCH = Some ''b''"
    by (simp_all add: pending_record_def)
  have "promise_in mem_env (view mem_store branch_txn) ''work:1'' = Some work_child"
    by (simp add: branch_txn_view)
  then show ?thesis
    using preload_complete [OF mem_contract branch_txn_good id(2) grows run] run
    by (auto simp: id(1) branch_txn_siblings limit List.map_filter_simps split: sum.splits)
qed

end
