(* ===== verification/Search_Properties.thy ===== *)
theory Search_Properties
  imports Examples
begin

text \<open>
  Searches and their pages: what one search answers, and that following the cursors visits every
  record once and ends.
\<close>

text \<open>
  A search answers from the records as they are stored: it applies no deadline, so a promise that
  is pending past its deadline is listed as pending.
\<close>

lemma stored_search_page:
  assumes "serving E kv w"
  shows "responds E kv opts w (promise_search E d) (\<lambda>reply W. W = kv (w_queue w)
    \<and> (case search_limit (sq_limit d) DEFAULT_SEARCH_LIMIT of
         Inl r \<Rightarrow> reply = r
       | Inr n \<Rightarrow> \<exists>all. sorted_wrt (<) (map p_id all)
           \<and> (\<forall>r. r \<in> set all \<longleftrightarrow> (sq_state d = None \<or> sq_state d = Some (p_state r))
               \<and> tags_match (p_tags r) (sq_tags d)
               \<and> map_option sp_record (promise_in E (kv (w_queue w)) (p_id r)) = Some r)
           \<and> (let rest = filter (\<lambda>r. case sq_cursor d of None \<Rightarrow> True | Some c \<Rightarrow> c < p_id r) all in
              reply = ok (with_cursor (jobj [(''promises'', enc_list enc_promise (take n rest))])
                (if length rest \<le> n then None else Some (p_id (last (take n rest))))))))"
    (is "responds E kv opts w ?m ?P")
proof (rule respondsI [OF assms honest_promise_requests(6) promise_search_spec
      [OF begun_shared [OF assms] serving_contract [OF assms]]])
  fix reply W
  let ?V = "kv (w_queue w)"
  assume "W = kv (queue (shared_txn E opts w)) \<and>
    search_reply (sq_limit d) DEFAULT_SEARCH_LIMIT (searched ''promises'' enc_promise p_id
      (matching (promise_in E (kv (queue (shared_txn E opts w)))) (\<lambda>p. p_id (sp_record p)) sp_record (promise_matches d))
      (sq_cursor d)) reply"
  then have W: "W = ?V" and found: "search_reply (sq_limit d) DEFAULT_SEARCH_LIMIT (searched ''promises'' enc_promise p_id
      (matching (promise_in E ?V) (\<lambda>p. p_id (sp_record p)) sp_record (promise_matches d)) (sq_cursor d)) reply"
    by simp_all
  show "?P reply W"
  proof (cases "search_limit (sq_limit d) DEFAULT_SEARCH_LIMIT")
    case (Inr n)
    have n: "1 \<le> n"
      using search_limit_bounds [OF Inr] by (simp add: limit_defs)
    obtain ps page_found nxt where ps: "lists_records (promise_in E ?V) (\<lambda>p. p_id (sp_record p)) ps"
      and page: "page (filter (promise_matches d) (map sp_record ps)) p_id (sq_cursor d) n = Inr (page_found, nxt)"
        "reply = ok (with_cursor (jobj [(''promises'', enc_list enc_promise page_found)]) nxt)"
      using found Inr by (auto simp: search_reply_def searched_def matching_def)
    let ?all = "filter (promise_matches d) (map sp_record ps)"
    have sorted: "sorted_wrt (<) (map p_id ?all)"
      using ps by (simp add: lists_records_def sorted_wrt_map sorted_wrt_filter comp_def)
    have members: "r \<in> set ?all \<longleftrightarrow> (sq_state d = None \<or> sq_state d = Some (p_state r))
        \<and> tags_match (p_tags r) (sq_tags d) \<and> map_option sp_record (promise_in E ?V (p_id r)) = Some r" for r
      using ps by (auto simp: lists_records_def promise_matches_def)
    have "page_found = take n (items_after ?all p_id (sq_cursor d))"
      "nxt = (if length (items_after ?all p_id (sq_cursor d)) \<le> n then None
        else Some (p_id (last (take n (items_after ?all p_id (sq_cursor d))))))"
      using page(1) by (auto simp: page_cases [OF n] Let_def split: if_splits)
    with Inr W page(2) sorted members show ?thesis
      by (simp only: sum.case Let_def simp_thms) (intro exI [where x = ?all] conjI allI, assumption+, rule refl)
  qed (use W found in \<open>simp add: search_reply_def\<close>)
qed

text \<open>
  C35: While no stored promise is past its deadline, a search reads one page of the promises that
  match, in id order: those after the cursor, at most as many as the limit, and a cursor, the id
  of the last of them, exactly when more remain; every promise it lists is as a request that
  reads it would find it.  A limit out of range is refused, and a search changes nothing.
\<close>

theorem promise_search_page:
  assumes "serving E kv w"
    and "\<forall>i p. promise_in E (kv (w_queue w)) i = Some p \<longrightarrow> \<not> expired (shared_now E w) (sp_record p)"
  shows "responds E kv opts w (promise_search E d) (\<lambda>reply W. W = kv (w_queue w)
    \<and> (case search_limit (sq_limit d) DEFAULT_SEARCH_LIMIT of
         Inl r \<Rightarrow> reply = r
       | Inr n \<Rightarrow> \<exists>all. sorted_wrt (<) (map p_id all)
           \<and> (\<forall>r. r \<in> set all \<longleftrightarrow> (sq_state d = None \<or> sq_state d = Some (p_state r))
               \<and> tags_match (p_tags r) (sq_tags d)
               \<and> map_option (\<lambda>p. sp_record (at_deadline (shared_now E w) True p))
                    (promise_in E (kv (w_queue w)) (p_id r)) = Some r)
           \<and> (let rest = filter (\<lambda>r. case sq_cursor d of None \<Rightarrow> True | Some c \<Rightarrow> c < p_id r) all in
              reply = ok (with_cursor (jobj [(''promises'', enc_list enc_promise (take n rest))])
                (if length rest \<le> n then None else Some (p_id (last (take n rest))))))))"
proof -
  have "map_option (\<lambda>p. sp_record (at_deadline (shared_now E w) True p)) (promise_in E (kv (w_queue w)) i)
      = map_option sp_record (promise_in E (kv (w_queue w)) i)" for i
    using assms(2) by (cases "promise_in E (kv (w_queue w)) i") (simp_all add: at_deadline_def)
  then show ?thesis using stored_search_page [OF assms(1), of opts d] by (simp only:)
qed

definition demo_search :: promise_search_data where
  "demo_search = \<lparr>sq_state = Some PPending, sq_tags = None, sq_limit = Some 10, sq_cursor = None\<rparr>"

lemma demo_search_limit: "search_limit (sq_limit demo_search) DEFAULT_SEARCH_LIMIT = Inr 10"
  by (simp add: demo_search_def search_limit_def MAX_SEARCH_LIMIT_def)

theorem promise_search_page_witness:
  "\<exists>reply w'. locked mem_env default_options (promise_search mem_env demo_search) demo = (Inr reply, w')
     \<and> mem_store (w_queue w') = mem_store (w_queue demo) \<and> status reply = 200"
proof -
  have "\<forall>i p. promise_in mem_env (mem_store (w_queue demo)) i = Some p \<longrightarrow> \<not> expired (shared_now mem_env demo) (sp_record p)"
    by (auto simp: expired_def split: if_splits)
  from demo_responds [OF promise_search_page [where d = demo_search and opts = default_options, OF demo_serving this]]
  show ?thesis by (elim exE conjE) (auto simp: Let_def demo_search_limit)
qed

text \<open>The example store after the deadline of its pending promises: a search still lists them as pending.\<close>

definition late_demo :: "mem world" where
  "late_demo = demo\<lparr>w_queue := demo_queue\<lparr>m_clock := 2000\<rparr>\<rparr>"

lemma late_demo_store: "mem_store (w_queue late_demo) = mem_store (w_queue demo)"
  by (simp add: late_demo_def demo_def)

theorem search_lists_expired:
  "\<exists>w' found cursor. locked mem_env default_options (promise_search mem_env demo_search) late_demo
       = (Inr (ok (with_cursor (jobj [(''promises'', enc_list enc_promise found)]) cursor)), w')
     \<and> sp_record root_promise \<in> set found \<and> p_state (sp_record root_promise) = PPending
     \<and> expired (shared_now mem_env late_demo) (sp_record root_promise)"
proof -
  have late: "expired (shared_now mem_env late_demo) (sp_record root_promise)"
    by (simp add: expired_def shared_now_def late_demo_def clamp_i64_def i64_max_def)
  have pending: "p_state (sp_record root_promise) = PPending" by (simp add: demo_records)
  have "serving mem_env mem_store late_demo"
    using demo_serving by (simp add: serving_def late_demo_store)
  note listed = stored_search_page [OF this, of default_options demo_search,
      unfolded demo_search_limit sum.case late_demo_store Let_def]
  obtain reply w' all where run: "locked mem_env default_options (promise_search mem_env demo_search) late_demo = (Inr reply, w')"
    and sorted: "sorted_wrt (<) (map p_id all)"
    and all: "\<forall>r. r \<in> set all \<longleftrightarrow> (sq_state demo_search = None \<or> sq_state demo_search = Some (p_state r))
      \<and> tags_match (p_tags r) (sq_tags demo_search)
      \<and> map_option sp_record (promise_in mem_env (mem_store (w_queue demo)) (p_id r)) = Some r"
    and reply: "reply = ok (with_cursor (jobj [(''promises'', enc_list enc_promise (take 10
      (filter (\<lambda>r. case sq_cursor demo_search of None \<Rightarrow> True | Some c \<Rightarrow> c < p_id r) all)))])
      (if length (filter (\<lambda>r. case sq_cursor demo_search of None \<Rightarrow> True | Some c \<Rightarrow> c < p_id r) all) \<le> 10 then None
       else Some (p_id (last (take 10 (filter (\<lambda>r. case sq_cursor demo_search of None \<Rightarrow> True | Some c \<Rightarrow> c < p_id r) all))))))"
    using demo_responds [OF listed] by (elim exE conjE)
  have search: "sq_state demo_search = Some PPending" "sq_tags demo_search = None" "sq_cursor demo_search = None"
    by (simp_all add: demo_search_def)
  have ids: "p_id ` set all \<subseteq> {''root'', ''root:1'', ''work'', ''idle'', ''work:1'', ''work:0'', ''root:0'', ''old''}"
    using all by (auto split: if_splits)
  have "card (set (map p_id all)) \<le> 8"
    using card_mono [OF _ ids] by (simp add: card_insert_if)
  moreover have "distinct (map p_id all)" using sorted by (simp add: strict_sorted_iff)
  ultimately have "length all \<le> 10" using distinct_card [of "map p_id all"] by simp
  then have "reply = ok (with_cursor (jobj [(''promises'', enc_list enc_promise all)]) None)"
    using reply by (simp add: search)
  moreover have "sp_record root_promise \<in> set all"
    using all by (simp add: search tags_match_def pending)
  ultimately show ?thesis using run late pending by blast
qed

text \<open>
  C36: Paging ends and misses nothing: from any cursor, following the cursors of the pages ends
  after at most as many further pages as items remain, and the pages together are the items after
  the cursor, each once and in order, for every limit of at least one.
\<close>

theorem paging_complete:
  assumes "sorted_wrt (<) (map id_of items)" "1 \<le> limit"
  shows "walk (length (items_after items id_of cursor)) items id_of cursor limit = Some (items_after items id_of cursor)
    \<and> (\<forall>found nxt. page items id_of cursor limit = Inr (found, nxt) \<longrightarrow> length found \<le> limit
        \<and> (nxt = None \<longleftrightarrow> length (items_after items id_of cursor) \<le> limit))"
  using walk_rest [OF assms order_refl] by (auto simp: page_cases [OF assms(2)] Let_def)

theorem paging_complete_witness:
  "walk 3 [1, 2, 3 :: nat] (\<lambda>n. replicate n (CHR ''a'')) None 2 = Some [1, 2, 3]"
  using paging_complete [where items = "[1, 2, 3 :: nat]" and id_of = "\<lambda>n. replicate n (CHR ''a'')" and limit = 2 and cursor = None]
  by (simp add: numeral_eq_Suc)

end
