(* ===== verification/Format_Properties.thy ===== *)
theory Format_Properties
  imports Examples
begin

text \<open>
  The stored and the wire formats: what is written is read back, what does not parse changes
  nothing, and the names of the queues are those the queue accepts and tell addresses apart.
\<close>

section \<open>Records\<close>

text \<open>
  C38: What a transaction stores it reads back: the record put under an id, a promise, a task or a
  schedule, with all its optional fields, tags, registrations and resumes, is the record that the
  next read of that id returns; and the payloads of jobs and timers decode to what was enqueued.
\<close>

theorem stored_records_read_back:
  "fst (get_promise E (p_id (sp_record p)) (snd (put_promise p t))) = Inr (Some p)
   \<and> fst (get_task E (t_id k) (snd (put_task k t))) = Inr (Some k)
   \<and> fst (get_schedule E (s_id s) (snd (put_schedule s t))) = Inr (Some s)
   \<and> from_slice E ty dec_delivery (Doc (enc_delivery d)) = Inr d
   \<and> from_slice E ty dec_timer (Doc (enc_timer tm)) = Inr tm"
  by (simp add: get_promise_def put_promise_def get_task_def put_task_def get_schedule_def put_schedule_def
      modify_def reads_def put_json_def get_json_def get_raw_def from_slice_enc codec)

section \<open>Envelopes\<close>

text \<open>
  C39: A malformed request is answered and changes nothing: text that is not JSON, that is not a
  request, that has no kind, another protocol version or data that is not an object, is answered
  with status 400, at the time of the store, with the kind and the correlation id that the text
  has where they can be read, and neither the queue nor the held claims are touched.
\<close>

theorem malformed_request_refused:
  assumes "\<not> (\<exists>value request. x_json_parse E raw = Inr value \<and> dec_request value = Some request
      \<and> rq_kind request \<noteq> [] \<and> is_object (rq_data request)
      \<and> (hd_version (rq_head request) = None \<or> hd_version (rq_head request) = Some PROTOCOL_VERSION))"
  shows "\<exists>kind corr_id message.
    send_timed E opts raw w = (Some (shared_now E w, x_json_text E (response kind corr_id (RErr 400 message))), w)
    \<and> (\<forall>value. x_json_parse E raw = Inr value \<longrightarrow> kind = str_or_default (jget value ''kind'')
        \<and> corr_id = str_or_default (jget (jget value ''head'') ''corrId''))"
proof -
  obtain kind corr_id reply where parsed: "parse_request E raw = Inl (kind, corr_id, reply)"
  proof (cases "parse_request E raw")
    case (Inl x)
    then show ?thesis using that by (cases x) auto
  qed (use assms parse_request_ok in blast)
  have "\<exists>message. reply = RErr 400 message"
    using parsed by (auto simp: parse_request_def invalid_request_def err_def Let_def
        split: sum.splits option.splits if_splits)
  moreover have "kind = str_or_default (jget v ''kind'') \<and> corr_id = str_or_default (jget (jget v ''head'') ''corrId'')"
    if "x_json_parse E raw = Inr v" for v
    using parsed that by (auto simp: parse_request_def Let_def split: option.splits if_splits)
  ultimately show ?thesis
    using parsed by (auto simp: send_timed_def)
qed

theorem malformed_request_refused_witness:
  "\<exists>kind corr_id message. send_timed mem_env default_options ''{'' demo
     = (Some (0, mem_text (response kind corr_id (RErr 400 message))), demo)"
  using malformed_request_refused [of mem_env "''{''" default_options demo]
  by (auto simp: mem_parse_def)

section \<open>Queue names\<close>

lemma hex_alphanumeric:
  "d < 16 \<Longrightarrow> ascii_alphanumeric (hex_upper d)" "d < 16 \<Longrightarrow> ascii_alphanumeric (hex_lower d)"
  by (auto simp: ascii_alphanumeric_def hex_upper_def hex_lower_def Let_def take_bit_eq_mod)

lemma byte_alphanumeric:
  "x \<in> set (byte_upper c) \<Longrightarrow> ascii_alphanumeric x" "x \<in> set (byte_lower c) \<Longrightarrow> ascii_alphanumeric x"
  by (auto simp: byte_upper_def byte_lower_def Let_def less_mult_imp_div_less intro!: hex_alphanumeric)

lemma byte_lower_inject: "byte_lower c = byte_lower d \<Longrightarrow> c = d"
proof -
  have hex: "a < 16 \<Longrightarrow> b < 16 \<Longrightarrow> hex_lower a = hex_lower b \<Longrightarrow> a = b" for a b
    by (auto simp: hex_lower_def char_of_eq_iff take_bit_eq_mod split: if_splits)
  assume "byte_lower c = byte_lower d"
  then have "(of_char c :: nat) div 16 = of_char d div 16" "(of_char c :: nat) mod 16 = of_char d mod 16"
    by (auto simp: byte_lower_def Let_def less_mult_imp_div_less intro!: hex)
  then have "(of_char c :: nat) = of_char d" by (metis div_mult_mod_eq)
  then show ?thesis by simp
qed

lemma length_byte_lower [simp]: "length (byte_lower c) = 2"
  by (simp add: byte_lower_def Let_def)

lemma length_lower: "length (concat (map byte_lower bs)) = 2 * length bs"
  by (induction bs) simp_all

lemma lower_inject: "concat (map byte_lower a) = concat (map byte_lower b) \<Longrightarrow> a = b"
proof (induction a arbitrary: b)
  case Nil
  have "2 * length b = 2 * length ([] :: bytes)"
    unfolding length_lower [symmetric] by (simp only: Nil)
  then show ?case by simp
next
  case (Cons c cs)
  then obtain d ds where b: "b = d # ds" by (cases b) (auto simp: byte_lower_def Let_def)
  have "byte_lower c = byte_lower d \<and> concat (map byte_lower cs) = concat (map byte_lower ds)"
    using Cons.prems b append_eq_append_conv [of "byte_lower c" "byte_lower d"] by simp
  with Cons.IH b show ?case using byte_lower_inject by blast
qed

lemma digest_name_digest: "digest_name E a = digest_name E b \<Longrightarrow> x_sha256 E a = x_sha256 E b"
  using lower_inject by (simp add: digest_name_def)

text \<open>The characters the crate puts into the name of a queue.\<close>

definition name_char :: "char \<Rightarrow> bool" where
  "name_char c \<longleftrightarrow> ascii_alphanumeric c \<or> c \<in> {CHR ''.'', CHR ''-'', CHR ''_''}"

lemma plain_names: "\<forall>c \<in> set ''resonate.a.''. name_char c" "\<forall>c \<in> set ''resonate.h.''. name_char c"
  by (code_simp, code_simp)

lemma escape_name_char: "x \<in> set (escape_byte c) \<Longrightarrow> name_char x"
  by (auto simp: escape_byte_def name_char_def byte_alphanumeric split: if_splits)

text \<open>
  C40: The name of an address's queue is one the queue accepts and belongs to that address: over
  a digest of 32 bytes and a limit that a digest's name fits in, the name is never longer than
  the limit, has only letters, digits, dots, dashes and underscores, is never the name of the
  timers' queue, and two addresses share a name only when their digests collide.
\<close>

theorem address_queue_names:
  assumes "\<And>b. length (x_sha256 E b) = 32" "75 \<le> x_max_queue_name E"
  shows "length (address_queue E a) \<le> x_max_queue_name E \<and> (\<forall>c \<in> set (address_queue E a). name_char c)
    \<and> address_queue E a \<noteq> TIMER_QUEUE
    \<and> (address_queue E a = address_queue E b \<longrightarrow> a = b \<or> x_sha256 E a = x_sha256 E b)"
proof (intro conjI impI)
  show "length (address_queue E a) \<le> x_max_queue_name E"
    using assms by (simp add: address_queue_def digest_name_def length_lower)
  show "\<forall>c \<in> set (address_queue E a). name_char c"
    using plain_names escape_name_char byte_alphanumeric(2)
    by (auto simp: address_queue_def escaped_name_def digest_name_def name_char_def [of "_"] split: if_splits)
  show "address_queue E a \<noteq> TIMER_QUEUE" by simp
  show "a = b \<or> x_sha256 E a = x_sha256 E b" if "address_queue E a = address_queue E b"
    using that digest_name_digest by (auto simp: address_queue_def split: if_splits)
qed

definition digest_env :: "mem env" where
  "digest_env = mem_env\<lparr>x_sha256 := \<lambda>b. replicate 32 (CHR 0x00)\<rparr>"

theorem address_queue_names_witness:
  "length (address_queue digest_env demo_target) \<le> 128 \<and> address_queue digest_env demo_target \<noteq> TIMER_QUEUE"
  using address_queue_names [of digest_env demo_target demo_target] by (simp add: digest_env_def mem_env_def)

end
