(* ===== verification/Obligations.thy ===== *)
theory Obligations
  imports Waiting
begin

text \<open>
  What the records owe the queue.  A pending promise that can be awaited is settled at its
  deadline by a timer, a task is offered to its workers by a job, and a schedule fires by the
  timer of its next run: here, every operation that leaves such a record hands the job to the
  queue in the same transaction, so that no record is ever without it.
\<close>

section \<open>The jobs of a queue\<close>

text \<open>
  \<open>jobs q\<close> is the set of the requests the queue has accepted up to its state \<open>q\<close>.  The effects
  of a settlement are applied all together or not at all, the requests with the writes, and no
  operation makes the queue forget what it has accepted.
\<close>

definition accepted ::
  "('q \<Rightarrow> store) \<Rightarrow> ('q \<Rightarrow> enqueue_request set) \<Rightarrow> effects \<Rightarrow> 'q \<Rightarrow> queue_error + unit \<Rightarrow> 'q \<Rightarrow> bool" where
  "accepted kv jobs ef q r q' \<longleftrightarrow> jobs q \<subseteq> jobs q'
     \<and> (r \<noteq> Inr () \<and> kv q' = kv q
        \<or> kv q' = apply_effects ef (kv q) \<and> set (ef_enqueues ef) \<subseteq> jobs q')"

definition accepts :: "('q, 'x) env_scheme \<Rightarrow> ('q \<Rightarrow> store) \<Rightarrow> ('q \<Rightarrow> enqueue_request set) \<Rightarrow> bool" where
  "accepts E kv jobs \<longleftrightarrow>
     (\<forall>q ef r q'. q_commit_effects E q ef = (r, q') \<longrightarrow> accepted kv jobs ef q r q')
     \<and> (\<forall>q c ef r q'. q_ack_with E q c ef = (r, q') \<longrightarrow> accepted kv jobs ef q r q')
     \<and> (\<forall>q. jobs q \<subseteq> jobs (snd (q_next_job_id E q)))
     \<and> (\<forall>q c l. jobs q \<subseteq> jobs (snd (q_renew_lease E q c l)))
     \<and> (\<forall>q j l. jobs q \<subseteq> jobs (snd (q_claim_by_id E q j l)))
     \<and> (\<forall>q n l. jobs q \<subseteq> jobs (snd (q_claim E q n l)))
     \<and> (\<forall>q c. jobs q \<subseteq> jobs (snd (q_ack E q c)))
     \<and> (\<forall>q c m. jobs q \<subseteq> jobs (snd (q_nack E q c m)))"

lemma accepts_settle:
  assumes "accepts E kv jobs"
  shows "q_commit_effects E q ef = (r, q') \<Longrightarrow> accepted kv jobs ef q r q'"
    and "q_ack_with E q c ef = (r, q') \<Longrightarrow> accepted kv jobs ef q r q'"
  using assms unfolding accepts_def by metis+

lemma accepts_claims:
  assumes "accepts E kv jobs"
  shows "q_next_job_id E q = (j, q') \<Longrightarrow> jobs q \<subseteq> jobs q'"
    and "q_renew_lease E q c l = (r, q') \<Longrightarrow> jobs q \<subseteq> jobs q'"
    and "q_claim_by_id E q i l = (r1, q') \<Longrightarrow> jobs q \<subseteq> jobs q'"
    and "q_claim E q n l = (r2, q') \<Longrightarrow> jobs q \<subseteq> jobs q'"
    and "q_ack E q c = (r3, q') \<Longrightarrow> jobs q \<subseteq> jobs q'"
    and "q_nack E q c m = (r4, q') \<Longrightarrow> jobs q \<subseteq> jobs q'"
  using assms unfolding accepts_def by (metis snd_conv)+

section \<open>Records that have their jobs\<close>

text \<open>
  \<open>L\<close> is a set of registrations that are watched, pairs of a promise's id and the address of a
  listener: a watched listener is registered until the promise is settled, and from then on is
  told of it by a message the queue has been handed.
\<close>

definition unblock_request :: "('q, 'x) env_scheme \<Rightarrow> string \<Rightarrow> promise_record \<Rightarrow> enqueue_request" where
  "unblock_request E address r =
     \<lparr>e_queue = address_queue E address, e_payload = Doc (enc_delivery (Unblock (unblock_message r))),
      e_id = None, e_run_at = None\<rparr>"

definition told ::
  "('q, 'x) env_scheme \<Rightarrow> (string \<times> string) set \<Rightarrow> enqueue_request set \<Rightarrow> stored_promise \<Rightarrow> bool" where
  "told E L H p \<longleftrightarrow> (\<forall>a. (p_id (sp_record p), a) \<in> L \<longrightarrow>
     (if is_pending (sp_record p) then a \<in> set (sp_listeners p)
      else unblock_request E a (sp_record p) \<in> H))"

definition backed_promise ::
  "('q, 'x) env_scheme \<Rightarrow> (string \<times> string) set \<Rightarrow> enqueue_request set \<Rightarrow> stored_promise \<Rightarrow> bool" where
  "backed_promise E L H p \<longleftrightarrow> told E L H p \<and> (is_pending (sp_record p) \<and> is_external (sp_record p) \<longrightarrow>
     timer_request (PromiseTimeout (p_id (sp_record p))) (p_timeout_at (sp_record p)) \<in> H)"

definition backed_task :: "('q, 'x) env_scheme \<Rightarrow> enqueue_request set \<Rightarrow> stored_task \<Rightarrow> bool" where
  "backed_task E H k \<longleftrightarrow> (t_state k \<noteq> TFulfilled \<longrightarrow>
     (\<exists>job at. t_job k = Some job \<and> execute_request E k job at \<in> H))"

definition backed_schedule :: "enqueue_request set \<Rightarrow> schedule_record \<Rightarrow> bool" where
  "backed_schedule H s \<longleftrightarrow> timer_request (ScheduleAt (s_id s) (s_next_run_at s)) (s_next_run_at s) \<in> H"

definition backed ::
  "('q, 'x) env_scheme \<Rightarrow> (string \<times> string) set \<Rightarrow> enqueue_request set \<Rightarrow> store \<Rightarrow> bool" where
  "backed E L H V \<longleftrightarrow> (\<forall>i.
     pred_option (backed_promise E L H) (promise_in E V i) \<and> (promise_in E V i = None \<longrightarrow> i \<notin> fst ` L)
     \<and> pred_option (backed_task E H) (task_in E V i)
     \<and> pred_option (backed_schedule H) (schedule_in E V i))"

lemma backed_records:
  assumes "backed E L H V"
  shows "pred_option (backed_promise E L H) (promise_in E V i)" "promise_in E V i = None \<Longrightarrow> i \<notin> fst ` L"
    "pred_option (backed_task E H) (task_in E V i)" "pred_option (backed_schedule H) (schedule_in E V i)"
  using assms by (simp_all add: backed_def)

lemma backed_mono:
  assumes "H \<subseteq> H'"
  shows "backed_promise E L H p \<Longrightarrow> backed_promise E L H' p" "backed_task E H k \<Longrightarrow> backed_task E H' k"
    "backed_schedule H s \<Longrightarrow> backed_schedule H' s" "backed E L H V \<Longrightarrow> backed E L H' V"
proof -
  show p: "backed_promise E L H p \<Longrightarrow> backed_promise E L H' p" for p
    using assms by (auto simp: backed_promise_def told_def split: if_splits)
  show k: "backed_task E H k \<Longrightarrow> backed_task E H' k" for k
    using assms by (auto simp: backed_task_def)
  show s: "backed_schedule H s \<Longrightarrow> backed_schedule H' s" for s
    using assms by (auto simp: backed_schedule_def)
  show "backed E L H V \<Longrightarrow> backed E L H' V"
    using p k s by (simp add: backed_def option.pred_set)
qed

lemma backed_put:
  assumes "backed E L H V"
  shows "backed_promise E L H p \<Longrightarrow> backed E L H (put_p p V)" "backed_task E H k \<Longrightarrow> backed E L H (put_t k V)"
    "backed_schedule H s \<Longrightarrow> backed E L H (put_s s V)" "backed E L H (del_s j V)"
    "same_records E V W \<Longrightarrow> backed E L H W"
  using assms by (simp_all add: backed_def same_records_def)

section \<open>Operations that keep them\<close>

text \<open>
  The requests a transaction can count on: those the queue has accepted, those it has buffered,
  and those of a set \<open>D\<close> it is about to buffer.  An operation keeps the records backed when it
  fails only with a queue whose records are, and otherwise leaves a transaction whose view is,
  with a result that stands in the relation \<open>R\<close> to the requests it can then count on.
\<close>

definition asked :: "('q \<Rightarrow> enqueue_request set) \<Rightarrow> enqueue_request set \<Rightarrow> 'q txn \<Rightarrow> enqueue_request set" where
  "asked jobs D t = jobs (queue t) \<union> set (enqueues t) \<union> D"

definition base_backed ::
  "('q, 'x) env_scheme \<Rightarrow> (string \<times> string) set \<Rightarrow> enqueue_request set \<Rightarrow>
   ('q \<Rightarrow> store) \<Rightarrow> ('q \<Rightarrow> enqueue_request set) \<Rightarrow> 'q txn \<Rightarrow> bool" where
  "base_backed E L B kv jobs t \<longleftrightarrow> backed E L (jobs (queue t)) (kv (queue t)) \<and> B \<subseteq> jobs (queue t)"

definition view_backed ::
  "('q, 'x) env_scheme \<Rightarrow> (string \<times> string) set \<Rightarrow> enqueue_request set \<Rightarrow>
   ('q \<Rightarrow> store) \<Rightarrow> ('q \<Rightarrow> enqueue_request set) \<Rightarrow> enqueue_request set \<Rightarrow> 'q txn \<Rightarrow> bool"
  where
  "view_backed E L B kv jobs D t \<longleftrightarrow> base_backed E L B kv jobs t \<and> backed E L (asked jobs D t) (view kv t)"

definition leaves ::
  "('q, 'x) env_scheme \<Rightarrow> (string \<times> string) set \<Rightarrow> enqueue_request set \<Rightarrow>
   ('q \<Rightarrow> store) \<Rightarrow> ('q \<Rightarrow> enqueue_request set) \<Rightarrow> enqueue_request set \<Rightarrow>
   (enqueue_request set \<Rightarrow> 'a \<Rightarrow> bool) \<Rightarrow> error + 'a \<Rightarrow> 'q txn \<Rightarrow> bool" where
  "leaves E L B kv jobs D R r t \<longleftrightarrow> (case r of
     Inl _ \<Rightarrow> base_backed E L B kv jobs t
   | Inr x \<Rightarrow> view_backed E L B kv jobs D t \<and> R (asked jobs D t) x)"

lemma leaves_simps [simp]:
  "leaves E L B kv jobs D R (Inl e) t = base_backed E L B kv jobs t"
  "leaves E L B kv jobs D R (Inr x) t = (view_backed E L B kv jobs D t \<and> R (asked jobs D t) x)"
  by (simp_all add: leaves_def)

definition backs ::
  "('q, 'x) env_scheme \<Rightarrow> (string \<times> string) set \<Rightarrow> enqueue_request set \<Rightarrow>
   ('q \<Rightarrow> store) \<Rightarrow> ('q \<Rightarrow> enqueue_request set) \<Rightarrow> enqueue_request set \<Rightarrow>
   enqueue_request set \<Rightarrow> ('q txn, 'a) tx \<Rightarrow> (enqueue_request set \<Rightarrow> 'a \<Rightarrow> bool) \<Rightarrow> bool" where
  "backs E L B kv jobs D H m R \<longleftrightarrow> (\<forall>t. view_backed E L B kv jobs D t \<longrightarrow> H \<subseteq> asked jobs D t \<longrightarrow>
     wp m (leaves E L B kv jobs D R) t)"


lemma backsI:
  assumes "\<And>t. view_backed E L B kv jobs D t \<Longrightarrow> H \<subseteq> asked jobs D t \<Longrightarrow> wp m (leaves E L B kv jobs D R) t"
  shows "backs E L B kv jobs D H m R"
  using assms by (simp add: backs_def)

lemma backsD:
  "backs E L B kv jobs D H m R \<Longrightarrow> view_backed E L B kv jobs D t \<Longrightarrow> H \<subseteq> asked jobs D t \<Longrightarrow>
   wp m (leaves E L B kv jobs D R) t"
  by (simp add: backs_def)

lemma view_base: "view_backed E L B kv jobs D t \<Longrightarrow> base_backed E L B kv jobs t"
  by (simp add: view_backed_def)

lemma backs_mono:
  assumes "backs E L B kv jobs D H m R" "H \<subseteq> H'" "\<And>H' x. R H' x \<Longrightarrow> S H' x"
  shows "backs E L B kv jobs D H' m S"
proof (rule backsI)
  fix t assume "view_backed E L B kv jobs D t" "H' \<subseteq> asked jobs D t"
  with assms(1,2) have "wp m (leaves E L B kv jobs D R) t" by (blast intro: backsD)
  then show "wp m (leaves E L B kv jobs D S) t"
    by (rule wp_mono) (use assms(3) in \<open>auto simp: leaves_def split: sum.splits\<close>)
qed

lemma backs_ret:
  "(\<And>H'. H \<subseteq> H' \<Longrightarrow> R H' x) \<Longrightarrow> backs E L B kv jobs D H (ret x) R"
  by (simp add: backs_def)

lemma backs_fail: "backs E L B kv jobs D H (fail e) R"
  by (simp add: backs_def view_base)

lemma backs_asks: "(\<And>H' x. H \<subseteq> H' \<Longrightarrow> R H' x) \<Longrightarrow> backs E L B kv jobs D H (asks h) R"
  by (simp add: backs_def)

lemma backs_reads: "(\<And>H' x. H \<subseteq> H' \<Longrightarrow> R H' x) \<Longrightarrow> backs E L B kv jobs D H (reads f) R"
  by (auto simp: backs_def leaves_def view_base split: sum.split)

lemma backs_bnd:
  assumes "backs E L B kv jobs D H m R" "\<And>x H'. R H' x \<Longrightarrow> backs E L B kv jobs D H' (f x) S"
  shows "backs E L B kv jobs D H (bnd m f) S"
proof (rule backsI)
  fix t assume "view_backed E L B kv jobs D t" "H \<subseteq> asked jobs D t"
  with assms(1) have "wp m (leaves E L B kv jobs D R) t" by (rule backsD)
  then show "wp (bnd m f) (leaves E L B kv jobs D S) t"
    by (rule wp_bndI) (use assms(2) in \<open>auto intro: backsD\<close>)
qed

lemma backs_andthen:
  assumes "backs E L B kv jobs D H m R" "\<And>x H'. R H' x \<Longrightarrow> backs E L B kv jobs D H' n S"
  shows "backs E L B kv jobs D H (andthen m n) S"
  unfolding andthen_def by (rule backs_bnd [OF assms])

lemma backs_less: "backs E L B kv jobs D H m R \<Longrightarrow> H \<subseteq> H' \<Longrightarrow> backs E L B kv jobs D H' m R"
  by (rule backs_mono)

text \<open>What most operations do: the requests a transaction can count on do not become fewer.\<close>

abbreviation grows :: "enqueue_request set \<Rightarrow> enqueue_request set \<Rightarrow> 'a \<Rightarrow> bool" where
  "grows H \<equiv> \<lambda>H' _. H \<subseteq> H'"

lemma backs_grows: "backs E L B kv jobs D H' m (grows H') \<Longrightarrow> H \<subseteq> H' \<Longrightarrow> backs E L B kv jobs D H' m (grows H)"
  by (erule backs_mono) auto

lemma backs_then:
  assumes "backs E L B kv jobs D H m (grows H)"
  shows "(\<And>x. backs E L B kv jobs D H (f x) R) \<Longrightarrow> backs E L B kv jobs D H (bnd m f) R"
    and "backs E L B kv jobs D H n R \<Longrightarrow> backs E L B kv jobs D H (andthen m n) R"
  using assms by (auto intro: backs_bnd backs_andthen backs_less)

lemma backs_for_each:
  assumes "\<And>x H'. x \<in> set xs \<Longrightarrow> H \<subseteq> H' \<Longrightarrow> backs E L B kv jobs D H' (f x) (grows H')"
  shows "backs E L B kv jobs D H (for_each f xs) (grows H)"
  using assms
proof (induction xs arbitrary: H)
  case Nil
  then show ?case by (simp add: backs_ret)
next
  case (Cons x xs)
  have "backs E L B kv jobs D H' (for_each f xs) (grows H)" if "H \<subseteq> H'" for H'
  proof -
    have "backs E L B kv jobs D H' (for_each f xs) (grows H')"
      by (rule Cons.IH) (rule Cons.prems, use that in auto)
    then show ?thesis by (rule backs_mono) (use that in auto)
  qed
  moreover have "backs E L B kv jobs D H (f x) (grows H)" by (rule Cons.prems) auto
  ultimately show ?case unfolding for_each.simps by (rule backs_andthen [rotated])
qed

lemma backs_expect:
  "backs E L B kv jobs D H (expect msg x) (\<lambda>H' y. H \<subseteq> H' \<and> x = Some y)"
  by (cases x) (simp_all add: expect_def backs_ret backs_fail)

lemma backs_if:
  "(b \<Longrightarrow> backs E L B kv jobs D H m R) \<Longrightarrow> (\<not> b \<Longrightarrow> backs E L B kv jobs D H n R) \<Longrightarrow>
   backs E L B kv jobs D H (if b then m else n) R"
  by simp

lemma backs_option:
  "(x = None \<Longrightarrow> backs E L B kv jobs D H m R) \<Longrightarrow> (\<And>y. x = Some y \<Longrightarrow> backs E L B kv jobs D H (f y) R) \<Longrightarrow>
   backs E L B kv jobs D H (case x of None \<Rightarrow> m | Some y \<Rightarrow> f y) R"
  by (simp split: option.split)

section \<open>Reads and writes\<close>

lemma backs_get:
  assumes c: "queue_contract E kv"
  shows "backs E L B kv jobs D H (get_promise E i) (\<lambda>H' x. H \<subseteq> H' \<and> pred_option (backed_promise E L H') x \<and> (x = None \<longrightarrow> i \<notin> fst ` L))"
    and "backs E L B kv jobs D H (get_task E i) (\<lambda>H' x. H \<subseteq> H' \<and> pred_option (backed_task E H') x)"
    and "backs E L B kv jobs D H (get_schedule E i) (\<lambda>H' x. H \<subseteq> H' \<and> pred_option (backed_schedule H') x)"
proof -
  have base: "base_backed E L B kv jobs t"
    and views: "pred_option (backed_promise E L (asked jobs D t)) (promise_in E (view kv t) i)"
      "promise_in E (view kv t) i = None \<Longrightarrow> i \<notin> fst ` L"
      "pred_option (backed_task E (asked jobs D t)) (task_in E (view kv t) i)"
      "pred_option (backed_schedule (asked jobs D t)) (schedule_in E (view kv t) i)"
    if "view_backed E L B kv jobs D t" for t
    using that unfolding view_backed_def backed_def by blast+
  show "backs E L B kv jobs D H (get_promise E i) (\<lambda>H' x. H \<subseteq> H' \<and> pred_option (backed_promise E L H') x \<and> (x = None \<longrightarrow> i \<notin> fst ` L))"
  proof (rule backsI)
    fix t assume "view_backed E L B kv jobs D t" "H \<subseteq> asked jobs D t"
    with promise_store.get_json_view [OF c refl, of i t] base views
    show "wp (get_promise E i) (leaves E L B kv jobs D (\<lambda>H' x. H \<subseteq> H' \<and> pred_option (backed_promise E L H') x \<and> (x = None \<longrightarrow> i \<notin> fst ` L))) t"
      by (auto simp: get_promise_def promise_in_def)
  qed
  show "backs E L B kv jobs D H (get_task E i) (\<lambda>H' x. H \<subseteq> H' \<and> pred_option (backed_task E H') x)"
  proof (rule backsI)
    fix t assume "view_backed E L B kv jobs D t" "H \<subseteq> asked jobs D t"
    with task_store.get_json_view [OF c refl, of i t] base views
    show "wp (get_task E i) (leaves E L B kv jobs D (\<lambda>H' x. H \<subseteq> H' \<and> pred_option (backed_task E H') x)) t"
      by (auto simp: get_task_def task_in_def)
  qed
  show "backs E L B kv jobs D H (get_schedule E i) (\<lambda>H' x. H \<subseteq> H' \<and> pred_option (backed_schedule H') x)"
  proof (rule backsI)
    fix t assume "view_backed E L B kv jobs D t" "H \<subseteq> asked jobs D t"
    with schedule_store.get_json_view [OF c refl, of i t] base views
    show "wp (get_schedule E i) (leaves E L B kv jobs D (\<lambda>H' x. H \<subseteq> H' \<and> pred_option (backed_schedule H') x)) t"
      by (auto simp: get_schedule_def schedule_in_def)
  qed
qed

lemma backs_gets:
  assumes c: "queue_contract E kv"
  shows "backs E L B kv jobs D H (get_promise E i) (grows H)" "backs E L B kv jobs D H (get_task E i) (grows H)"
proof -
  show "backs E L B kv jobs D H (get_promise E i) (grows H)"
    by (rule backs_mono [OF backs_get(1) [OF c, where H = H]]) simp_all
  show "backs E L B kv jobs D H (get_task E i) (grows H)"
    by (rule backs_mono [OF backs_get(2) [OF c, where H = H]]) simp_all
qed

lemma backs_put:
  shows "backed_promise E L H p \<Longrightarrow> backs E L B kv jobs D H (put_promise p) (grows H)"
    and "backed_task E H k \<Longrightarrow> backs E L B kv jobs D H (put_task k) (grows H)"
    and "backed_schedule H s \<Longrightarrow> backs E L B kv jobs D H (put_schedule s) (grows H)"
    and "backs E L B kv jobs D H (delete_schedule i) (grows H)"
    and "backs E L B kv jobs D H (index_branch r) (grows H)"
proof -
  have asked: "asked jobs D (put_json k j t) = asked jobs D t"
    "asked jobs D (t\<lparr>writes := ws\<rparr>) = asked jobs D t" for k j and t :: "'a txn" and ws
    by (simp_all add: asked_def)
  have keep: "view_backed E L B kv jobs D t'"
    if "view_backed E L B kv jobs D t" "queue t' = queue t" "asked jobs D t' = asked jobs D t"
      "backed E L (asked jobs D t) (view kv t')" for t t'
    using that by (simp add: view_backed_def base_backed_def)
  show "backed_promise E L H p \<Longrightarrow> backs E L B kv jobs D H (put_promise p) (grows H)"
    by (rule backsI, simp add: put_promise_def asked, rule keep)
      (auto simp: asked put_p_def [symmetric] view_backed_def intro: backed_put backed_mono)
  show "backed_task E H k \<Longrightarrow> backs E L B kv jobs D H (put_task k) (grows H)"
    by (rule backsI, simp add: put_task_def asked, rule keep)
      (auto simp: asked put_t_def [symmetric] view_backed_def intro: backed_put backed_mono)
  show "backed_schedule H s \<Longrightarrow> backs E L B kv jobs D H (put_schedule s) (grows H)"
    by (rule backsI, simp add: put_schedule_def asked, rule keep)
      (auto simp: asked put_s_def [symmetric] view_backed_def intro: backed_put backed_mono)
  show "backs E L B kv jobs D H (delete_schedule i) (grows H)"
    by (rule backsI, simp add: delete_schedule_def asked, rule keep)
      (auto simp: asked del_s_def [symmetric] view_backed_def intro: backed_put)
  show "backs E L B kv jobs D H (index_branch r) (grows H)"
    by (rule backsI, auto simp: index_branch_def asked split: option.split, rule keep)
      (auto simp: asked view_backed_def backed_def)
qed

section \<open>Jobs, claims and the end of a transaction\<close>

lemma asked_fields [simp]:
  "asked jobs D (t\<lparr>enqueues := es\<rparr>) = jobs (queue t) \<union> set es \<union> D"
  "asked jobs D (t\<lparr>writes := ws\<rparr>) = asked jobs D t" "asked jobs D (t\<lparr>held := h\<rparr>) = asked jobs D t"
  "asked jobs D (t\<lparr>after := az\<rparr>) = asked jobs D t" "asked jobs D (put_json key j t) = asked jobs D t"
  by (simp_all add: asked_def)

lemma view_backed_fields [simp]:
  "view_backed E L B kv jobs D (t\<lparr>held := h\<rparr>) = view_backed E L B kv jobs D t"
  "view_backed E L B kv jobs D (t\<lparr>after := az\<rparr>) = view_backed E L B kv jobs D t"
  by (simp_all add: view_backed_def base_backed_def)

lemma view_backed_enqueue: "view_backed E L B kv jobs D t \<Longrightarrow> view_backed E L B kv jobs D (t\<lparr>enqueues := enqueues t @ es\<rparr>)"
  by (auto simp: view_backed_def base_backed_def asked_def elim!: backed_mono(4) [rotated])

text \<open>A queue whose records are the same and that has not forgotten a request.\<close>

lemma base_backed_later:
  "base_backed E L B kv jobs t \<Longrightarrow> kv (queue t') = kv (queue t) \<Longrightarrow> jobs (queue t) \<subseteq> jobs (queue t') \<Longrightarrow>
   base_backed E L B kv jobs t'"
  by (auto simp: base_backed_def elim!: backed_mono(4) [rotated])

lemma view_backed_later:
  assumes "view_backed E L B kv jobs D t" "kv q' = kv (queue t)" "jobs (queue t) \<subseteq> jobs q'"
  shows "view_backed E L B kv jobs D (t\<lparr>queue := q'\<rparr>)" "asked jobs D t \<subseteq> asked jobs D (t\<lparr>queue := q'\<rparr>)"
proof -
  show sub: "asked jobs D t \<subseteq> asked jobs D (t\<lparr>queue := q'\<rparr>)"
    using assms(3) by (auto simp: asked_def)
  show "view_backed E L B kv jobs D (t\<lparr>queue := q'\<rparr>)"
    using assms backed_mono(4) [OF sub, of E L "view kv t"]
      base_backed_later [of E L B kv jobs t "t\<lparr>queue := q'\<rparr>"] by (simp add: view_backed_def)
qed

lemma backs_enqueue: "backs E L B kv jobs D H (enqueue r) (\<lambda>H' _. insert r H \<subseteq> H')"
  by (rule backsI) (auto simp: enqueue_def view_backed_enqueue asked_def)

lemma send_unblock_request: "send_unblock E address (unblock_message r) = enqueue (unblock_request E address r)"
  by (simp add: send_unblock_def unblock_request_def)

text \<open>What a transaction is about to buffer it can count on, once it has buffered it.\<close>

lemma for_each_enqueue:
  "for_each (\<lambda>x. enqueue (f x)) xs t = (Inr (), t\<lparr>enqueues := enqueues t @ map f xs\<rparr>)"
  by (induction xs arbitrary: t) (simp_all add: run_ret run_andthen enqueue_def modify_def)

lemma backs_then_enqueues:
  assumes "backs E L B kv jobs (set rs \<union> D) H m (grows H)"
  shows "backs E L B kv jobs D H (andthen m (for_each enqueue rs)) (grows H)"
proof (rule backsI)
  let ?D = "set rs \<union> D"
  fix t assume t: "view_backed E L B kv jobs D t" "H \<subseteq> asked jobs D t"
  then have "view_backed E L B kv jobs ?D t" "H \<subseteq> asked jobs ?D t"
    by (auto simp: view_backed_def asked_def elim!: backed_mono(4) [rotated])
  from backsD [OF assms this]
  show "wp (andthen m (for_each enqueue rs)) (leaves E L B kv jobs D (grows H)) t"
    by (rule wp_andthenI)
      (auto simp: wp_def for_each_enqueue [where f = "\<lambda>r. r", simplified] view_backed_def base_backed_def asked_def Un_assoc)
qed

lemma backs_then_timer:
  assumes "backs E L B kv jobs (insert (timer_request tm at) D) H m (grows H)"
  shows "backs E L B kv jobs D H (andthen m (schedule_timer tm at)) (grows H)"
proof -
  have one: "schedule_timer tm at = for_each enqueue [timer_request tm at]"
    by (simp add: schedule_timer_def fun_eq_iff run_andthen run_ret enqueue_def modify_def)
  show ?thesis
    unfolding one by (rule backs_then_enqueues) (simp add: assms)
qed

lemma backs_counted:
  assumes "backs E L B kv jobs (A \<union> D) (A \<union> H) m (grows (A \<union> H))"
  shows "backs E L B kv jobs (A \<union> D) H m (grows H)"
proof (rule backsI)
  fix t assume "view_backed E L B kv jobs (A \<union> D) t" "H \<subseteq> asked jobs (A \<union> D) t"
  then have "wp m (leaves E L B kv jobs (A \<union> D) (grows (A \<union> H))) t"
    by (intro backsD [OF assms]) (auto simp: asked_def)
  then show "wp m (leaves E L B kv jobs (A \<union> D) (grows H)) t"
    by (rule wp_mono) (auto simp: leaves_def split: sum.splits)
qed

lemma backs_timer: "backs E L B kv jobs D H (schedule_timer tm at) (\<lambda>H' _. insert (timer_request tm at) H \<subseteq> H')"
  unfolding schedule_timer_def by (rule backs_enqueue)

lemma backs_after: "backs E L B kv jobs D H (add_after a) (grows H)"
  by (rule backsI) (simp add: add_after_def)

lemma backs_claim_after: "backs E L B kv jobs D H (claim_after_commit k lease) (grows H)"
  unfolding claim_after_commit_def
  by (rule backs_bnd [OF backs_expect], rule backs_mono [OF backs_after]) auto

text \<open>A queue that keeps its contract, of the records and of the jobs.\<close>

definition job_queue :: "('q, 'x) env_scheme \<Rightarrow> ('q \<Rightarrow> store) \<Rightarrow> ('q \<Rightarrow> enqueue_request set) \<Rightarrow> bool" where
  "job_queue E kv jobs \<longleftrightarrow> queue_contract E kv \<and> accepts E kv jobs"

lemma job_queueD: "job_queue E kv jobs \<Longrightarrow> queue_contract E kv" "job_queue E kv jobs \<Longrightarrow> accepts E kv jobs"
  by (simp_all add: job_queue_def)

lemma backs_dispatch:
  assumes q: "job_queue E kv jobs"
  shows "backs E L B kv jobs D H (dispatch E k at) (\<lambda>H' k'. H \<subseteq> H' \<and> backed_task E H' k')"
proof (rule backsI)
  fix t assume t: "view_backed E L B kv jobs D t" "H \<subseteq> asked jobs D t"
  obtain job q' where q': "q_next_job_id E (queue t) = (job, q')"
    by (cases "q_next_job_id E (queue t)")
  let ?k = "k\<lparr>t_job := Some job\<rparr>" let ?r = "execute_request E ?k job at" let ?t = "t\<lparr>queue := q'\<rparr>"
  have later: "view_backed E L B kv jobs D ?t" "asked jobs D t \<subseteq> asked jobs D ?t"
    using view_backed_later [OF t(1)] contract_claims(1) [OF job_queueD(1) [OF q] q'] accepts_claims(1) [OF job_queueD(2) [OF q] q'] by auto
  let ?u = "(put_json (task_key (t_id ?k)) (enc_task ?k) ?t)\<lparr>enqueues := enqueues t @ [?r]\<rparr>"
  have k: "backed_task E (asked jobs D ?u) ?k"
    by (auto simp: backed_task_def asked_def execute_request_def)
  moreover have "backed E L (asked jobs D ?u) (view kv ?u)"
  proof -
    have "backed E L (asked jobs D ?u) (view kv ?t)"
      by (rule backed_mono(4) [of "asked jobs D ?t"]) (use later(1) in \<open>auto simp: asked_def view_backed_def\<close>)
    from backed_put(2) [OF this k] show ?thesis by (simp add: put_t_def)
  qed
  moreover have "base_backed E L B kv jobs ?u"
    using later(1) by (simp add: view_backed_def base_backed_def)
  moreover have "H \<subseteq> asked jobs D ?u" using t(2) later(2) by (auto simp: asked_def)
  moreover have "dispatch E k at t = (Inr ?k, ?u)"
    using q' by (simp add: dispatch_def run_bnd run_andthen run_ret put_task_def enqueue_def Let_def)
  ultimately show "wp (dispatch E k at) (leaves E L B kv jobs D (\<lambda>H' k'. H \<subseteq> H' \<and> backed_task E H' k')) t"
    by (simp add: wp_def view_backed_def)
qed

lemma backs_holds: "backs E L B kv jobs D H (holds E i) (grows H)"
  by (rule backsI) (auto simp: wp_def holds_def drop_claim_def split: option.split)

lemma backs_renew:
  assumes q: "job_queue E kv jobs"
  shows "backs E L B kv jobs D H (renew E i lease) (grows H)"
proof -
  have run: "backs E L B kv jobs D H (\<lambda>t. case held t i of
      None \<Rightarrow> (Inl (Panic ''no entry found for key''), t)
    | Some c \<Rightarrow> (case q_renew_lease E (queue t) c lease of
        (Inr _, q') \<Rightarrow> (Inr True, t\<lparr>queue := q'\<rparr>)
      | (Inl _, q') \<Rightarrow> (Inr False, drop_claim i (t\<lparr>queue := q'\<rparr>)))) (grows H)" for H
  proof (rule backsI)
    fix t assume t: "view_backed E L B kv jobs D t" "H \<subseteq> asked jobs D t"
    have later: "view_backed E L B kv jobs D (t\<lparr>queue := q'\<rparr>)" "H \<subseteq> asked jobs D (t\<lparr>queue := q'\<rparr>)"
      if "q_renew_lease E (queue t) c lease = (r, q')" for c r q'
      using view_backed_later [OF t(1), of q'] contract_claims(2) [OF job_queueD(1) [OF q] that]
        accepts_claims(2) [OF job_queueD(2) [OF q] that] t(2) by auto
    show "wp (\<lambda>t. case held t i of
      None \<Rightarrow> (Inl (Panic ''no entry found for key''), t)
    | Some c \<Rightarrow> (case q_renew_lease E (queue t) c lease of
        (Inr _, q') \<Rightarrow> (Inr True, t\<lparr>queue := q'\<rparr>)
      | (Inl _, q') \<Rightarrow> (Inr False, drop_claim i (t\<lparr>queue := q'\<rparr>)))) (leaves E L B kv jobs D (grows H)) t"
      using view_base [OF t(1)]
      by (auto simp: wp_def drop_claim_def split: option.split prod.split sum.split dest: later)
  qed
  show ?thesis
    unfolding renew_def
    by (rule backs_then(1) [OF backs_holds], rule backs_if, rule backs_ret, assumption, rule run)
qed

lemma backs_claim:
  assumes q: "job_queue E kv jobs"
  shows "backs E L B kv jobs D H (claim_job E i job lease) (grows H)"
proof (rule backsI)
  fix t assume t: "view_backed E L B kv jobs D t" "H \<subseteq> asked jobs D t"
  have later: "view_backed E L B kv jobs D (t\<lparr>queue := q'\<rparr>)" "H \<subseteq> asked jobs D (t\<lparr>queue := q'\<rparr>)"
    if "q_claim_by_id E (queue t) job lease = (r, q')" for r q'
    using view_backed_later [OF t(1), of q'] contract_claims(3) [OF job_queueD(1) [OF q] that]
      accepts_claims(3) [OF job_queueD(2) [OF q] that] t(2) by auto
  then show "wp (claim_job E i job lease) (leaves E L B kv jobs D (grows H)) t"
    by (auto simp: wp_def claim_job_def run_bnd run_andthen run_ret call_def storage_def hold_claim_def
        split: prod.split sum.split claim_outcome.split dest: view_base)
qed

lemma backs_job_exists: "backs E L B kv jobs D H (job_exists E i) (grows H)"
  unfolding job_exists_def by (rule backs_then(1) [OF backs_reads]) (auto intro: backs_ret)

lemma backs_load:
  assumes q: "job_queue E kv jobs"
  shows "backs E L B kv jobs D H (load_records E ids) (grows H)"
proof (induction ids arbitrary: H)
  case (Cons i ids)
  show ?case
    unfolding load_records.simps
    by (rule backs_then(1) [OF backs_gets(1) [OF job_queueD(1) [OF q]]], rule backs_then(1) [OF Cons.IH],
        rule backs_ret)
qed (simp add: backs_ret)

lemma backs_preload:
  assumes q: "job_queue E kv jobs"
  shows "backs E L B kv jobs D H (preload E p) (grows H)"
  unfolding preload_def
  by (rule backs_option, rule backs_ret, assumption, rule backs_then(1) [OF backs_reads], assumption,
      rule backs_load [OF q])

lemma finish_later:
  assumes q: "job_queue E kv jobs"
  shows "wp (finish E) (\<lambda>r t'. kv (queue t') = kv (queue t) \<and> jobs (queue t) \<subseteq> jobs (queue t')
     \<and> writes t' = writes t \<and> enqueues t' = enqueues t) t"
proof -
  have one: "wp (finish_one E a) (\<lambda>r t'. kv (queue t') = kv (queue t) \<and> jobs (queue t) \<subseteq> jobs (queue t')
      \<and> writes t' = writes t \<and> enqueues t' = enqueues t) t" for a t
    unfolding wp_def
    by (cases a) (auto simp: run_bnd run_ret settle_claim_def take_held_def call_def storage_def
        drop_claim_def hold_claim_def
        dest: contract_claims [OF job_queueD(1) [OF q]] subsetD [OF accepts_claims(3) [OF job_queueD(2) [OF q]]]
          subsetD [OF accepts_claims(5) [OF job_queueD(2) [OF q]]] subsetD [OF accepts_claims(6) [OF job_queueD(2) [OF q]]]
        split: prod.splits sum.splits option.splits claim_outcome.splits)
  have "wp (for_each (finish_one E) xs) (\<lambda>r t'. kv (queue t') = kv (queue t) \<and> jobs (queue t) \<subseteq> jobs (queue t')
      \<and> writes t' = writes t \<and> enqueues t' = enqueues t) t" for xs t
    by (rule wp_for_each) (auto intro!: wp_mono [OF one])
  from this [of "after t" "t\<lparr>after := []\<rparr>"] show ?thesis
    by (simp add: finish_def wp_def)
qed

lemma base_view_backed:
  "base_backed E L B kv jobs t \<Longrightarrow> writes t = om_empty \<Longrightarrow> view_backed E L B kv jobs {} t"
proof -
  assume t: "base_backed E L B kv jobs t" "writes t = om_empty"
  then have "view kv t = kv (queue t)" by (simp add: view_def fun_eq_iff)
  with t(1) backed_mono(4) [of "jobs (queue t)" "asked jobs {} t" E L "kv (queue t)"]
  show ?thesis by (simp add: view_backed_def base_backed_def asked_def)
qed

text \<open>The effects of a transaction whose view is backed leave a queue whose records are.\<close>

lemma effects_backed:
  assumes "view_backed E L B kv jobs {} t" "accepted kv jobs (effects_of t) (queue t) r q'"
  shows "backed E L (jobs q') (kv q') \<and> B \<subseteq> jobs q'"
    and "r = Inr () \<Longrightarrow> asked jobs {} t \<subseteq> jobs q'"
proof -
  have sub: "jobs (queue t) \<subseteq> jobs q'" using assms(2) by (simp add: accepted_def)
  have B: "B \<subseteq> jobs q'" using assms(1) sub by (auto simp: view_backed_def base_backed_def)
  have all: "asked jobs {} t \<subseteq> jobs q'" if "set (enqueues t) \<subseteq> jobs q'"
    using that sub by (simp add: asked_def)
  show "r = Inr () \<Longrightarrow> asked jobs {} t \<subseteq> jobs q'"
    using assms(2) all by (simp add: accepted_def effects_of_def)
  consider "kv q' = kv (queue t)" | "kv q' = view kv t" "set (enqueues t) \<subseteq> jobs q'"
    using assms(2) by (auto simp: accepted_def apply_effects_of) (simp add: effects_of_def)
  then show "backed E L (jobs q') (kv q') \<and> B \<subseteq> jobs q'"
  proof cases
    case 1
    then show ?thesis
      using assms(1) B backed_mono(4) [OF sub, of E L "kv (queue t)"] by (simp add: view_backed_def base_backed_def)
  next
    case 2
    then show ?thesis
      using assms(1) B backed_mono(4) [OF all, of E L "view kv t"] by (simp add: view_backed_def)
  qed
qed

lemma finish_backed:
  assumes q: "job_queue E kv jobs" and t: "base_backed E L B kv jobs t" "writes t = om_empty" "H \<subseteq> jobs (queue t)"
  shows "wp (finish E) (\<lambda>r t'. view_backed E L B kv jobs {} t' \<and> H \<subseteq> asked jobs {} t') t"
proof (rule wp_mono [OF finish_later [OF q]])
  fix r :: "error + unit" and t' :: "'a txn"
  assume t': "kv (queue t') = kv (queue t) \<and> jobs (queue t) \<subseteq> jobs (queue t') \<and> writes t' = writes t
    \<and> enqueues t' = enqueues t"
  then have "base_backed E L B kv jobs t'" using base_backed_later [OF t(1), of t'] by blast
  then show "view_backed E L B kv jobs {} t' \<and> H \<subseteq> asked jobs {} t'"
    using t' t(2,3) base_view_backed [of E L B kv jobs t'] by (auto simp: asked_def)
qed

lemma finish_leaves:
  assumes "job_queue E kv jobs" "base_backed E L B kv jobs t" "writes t = om_empty" "H \<subseteq> jobs (queue t)"
  shows "wp (finish E) (leaves E L B kv jobs {} (grows H)) t"
  by (rule wp_mono [OF finish_backed [OF assms]]) (auto simp: leaves_def view_base split: sum.split)

lemma backs_commit:
  assumes q: "job_queue E kv jobs"
  shows "backs E L B kv jobs {} H (commit E) (grows H)"
proof (rule backsI)
  fix t assume t: "view_backed E L B kv jobs {} t" "H \<subseteq> asked jobs {} t"
  let ?ef = "effects_of t" and ?t = "t\<lparr>writes := om_empty, enqueues := []\<rparr>"
  show "wp (commit E) (leaves E L B kv jobs {} (grows H)) t"
  proof (cases "ef_enqueues ?ef \<noteq> [] \<or> ef_kv_writes ?ef \<noteq> om_empty \<or> ef_kv_deletes ?ef \<noteq> []")
    case False
    then have "commit E t = finish E ?t" "enqueues t = []"
      by (simp_all add: commit_def take_effects_def run_bnd run_andthen run_ret effects_of_def)
    moreover have "wp (finish E) (leaves E L B kv jobs {} (grows H)) ?t"
      by (rule finish_leaves [OF q]) (use t calculation(2) in \<open>simp_all add: view_backed_def base_backed_def asked_def\<close>)
    ultimately show ?thesis by (simp add: wp_def)
  next
    case True
    obtain r q' where q': "q_commit_effects E (queue t) ?ef = (r, q')"
      by (cases "q_commit_effects E (queue t) ?ef")
    note after = effects_backed [OF t(1) accepts_settle(1) [OF job_queueD(2) [OF q] q']]
    show ?thesis
    proof (cases r)
      case (Inl e)
      then have "commit E t = (Inl (Storage e), ?t\<lparr>queue := q'\<rparr>)"
        using True q' by (simp add: commit_def take_effects_def run_bnd run_andthen call_def storage_def)
      then show ?thesis using after(1) by (simp add: wp_def base_backed_def)
    next
      case (Inr u)
      then have "commit E t = finish E (?t\<lparr>queue := q'\<rparr>)"
        using True q' by (simp add: commit_def take_effects_def run_bnd run_andthen call_def storage_def)
      moreover have "wp (finish E) (leaves E L B kv jobs {} (grows H)) (?t\<lparr>queue := q'\<rparr>)"
        by (rule finish_leaves [OF q]) (use after Inr t(2) in \<open>auto simp: base_backed_def\<close>)
      ultimately show ?thesis by (simp add: wp_def)
    qed
  qed
qed

lemma backs_finished:
  assumes q: "job_queue E kv jobs"
  shows "backs E L B kv jobs {} H (finished E reply) (grows H)"
  unfolding finished_def by (rule backs_then(2) [OF backs_commit [OF q]], rule backs_ret)

text \<open>A settlement that is lost is answered, and what it buffered is gone.\<close>

abbreviation anything :: "enqueue_request set \<Rightarrow> 'a \<Rightarrow> bool" where
  "anything \<equiv> \<lambda>_ _. True"

lemma backs_settlement:
  assumes q: "job_queue E kv jobs"
  shows "backs E L B kv jobs {} H (commit_settlement E i reply) anything"
proof (rule backsI)
  fix t assume t: "view_backed E L B kv jobs {} t" "H \<subseteq> asked jobs {} t"
  have "wp (commit_ack E i) (\<lambda>r t'. base_backed E L B kv jobs t' \<and>
      (r = Inl (Storage ClaimLost) \<or> (\<exists>x. r = Inr x) \<longrightarrow> view_backed E L B kv jobs {} t')) t"
  proof (cases "\<exists>c. held t i = Some c \<and> live E t c")
    case False
    then show ?thesis
      using t(1) view_base [OF t(1)]
      by (auto simp: wp_def run_commit_ack drop_claim_def base_backed_def split: option.split)
  next
    case True
    then obtain c where c: "held t i = Some c" "live E t c" by blast
    obtain r q' where q': "q_ack_with E (queue t) c (effects_of t) = (r, q')"
      by (cases "q_ack_with E (queue t) c (effects_of t)")
    let ?t = "t\<lparr>writes := om_empty, enqueues := [], queue := q'\<rparr>"
    have base: "base_backed E L B kv jobs ?t" "base_backed E L B kv jobs (drop_claim i ?t)"
      using effects_backed(1) [OF t(1) accepts_settle(2) [OF job_queueD(2) [OF q] q']]
      by (simp_all add: base_backed_def drop_claim_def)
    have "wp (finish E) (\<lambda>r t'. view_backed E L B kv jobs {} t' \<and> {} \<subseteq> asked jobs {} t') (drop_claim i ?t)"
      by (rule finish_backed [OF q base(2)]) (simp_all add: drop_claim_def)
    then show ?thesis
      using c q' base base_view_backed [OF base(1)]
      by (cases r) (auto simp: wp_def run_commit_ack drop_claim_def dest: view_base split: prod.splits)
  qed
  then show "wp (commit_settlement E i reply) (leaves E L B kv jobs {} anything) t"
    by (auto simp: wp_def commit_settlement_def split: prod.splits sum.splits)
qed

end
