(* ===== verification/Backing.thy ===== *)
theory Backing
  imports Obligations
begin

text \<open>
  Every operation of the kernel, and so every request, timer and delivery, hands the queue the
  jobs that the records it writes are owed.
\<close>

section \<open>Rules for the kernel\<close>

lemma backed_task_simps [simp]:
  "backed_task E H (k\<lparr>t_resumes := r\<rparr>) = backed_task E H k"
  "backed_task E H (k\<lparr>t_state := TFulfilled\<rparr>)"
  "backed_task E H (transition k TFulfilled)"
  by (simp_all add: backed_task_def execute_request_def transition_def)

lemma backed_task_moved:
  "backed_task E H k \<Longrightarrow> t_state k \<noteq> TFulfilled \<Longrightarrow> backed_task E H (transition k st)"
  "backed_task E H k \<Longrightarrow> t_state k \<noteq> TFulfilled \<Longrightarrow> backed_task E H (acquired k pid ttl)"
  by (simp_all add: backed_task_def execute_request_def transition_def acquired_def)

lemma backed_promise_callbacks [simp]:
  "backed_promise E L H (p\<lparr>sp_callbacks := cs\<rparr>) = backed_promise E L H p"
  by (simp add: backed_promise_def told_def)

lemma backed_promise_listens:
  "backed_promise E L H p \<Longrightarrow> backed_promise E L H (p\<lparr>sp_listeners := sp_listeners p @ ls\<rparr>)"
  by (auto simp: backed_promise_def told_def)

text \<open>The watched listeners of a promise that is about to be settled are registered on it.\<close>

definition heard :: "(string \<times> string) set \<Rightarrow> stored_promise \<Rightarrow> bool" where
  "heard L p \<longleftrightarrow> (\<forall>a. (p_id (sp_record p), a) \<in> L \<longrightarrow> a \<in> set (sp_listeners p))"

lemma backed_heard: "backed_promise E L H p \<Longrightarrow> is_pending (sp_record p) \<Longrightarrow> heard L p"
  by (auto simp: backed_promise_def told_def heard_def)

lemma heard_settled [simp]:
  "heard L (p\<lparr>sp_record := settled_record time st v r\<rparr>) = heard L (p\<lparr>sp_record := r\<rparr>)"
  "heard L (p\<lparr>sp_record := expired_record r\<rparr>) = heard L (p\<lparr>sp_record := r\<rparr>)"
  by (simp_all add: heard_def settled_record_def expired_record_def)

lemma backed_settled:
  "heard L p \<Longrightarrow> \<not> is_pending (sp_record p) \<Longrightarrow> (\<lambda>a. unblock_request E a (sp_record p)) ` set (sp_listeners p) \<subseteq> H \<Longrightarrow>
   backed_promise E L H (p\<lparr>sp_callbacks := [], sp_listeners := []\<rparr>)"
  by (auto simp: backed_promise_def told_def heard_def)

lemma backed_schedule_simps [simp]: "backed_schedule H (s\<lparr>s_last_run_at := r\<rparr>) = backed_schedule H s"
  by (simp add: backed_schedule_def)

lemma backs_any: "backs E L B kv jobs D H m R \<Longrightarrow> backs E L B kv jobs D H m anything"
  by (erule backs_mono) auto

lemma backs_states:
  assumes "st = TPending \<Longrightarrow> backs E L B kv jobs D H a R" "st = TAcquired \<Longrightarrow> backs E L B kv jobs D H b R"
    "st = TSuspended \<Longrightarrow> backs E L B kv jobs D H c R" "st = THalted \<Longrightarrow> backs E L B kv jobs D H d R"
    "st = TFulfilled \<Longrightarrow> backs E L B kv jobs D H e R"
  shows "backs E L B kv jobs D H (case st of TPending \<Rightarrow> a | TAcquired \<Rightarrow> b | TSuspended \<Rightarrow> c | THalted \<Rightarrow> d | TFulfilled \<Rightarrow> e) R"
  using assms by (simp split: task_state.split)

lemma backs_sum:
  "(\<And>y. backs E L B kv jobs D H (f y) R) \<Longrightarrow> (\<And>z. backs E L B kv jobs D H (g z) R) \<Longrightarrow>
   backs E L B kv jobs D H (case x of Inl y \<Rightarrow> f y | Inr z \<Rightarrow> g z) R"
  by (simp split: sum.split)

lemma backs_delivery:
  "(\<And>i. backs E L B kv jobs D H (f i) R) \<Longrightarrow> (\<And>m. backs E L B kv jobs D H (g m) R) \<Longrightarrow>
   backs E L B kv jobs D H (case d of Execute i \<Rightarrow> f i | Unblock m \<Rightarrow> g m) R"
  by (simp split: delivery.split)

text \<open>A record that is found has its job.\<close>

lemma backs_found:
  assumes q: "job_queue E kv jobs"
  shows "(i \<notin> fst ` L \<Longrightarrow> backs E L B kv jobs D H m R) \<Longrightarrow> (\<And>p H'. H \<subseteq> H' \<Longrightarrow> backed_promise E L H' p \<Longrightarrow> backs E L B kv jobs D H' (f p) R) \<Longrightarrow>
      backs E L B kv jobs D H (bnd (get_promise E i) (\<lambda>found. case found of None \<Rightarrow> m | Some p \<Rightarrow> f p)) R"
    and "backs E L B kv jobs D H m R \<Longrightarrow> (\<And>k H'. H \<subseteq> H' \<Longrightarrow> backed_task E H' k \<Longrightarrow> backs E L B kv jobs D H' (g k) R) \<Longrightarrow>
      backs E L B kv jobs D H (bnd (get_task E i) (\<lambda>found. case found of None \<Rightarrow> m | Some k \<Rightarrow> g k)) R"
    and "backs E L B kv jobs D H m R \<Longrightarrow> (\<And>s H'. H \<subseteq> H' \<Longrightarrow> backed_schedule H' s \<Longrightarrow> backs E L B kv jobs D H' (h s) R) \<Longrightarrow>
      backs E L B kv jobs D H (bnd (get_schedule E i) (\<lambda>found. case found of None \<Rightarrow> m | Some s \<Rightarrow> h s)) R"
proof -
  note c = job_queueD(1) [OF q]
  show "(i \<notin> fst ` L \<Longrightarrow> backs E L B kv jobs D H m R) \<Longrightarrow>
      (\<And>p H'. H \<subseteq> H' \<Longrightarrow> backed_promise E L H' p \<Longrightarrow> backs E L B kv jobs D H' (f p) R) \<Longrightarrow>
      backs E L B kv jobs D H (bnd (get_promise E i) (\<lambda>found. case found of None \<Rightarrow> m | Some p \<Rightarrow> f p)) R"
    by (rule backs_bnd [OF backs_get(1) [OF c, where H = H]]) (auto intro!: backs_option intro: backs_less)
  show "backs E L B kv jobs D H m R \<Longrightarrow>
      (\<And>k H'. H \<subseteq> H' \<Longrightarrow> backed_task E H' k \<Longrightarrow> backs E L B kv jobs D H' (g k) R) \<Longrightarrow>
      backs E L B kv jobs D H (bnd (get_task E i) (\<lambda>found. case found of None \<Rightarrow> m | Some k \<Rightarrow> g k)) R"
    by (rule backs_bnd [OF backs_get(2) [OF c, where H = H]]) (auto intro!: backs_option intro: backs_less)
  show "backs E L B kv jobs D H m R \<Longrightarrow>
      (\<And>s H'. H \<subseteq> H' \<Longrightarrow> backed_schedule H' s \<Longrightarrow> backs E L B kv jobs D H' (h s) R) \<Longrightarrow>
      backs E L B kv jobs D H (bnd (get_schedule E i) (\<lambda>found. case found of None \<Rightarrow> m | Some s \<Rightarrow> h s)) R"
    by (rule backs_bnd [OF backs_get(3) [OF c, where H = H]]) (auto intro!: backs_option intro: backs_less)
qed

text \<open>A read whose result is only answered.\<close>

lemma backs_own:
  assumes q: "job_queue E kv jobs" and "\<And>p. backs E L B kv jobs D H (f p) R"
  shows "backs E L B kv jobs D H (bnd (get_promise E i) (\<lambda>found. bnd (expect msg found) f)) R"
  by (rule backs_then(1) [OF backs_gets(1) [OF job_queueD(1) [OF q]]],
      rule backs_bnd [OF backs_expect], rule backs_less [OF assms(2)]) simp

lemma backs_read_task:
  assumes q: "job_queue E kv jobs" and "\<And>k. backs E L B kv jobs D H (f k) R"
  shows "backs E L B kv jobs D H (bnd (get_task E i) (\<lambda>found. bnd (expect msg found) f)) R"
  by (rule backs_then(1) [OF backs_gets(2) [OF job_queueD(1) [OF q]]],
      rule backs_bnd [OF backs_expect], rule backs_less [OF assms(2)]) simp

section \<open>Settlement\<close>

lemma backs_resume:
  assumes q: "job_queue E kv jobs"
  shows "backs E L B kv jobs D H (resume_awaiter E i j w) (grows H)"
  unfolding resume_awaiter_def
proof (rule backs_found(2) [OF q backs_ret])
  fix k H' assume "H \<subseteq> H'" "backed_task E H' k"
  then show "backs E L B kv jobs D H' (case t_state k of
      TPending \<Rightarrow> put_task (k\<lparr>t_resumes := os_insert j (t_resumes k)\<rparr>)
    | TAcquired \<Rightarrow> put_task (k\<lparr>t_resumes := os_insert j (t_resumes k)\<rparr>)
    | TSuspended \<Rightarrow> bnd (dispatch E ((transition k TPending)\<lparr>t_resumes := os_of_list [j]\<rparr>) None) (\<lambda>_. ret ())
    | THalted \<Rightarrow> if w = Fanout then put_task (k\<lparr>t_resumes := os_insert j (t_resumes k)\<rparr>) else ret ()
    | TFulfilled \<Rightarrow> ret ()) (grows H)"
    by (intro backs_states backs_if backs_ret backs_grows [OF backs_put(2)] backs_bnd [OF backs_dispatch [OF q]])
      auto
qed

lemma backs_fulfil:
  assumes q: "job_queue E kv jobs"
  shows "backs E L B kv jobs D H (fulfil_own_task E i) (grows H)"
  unfolding fulfil_own_task_def release_def
  by (intro backs_found(2) [OF q backs_ret] backs_if backs_ret backs_then(2) [OF backs_put(2)]
      backs_grows [OF backs_after]) auto

lemma for_each_map: "for_each g (map f xs) = for_each (\<lambda>x. g (f x)) xs"
  by (induction xs) simp_all

text \<open>What a settlement writes before it tells the listeners, it writes with their messages to come.\<close>

lemma backs_settle_chain:
  assumes q: "job_queue E kv jobs" and p: "\<not> is_pending (sp_record p)" "heard L p"
  shows "backs E L B kv jobs D H (settle_chain E p) (grows H)"
proof -
  let ?p = "p\<lparr>sp_callbacks := [], sp_listeners := []\<rparr>" and ?i = "p_id (sp_record p)"
  let ?rs = "map (\<lambda>a. unblock_request E a (sp_record p)) (sp_listeners p)"
  let ?m = "andthen (fulfil_own_task E ?i) (andthen (put_promise ?p) (for_each (wake_awaiter E ?i) (sp_callbacks p)))"
  have wake: "backs E L B kv jobs D' H' (wake_awaiter E i j) (grows H')" for i j H' D'
    unfolding wake_awaiter_def
    by (rule backs_then(1) [OF backs_gets(1) [OF job_queueD(1) [OF q]]], rule backs_then(1) [OF backs_asks],
        assumption, intro backs_option backs_if backs_ret backs_resume [OF q])
  have settled: "backed_promise E L (set ?rs \<union> H) ?p"
    by (rule backed_settled [OF p(2,1)]) auto
  have "backs E L B kv jobs (set ?rs \<union> D) H ?m (grows H)"
    by (rule backs_counted, intro backs_then(2) [OF backs_fulfil [OF q]] backs_then(2) [OF backs_put(1) [OF settled]]
        backs_for_each wake)
  then have "backs E L B kv jobs D H (andthen (andthen ?m (for_each enqueue ?rs)) (ret ?p)) (grows H)"
    by (rule backs_then(2) [OF backs_then_enqueues backs_ret])
  then show ?thesis
    unfolding settle_chain_def Let_def send_unblock_request for_each_map andthen_def bnd_assoc by simp
qed

lemma backs_expire:
  assumes q: "job_queue E kv jobs" and p: "heard L p"
  shows "backs E L B kv jobs D H (expire_promise E p) (grows H)"
  unfolding expire_promise_def
  by (intro backs_settle_chain [OF q]) (use p in \<open>simp_all add: is_pending_def expired_record_def heard_def\<close>)

lemma backs_try_timeout:
  assumes q: "job_queue E kv jobs"
  shows "backs E L B kv jobs D H (try_timeout E ids) (grows H)"
proof -
  have one: "backs E L B kv jobs D H' (bnd (asks now) (\<lambda>time. case found of
        None \<Rightarrow> ret ()
      | Some promise \<Rightarrow>
          if expired time (sp_record promise) then bnd (expire_promise E promise) (\<lambda>_. ret ()) else ret ())) (grows H')"
    if "pred_option (backed_promise E L H') found" for found H'
    by (rule backs_then(1) [OF backs_asks], assumption, intro backs_option backs_if backs_ret
        backs_then(1) [OF backs_expire [OF q]])
      (use that in \<open>auto simp: expired_def intro: backed_heard\<close>)
  have "backs E L B kv jobs D H' (timeout_one E i) (grows H')" for i H'
    unfolding timeout_one_def
    by (rule backs_bnd [OF backs_get(1) [OF job_queueD(1) [OF q], where H = H']], rule backs_grows [OF one]) auto
  then show ?thesis
    unfolding try_timeout_def by (intro backs_for_each)
qed

lemma backs_settle:
  assumes q: "job_queue E kv jobs" and p: "backed_promise E L H p"
  shows "backs E L B kv jobs D H (settle_pending E p st v) (grows H)"
  unfolding settle_pending_def settle_def
  by (intro backs_if backs_ret backs_then(1) [OF backs_asks] backs_settle_chain [OF q])
    (use backed_heard [OF p] in \<open>simp_all add: is_pending_def settled_record_def heard_def\<close>)

section \<open>Acquisition and creation\<close>

lemma backs_acquire:
  assumes q: "job_queue E kv jobs" and "backed_task E H k" "t_state k \<noteq> TFulfilled"
  shows "backs E L B kv jobs D H (acquire E k pid ttl) (grows H)"
  unfolding acquire_def
  by (intro backs_then(1) [OF backs_renew [OF q]] backs_if backs_ret backs_then(2) [OF backs_put(2)]
      backed_task_moved assms)

lemma backs_create_task:
  assumes q: "job_queue E kv jobs"
  shows "backs E L B kv jobs D H (create_task E p tgt mode) (grows H)"
proof -
  have dispatch: "backs E L B kv jobs D H (dispatch E k at) (grows H)" for k at
    by (rule backs_mono [OF backs_dispatch [OF q]]) auto
  show ?thesis
    unfolding create_task_def Let_def
    by (rule backs_then(1) [OF backs_asks], assumption, rule backs_if, rule backs_put(2), simp, cases mode)
      (auto intro!: backs_then(1) [OF dispatch] backs_ret backs_claim_after)
qed

lemma backs_create:
  assumes q: "job_queue E kv jobs" and new: "pc_id data \<notin> fst ` L"
  shows "backs E L B kv jobs D H (create_promise E data at mode) (grows H)"
proof -
  have "backs E L B kv jobs D H (let p = \<lparr>sp_record = r, sp_callbacks = [], sp_listeners = []\<rparr>
     in andthen (index_branch r) (andthen (put_promise p)
       (andthen (case target r of None \<Rightarrow> ret () | Some tgt \<Rightarrow> create_task E r tgt mode)
       (andthen (if is_pending r \<and> is_external r
                 then schedule_timer (PromiseTimeout (p_id r)) (p_timeout_at r) else ret ()) (ret p))))) (grows H)"
    if r: "p_id r = pc_id data" for r
  proof -
    have untold: "told E L H' \<lparr>sp_record = r, sp_callbacks = [], sp_listeners = []\<rparr>" for H'
      using new r by (force simp: told_def)
    let ?p = "\<lparr>sp_record = r, sp_callbacks = [], sp_listeners = []\<rparr>"
    let ?timer = "timer_request (PromiseTimeout (p_id r)) (p_timeout_at r)"
    let ?m = "andthen (index_branch r) (andthen (put_promise ?p)
       (case target r of None \<Rightarrow> ret () | Some tgt \<Rightarrow> create_task E r tgt mode))"
    have body: "backs E L B kv jobs D' H' ?m (grows H')" if "backed_promise E L H' ?p" for D' H'
      by (intro backs_then(2) [OF backs_put(5)] backs_then(2) [OF backs_put(1)] backs_option backs_ret
          backs_create_task [OF q] that)
    have "backs E L B kv jobs D H (andthen ?m (if is_pending r \<and> is_external r
        then schedule_timer (PromiseTimeout (p_id r)) (p_timeout_at r) else ret ())) (grows H)"
    proof (cases "is_pending r \<and> is_external r")
      case True
      have "backs E L B kv jobs (insert ?timer D) H ?m (grows H)"
        unfolding insert_is_Un [of _ D] by (rule backs_counted [OF body]) (simp_all add: backed_promise_def untold)
      with True show ?thesis by (simp add: backs_then_timer)
    next
      case False
      then have "backed_promise E L H ?p" by (auto simp: backed_promise_def untold)
      then show ?thesis
        unfolding if_not_P [OF False] by (intro backs_then(2) [OF body] backs_ret)
    qed
    then have "backs E L B kv jobs D H (andthen (andthen ?m (if is_pending r \<and> is_external r
        then schedule_timer (PromiseTimeout (p_id r)) (p_timeout_at r) else ret ())) (ret ?p)) (grows H)"
      by (rule backs_then(2) [OF _ backs_ret])
    then show ?thesis by (simp add: andthen_def bnd_assoc Let_def)
  qed
  from this [unfolded Let_def] show ?thesis
    unfolding create_promise_def Let_def stored_promise.simps
    by (intro backs_then(1) [OF backs_asks]) simp_all
qed

lemma backs_fire_schedule:
  assumes q: "job_queue E kv jobs" and s: "backed_schedule H s"
  shows "backs E L B kv jobs D H (fire_schedule E s) (grows H)"
proof -
  have last: "backs E L B kv jobs D H' (andthen (schedule_timer (ScheduleAt (s_id s) nxt) nxt)
      (put_schedule (s\<lparr>s_last_run_at := Some at, s_next_run_at := nxt\<rparr>))) (grows H')" for nxt at H'
    by (rule backs_andthen [OF backs_timer], rule backs_grows [OF backs_put(3)]) (auto simp: backed_schedule_def)
  have promise: "backs E L B kv jobs D H' (case found of
        None \<Rightarrow> bnd (create_promise E d at mode) (\<lambda>_. ret ())
      | Some _ \<Rightarrow> ret ()) (grows H')"
    if "found = None \<longrightarrow> pc_id d \<notin> fst ` L" for found :: "stored_promise option" and d at mode H'
    by (intro backs_option backs_then(1) [OF backs_create [OF q]] backs_ret) (use that in simp)
  have next_run: "backs E L B kv jobs D H' (case nxt of
        Some nxt \<Rightarrow> andthen (schedule_timer (ScheduleAt (s_id s) nxt) nxt)
          (put_schedule (s\<lparr>s_last_run_at := Some at, s_next_run_at := nxt\<rparr>))
      | None \<Rightarrow> put_schedule (s\<lparr>s_last_run_at := Some at\<rparr>)) (grows H')" if "H \<subseteq> H'" for nxt at H'
    by (intro backs_option last backs_put(3)) (use backed_mono(3) [OF that s] in simp)
  show ?thesis
    unfolding fire_schedule_def Let_def
    by (rule backs_bnd [OF backs_get(1) [OF job_queueD(1) [OF q], where H = H]],
        rule backs_grows [OF backs_then(2) [OF promise next_run]])
      (auto simp: schedule_promise_data_def Let_def)
qed

lemma backs_register:
  assumes "backed_promise E L H p"
  shows "backs E L B kv jobs D H (register_callback p i) (grows H)"
  unfolding register_callback_def Let_def
  by (intro backs_if backs_ret backs_then(2) [OF backs_put(1)]) (use assms in simp_all)

section \<open>Requests\<close>

lemma backs_view:
  assumes q: "job_queue E kv jobs"
  shows "backs E L B kv jobs D H (task_view E k) (grows H)"
  unfolding task_view_def
  by (intro backs_own [OF q] backs_then(1) [OF backs_preload [OF q]] backs_ret
      backs_then(1) [OF backs_if [OF backs_ret backs_preload [OF q]]])

lemma backs_end:
  assumes q: "job_queue E kv jobs"
  shows "backs E L B kv jobs {} H (finished E r) anything" "backs E L B kv jobs {} H (ret x) anything"
  by (rule backs_any [OF backs_finished [OF q]], rule backs_ret, simp)

lemma backs_reject: "backs E L B kv jobs D H m R \<Longrightarrow> (\<And>x. backs E L B kv jobs D H (ret x) R) \<Longrightarrow> backs E L B kv jobs D H (reject r m) R"
  unfolding reject_def by (rule backs_option)

lemma backs_parsed:
  "(\<And>d. backs E L B kv jobs D H (h d) R) \<Longrightarrow> (\<And>x. backs E L B kv jobs D H (ret x) R) \<Longrightarrow>
   backs E L B kv jobs D H (parsed E ty dec data h) R"
  unfolding parsed_def by (rule backs_option)

lemma backs_claimable:
  assumes q: "job_queue E kv jobs"
  shows "backs E L B kv jobs D H (claimable E k ttl) (grows H)"
  unfolding claimable_def
  by (intro backs_then(1) [OF backs_holds] backs_if backs_option backs_ret backs_claim [OF q])

lemma backs_searches:
  assumes q: "job_queue E kv jobs"
  shows "backs E L B kv jobs {} H (promise_search E d1) anything" "backs E L B kv jobs {} H (task_search E d2) anything"
    "backs E L B kv jobs {} H (schedule_search E d3) anything"
proof -
  have list: "backs E L B kv jobs {} H (promises E) anything" "backs E L B kv jobs {} H (tasks E) anything"
    "backs E L B kv jobs {} H (schedules E) anything" for H
    unfolding promises_def tasks_def schedules_def list_kind_def
    by (auto intro!: backs_bnd [OF backs_reads] backs_ret backs_reads)
  have paged: "backs E L B kv jobs {} H (paged name enc id_of items cursor n) anything" for name enc and id_of items cursor n H
    unfolding paged_def by (rule backs_bnd [OF backs_reads]) (auto intro: backs_ret split: prod.split)
  show "backs E L B kv jobs {} H (promise_search E d1) anything" "backs E L B kv jobs {} H (task_search E d2) anything"
    "backs E L B kv jobs {} H (schedule_search E d3) anything"
    unfolding promise_search_def task_search_def schedule_search_def limited_def
    by (intro backs_sum backs_end(2) [OF q] backs_bnd [OF list(1)] backs_bnd [OF list(2)] backs_bnd [OF list(3)] paged)+
qed

lemma backs_promise_requests:
  assumes q: "job_queue E kv jobs"
  shows "backs E L B kv jobs {} H (promise_create E d1) anything" "backs E L B kv jobs {} H (promise_get E i) anything"
    "backs E L B kv jobs {} H (promise_settle E d2) anything"
    "backs E L B kv jobs {} H (promise_register_callback E d3) anything"
    "backs E L B kv jobs {} H (promise_register_listener E d4) anything"
proof -
  note deadlines = backs_then(2) [OF backs_try_timeout [OF q]] and last = backs_end [OF q]
  show "backs E L B kv jobs {} H (promise_create E d1) anything"
    unfolding promise_create_def
    by (intro backs_reject last deadlines backs_found(1) [OF q] backs_then(1) [OF backs_create [OF q]])
  show "backs E L B kv jobs {} H (promise_get E i) anything"
    unfolding promise_get_def
    by (intro deadlines backs_then(1) [OF backs_gets(1) [OF job_queueD(1) [OF q]]] last)
  show "backs E L B kv jobs {} H (promise_settle E d2) anything"
    unfolding promise_settle_def
    by (intro deadlines backs_found(1) [OF q] backs_then(1) [OF backs_settle [OF q]] last)
  have awaited: "backs E L B kv jobs {} H' (if is_pending r then (if is_pending (sp_record p) then register_callback p j
      else andthen (resume_awaiter E j j' w) (ret p)) else ret p) (grows H')"
    if "backed_promise E L H' p" for r p j j' w H'
    by (intro backs_if backs_register that backs_then(2) [OF backs_resume [OF q]] backs_ret)
  show "backs E L B kv jobs {} H (promise_register_callback E d3) anything"
    unfolding promise_register_callback_def
    by (intro backs_reject last deadlines backs_found(1) [OF q] backs_if backs_then(1) [OF awaited])
      (auto elim: backed_mono)
  have listener: "backs E L B kv jobs {} H' (if is_pending (sp_record p) \<and> a \<notin> set (sp_listeners p)
      then put_promise (p\<lparr>sp_listeners := sp_listeners p @ [a]\<rparr>) else ret ()) (grows H')"
    if "backed_promise E L H' p" for p a H'
    by (intro backs_if backs_put(1) backs_ret backed_promise_listens that)
  show "backs E L B kv jobs {} H (promise_register_listener E d4) anything"
    unfolding promise_register_listener_def
    by (intro backs_if last deadlines backs_found(1) [OF q] backs_then(2) [OF listener])
qed

lemma backs_heartbeat:
  assumes q: "job_queue E kv jobs"
  shows "backs E L B kv jobs {} H (task_heartbeat E d) anything"
proof -
  have "backs E L B kv jobs {} H' (heartbeat_one E pid entry) (grows H')" for pid entry H'
    unfolding heartbeat_one_def
    by (intro backs_then(1) [OF backs_gets(2) [OF job_queueD(1) [OF q]]] backs_option backs_ret backs_if
        backs_then(1) [OF backs_renew [OF q]])
  then show ?thesis
    unfolding task_heartbeat_def by (intro backs_then(2) [OF backs_for_each] backs_end [OF q])
qed

lemma backs_task_moves:
  assumes q: "job_queue E kv jobs"
  shows "backs E L B kv jobs {} H (task_get E i) anything" "backs E L B kv jobs {} H (task_halt E i) anything"
    "backs E L B kv jobs {} H (task_continue E i) anything" "backs E L B kv jobs {} H (task_acquire E d1) anything"
    "backs E L B kv jobs {} H (task_release E d2) anything"
proof -
  note deadlines = backs_then(2) [OF backs_try_timeout [OF q]] and last = backs_end [OF q]
  show "backs E L B kv jobs {} H (task_get E i) anything"
    unfolding task_get_def
    by (intro deadlines backs_then(1) [OF backs_gets(2) [OF job_queueD(1) [OF q]]] last)
  show "backs E L B kv jobs {} H (task_halt E i) anything"
    unfolding task_halt_def release_def
    by (intro deadlines backs_found(2) [OF q] backs_if backs_then(2) [OF backs_put(2)]
        backs_then(2) [OF backs_after] last backed_task_moved)
  have waiting: "backs E L B kv jobs {} H' (case j of Some job \<Rightarrow> job_exists E job | None \<Rightarrow> ret False) (grows H')" for j H'
    by (intro backs_option backs_job_exists backs_ret)
  have again: "backs E L B kv jobs {} H' (if \<not> b then bnd (dispatch E k None) (\<lambda>_. ret ()) else ret ()) (grows H')" for b k H'
    by (intro backs_if backs_ret backs_bnd [OF backs_dispatch [OF q]]) auto
  show "backs E L B kv jobs {} H (task_continue E i) anything"
    unfolding task_continue_def Let_def
    by (intro deadlines backs_found(2) [OF q] backs_if backs_then(2) [OF backs_put(2)]
        backs_then(1) [OF waiting] backs_then(2) [OF again] last backed_task_moved) simp_all
  show "backs E L B kv jobs {} H (task_acquire E d1) anything"
    unfolding task_acquire_def
    by (intro deadlines backs_found(2) [OF q] backs_if backs_then(1) [OF backs_acquire [OF q]] backs_option
        backs_then(1) [OF backs_view [OF q]] last) simp_all
  show "backs E L B kv jobs {} H (task_release E d2) anything"
    unfolding task_release_def nack_after_commit_def
    by (intro deadlines backs_found(2) [OF q] backs_if backs_then(2) [OF backs_put(2)]
        backs_then(2) [OF backs_after] last backed_task_moved) (auto simp: is_acquired_at_def)
qed

lemma backs_load_awaited:
  assumes q: "job_queue E kv jobs"
  shows "backs E L B kv jobs D H (load_awaited E ids)
    (\<lambda>H' x. H \<subseteq> H' \<and> (\<forall>ps. x = Inr ps \<longrightarrow> (\<forall>p \<in> set ps. backed_promise E L H' p)))"
proof (induction ids arbitrary: H)
  case Nil
  show ?case by (simp add: backs_ret)
next
  case (Cons i ids)
  have more: "backs E L B kv jobs D H' (bnd (load_awaited E ids) (\<lambda>loaded. ret (case loaded of
        Inl reply \<Rightarrow> Inl reply | Inr awaited \<Rightarrow> Inr (p # awaited))))
      (\<lambda>H' x. H \<subseteq> H' \<and> (\<forall>ps. x = Inr ps \<longrightarrow> (\<forall>p \<in> set ps. backed_promise E L H' p)))"
    if "H \<subseteq> H'" "backed_promise E L H' p" for p H'
    by (rule backs_bnd [OF Cons.IH], rule backs_ret) (use that in \<open>auto split: sum.splits intro: backed_mono\<close>)
  show ?case
    unfolding load_awaited.simps
    by (intro backs_found(1) [OF q] backs_if backs_ret more) simp_all
qed

lemma backs_suspend_on:
  assumes q: "job_queue E kv jobs"
    and k: "backed_task E H k" "t_state k \<noteq> TFulfilled" and ps: "\<forall>p \<in> set ps. backed_promise E L H p"
  shows "backs E L B kv jobs {} H (suspend_on E i k ps) anything"
proof -
  have each: "backs E L B kv jobs {} H' (bnd (register_callback p i) (\<lambda>_. ret ())) (grows H')"
    if "p \<in> set ps" "H \<subseteq> H'" for p H'
    by (intro backs_then(1) [OF backs_register] backs_ret) (use that ps in \<open>auto intro: backed_mono\<close>)
  show ?thesis
    unfolding suspend_on_def Let_def
    by (intro backs_if backs_then(2) [OF backs_put(2)] backs_own [OF q] backs_then(1) [OF backs_preload [OF q]]
        backs_end [OF q] backs_then(2) [OF backs_for_each [OF each]] backs_settlement [OF q] backed_task_moved)
      (use k in simp_all)
qed

lemma backs_task_ends:
  assumes q: "job_queue E kv jobs"
  shows "backs E L B kv jobs {} H (task_fulfill E d1) anything" "backs E L B kv jobs {} H (task_suspend E d2) anything"
    "backs E L B kv jobs {} H (task_create E d3) anything" "backs E L B kv jobs {} H (task_fence E corr_id d4) anything"
proof -
  note deadlines = backs_then(2) [OF backs_try_timeout [OF q]] and last = backs_end [OF q]
  show "backs E L B kv jobs {} H (task_fulfill E d1) anything"
    unfolding task_fulfill_def Let_def
    by (intro backs_if last deadlines backs_found [OF q] backs_then(1) [OF backs_holds]
        backs_then(1) [OF backs_settle [OF q]] backs_settlement [OF q])
  have suspend: "backs E L B kv jobs {} H' (bnd (load_awaited E ids) (\<lambda>loaded. case loaded of
        Inl reply \<Rightarrow> finished E reply | Inr awaited \<Rightarrow> suspend_on E i k awaited)) anything"
    if "backed_task E H' k" "t_state k \<noteq> TFulfilled" for ids i k H'
    by (rule backs_bnd [OF backs_load_awaited [OF q]])
      (auto split: sum.split intro!: last backs_suspend_on [OF q] backed_mono(2) [OF _ that(1)] that(2))
  have acquired: "t_state k \<noteq> TFulfilled" if "is_acquired_at k v" for k v
    using that by (simp add: is_acquired_at_def)
  have suspending: "backs E L B kv jobs {} H' (bnd (if is_acquired_at k v then holds E (t_id k) else ret False) (\<lambda>held.
        if \<not> held then finished E r else bnd (load_awaited E ids) (\<lambda>loaded. case loaded of
          Inl reply \<Rightarrow> finished E reply | Inr awaited \<Rightarrow> suspend_on E i k awaited))) anything"
    if "backed_task E H' k" for k v r ids i H'
  proof (cases "is_acquired_at k v")
    case True
    show ?thesis
      unfolding if_P [OF True]
      by (intro backs_then(1) [OF backs_holds] backs_if last suspend that acquired [OF True])
  next
    case False
    show ?thesis
      unfolding if_not_P [OF False] bnd_ret by (simp add: last)
  qed
  show "backs E L B kv jobs {} H (task_suspend E d2) anything"
    unfolding task_suspend_def
    by (intro backs_if last backs_sum deadlines backs_found(2) [OF q] suspending)
  have existing: "backs E L B kv jobs {} H' (create_existing E k pid ttl) anything" if "backed_task E H' k" for k pid ttl H'
    unfolding create_existing_def
    by (intro backs_states last backs_then(1) [OF backs_claimable [OF q]] backs_if
        backs_then(1) [OF backs_acquire [OF q]] backs_option backs_then(1) [OF backs_view [OF q]] that) simp
  show "backs E L B kv jobs {} H (task_create E d3) anything"
    unfolding task_create_def Let_def
    by (intro backs_if last backs_reject deadlines backs_found [OF q] existing
        backs_then(1) [OF backs_create [OF q]] backs_read_task [OF q] backs_then(1) [OF backs_view [OF q]])
  have action: "backs E L B kv jobs {} H' (fence_action E kd j) (grows H')" for kd j H'
    unfolding fence_action_def fence_create_def fence_settle_def
    by (intro backs_if backs_option backs_ret backs_found(1) [OF q] backs_then(1) [OF backs_create [OF q]]
        backs_then(1) [OF backs_settle [OF q]]) simp_all
  show "backs E L B kv jobs {} H (task_fence E corr_id d4) anything"
    unfolding task_fence_def
    by (intro backs_option last backs_if deadlines backs_found(2) [OF q] backs_then(1) [OF action] backs_sum
        backs_own [OF q] backs_then(1) [OF backs_preload [OF q]])
qed

lemma backs_schedule_requests:
  assumes q: "job_queue E kv jobs"
  shows "backs E L B kv jobs {} H (schedule_create E d) anything" "backs E L B kv jobs {} H (schedule_get E i) anything"
    "backs E L B kv jobs {} H (schedule_delete E i) anything"
proof -
  note last = backs_end [OF q]
  have store: "backs E L B kv jobs {} H' (andthen (put_schedule s)
      (andthen (schedule_timer (ScheduleAt (s_id s) nxt) nxt) (finished E r))) anything"
    if "s_next_run_at s = nxt" for s nxt r H'
  proof -
    have "backs E L B kv jobs (insert (timer_request (ScheduleAt (s_id s) nxt) nxt) {}) H' (put_schedule s) (grows H')"
      by (subst insert_is_Un, rule backs_counted [OF backs_put(3)]) (simp add: backed_schedule_def that)
    then have "backs E L B kv jobs {} H' (andthen (andthen (put_schedule s)
        (schedule_timer (ScheduleAt (s_id s) nxt) nxt)) (finished E r)) anything"
      by (rule backs_then(2) [OF backs_then_timer last(1)])
    then show ?thesis unfolding andthen_def bnd_assoc .
  qed
  show "backs E L B kv jobs {} H (schedule_create E d) anything"
    unfolding schedule_create_def Let_def
    by (intro backs_if backs_option last backs_found(3) [OF q] backs_then(1) [OF backs_asks] store)
      (simp_all add: created_schedule_def)
  show "backs E L B kv jobs {} H (schedule_get E i) anything"
    unfolding schedule_get_def by (rule backs_bnd [OF backs_get(3) [OF job_queueD(1) [OF q]]]) (rule last)
  show "backs E L B kv jobs {} H (schedule_delete E i) anything"
    unfolding schedule_delete_def
    by (intro backs_found(3) [OF q] last backs_then(2) [OF backs_put(4)])
qed

section \<open>Every request, timer and delivery\<close>

lemma backs_handle:
  assumes q: "job_queue E kv jobs"
  shows "backs E L B kv jobs {} {} (handle E kind corr_id data) anything"
  unfolding handle_def
  by (intro backs_if backs_parsed backs_end(2) [OF q] backs_promise_requests [OF q] backs_searches [OF q]
      backs_task_moves [OF q] backs_heartbeat [OF q] backs_task_ends [OF q] backs_schedule_requests [OF q])

lemma backs_fire:
  assumes q: "job_queue E kv jobs"
  shows "backs E L B kv jobs {} {} (fire E tm) anything"
proof -
  note last = backs_any [OF backs_commit [OF q]]
  show ?thesis
    unfolding fire_def
    by (cases tm) (auto intro!: backs_found [OF q] backs_if backs_end [OF q] backs_then(1) [OF backs_expire [OF q]] last
        backs_then(2) [OF backs_fire_schedule [OF q]] intro: backed_heard)
qed

lemma backs_deliver:
  assumes q: "job_queue E kv jobs"
  shows "backs E L B kv jobs {} {} (deliver E cl) anything"
proof -
  note commit = backs_then(2) [OF backs_commit [OF q]] and last = backs_end [OF q]
  note noted = backs_then(2) [OF backs_after]
  show ?thesis
    unfolding deliver_def Let_def ack_after_commit_def hold_after_commit_def
    by (rule backs_then(1) [OF backs_reads], assumption, rule backs_delivery,
        intro backs_then(2) [OF backs_try_timeout [OF q]] backs_found(2) [OF q] backs_states noted commit last
          backs_then(2) [OF backs_put(2)] backed_task_moved, simp_all, intro noted commit last)
qed

section \<open>Over every run\<close>

text \<open>
  A step of the system: a request, a timer, a round of a delivery loop or the delivery of a claim
  it took before, a step of the queue
  itself, which does not forget what it has accepted, or a restart on what the queue has stored;
  and the invariant of the worlds between the steps.
\<close>

inductive remembering ::
  "('q, 'x) env_scheme \<Rightarrow> ('q \<Rightarrow> store) \<Rightarrow> ('q \<Rightarrow> enqueue_request set) \<Rightarrow> store_options \<Rightarrow>
   'q world \<Rightarrow> 'q world \<Rightarrow> bool"
  for E kv jobs opts where
  asked_for: "send_timed E opts raw w = (out, w') \<Longrightarrow> remembering E kv jobs opts w w'"
| timer_due: "process_timer E opts payload w = (r, w') \<Longrightarrow> remembering E kv jobs opts w w'"
| delivered_to: "delivery_round E opts l subs w = (go, out, w') \<Longrightarrow> remembering E kv jobs opts w w'"
| handed_over: "deliver_claim E opts subs c w = (out, w') \<Longrightarrow> remembering E kv jobs opts w w'"
| queue_moves: "same_namespace (kv (w_queue w)) (kv q') \<Longrightarrow> jobs (w_queue w) \<subseteq> jobs q' \<Longrightarrow>
    remembering E kv jobs opts w (w\<lparr>w_queue := q'\<rparr>)"
| restarted: "same_namespace (kv (w_queue w)) (kv q') \<Longrightarrow> jobs (w_queue w) \<subseteq> jobs q' \<Longrightarrow>
    remembering E kv jobs opts w (from_queue q')"

lemma remembering_step: "remembering E kv jobs opts w w' \<Longrightarrow> store_step E kv opts w w'"
  by (erule remembering.cases) (auto intro: store_step.intros)

definition provided ::
  "('q, 'x) env_scheme \<Rightarrow> (string \<times> string) set \<Rightarrow> ('q \<Rightarrow> store) \<Rightarrow> ('q \<Rightarrow> enqueue_request set) \<Rightarrow>
   'q world \<Rightarrow> bool" where
  "provided E L kv jobs w \<longleftrightarrow> job_queue E kv jobs \<and> backed E L (jobs (w_queue w)) (kv (w_queue w))"

text \<open>A transaction keeps the invariant, and the queue remembers what it had accepted before it.\<close>

lemma locked_provided:
  assumes "provided E L kv jobs w" "backs E L (jobs (w_queue w)) kv jobs {} {} m anything" "locked E opts m w = (r, w')"
  shows "provided E L kv jobs w'" "jobs (w_queue w) \<subseteq> jobs (w_queue w')"
proof -
  let ?B = "jobs (w_queue w)"
  obtain t where t: "m (shared_txn E opts w) = (r, t)" "w' = \<lparr>w_queue = queue t, w_held = held t\<rparr>"
    using assms(3) by (auto simp: locked_def split: prod.splits)
  have "view_backed E L ?B kv jobs {} (shared_txn E opts w)"
    by (rule base_view_backed) (use assms(1) in \<open>simp_all add: provided_def base_backed_def shared_txn_def new_txn_def\<close>)
  then have "wp m (leaves E L ?B kv jobs {} anything) (shared_txn E opts w)"
    by (rule backsD [OF assms(2)]) simp
  then have "base_backed E L ?B kv jobs t"
    using t(1) by (cases r) (auto simp: wp_def view_base)
  then show "provided E L kv jobs w'" "?B \<subseteq> jobs (w_queue w')"
    using assms(1) t(2) by (simp_all add: provided_def base_backed_def)
qed

lemma same_namespace_provided:
  assumes "provided E L kv jobs w" "same_namespace (kv (w_queue w)) (kv (w_queue w'))"
    and "jobs (w_queue w) \<subseteq> jobs (w_queue w')"
  shows "provided E L kv jobs w'"
proof -
  have "backed E L (jobs (w_queue w)) (kv (w_queue w'))"
    using assms(1) by (simp add: provided_def backed_def same_namespace_records(1-3) [OF assms(2)])
  then show ?thesis using assms(1) backed_mono(4) [OF assms(3)] by (simp add: provided_def)
qed

lemma remembering_provided:
  assumes w: "provided E L kv jobs w" and "remembering E kv jobs opts w w'"
  shows "provided E L kv jobs w' \<and> jobs (w_queue w) \<subseteq> jobs (w_queue w')"
proof -
  have q: "job_queue E kv jobs" using w by (simp add: provided_def)
  from assms(2) show ?thesis
  proof cases
    case (asked_for raw out)
    then consider "w' = w" | kind corr_id data r where "locked E opts (handle E kind corr_id data) w = (r, w')"
      by (auto simp: send_timed_def split: sum.splits prod.splits)
    then show ?thesis using w locked_provided [OF w backs_handle [OF q]] by cases blast+
  next
    case (timer_due payload r)
    then consider "w' = w" | tm where "locked E opts (fire E tm) w = (r, w')"
      by (auto simp: process_timer_def split: sum.splits)
    then show ?thesis using w locked_provided [OF w backs_fire [OF q]] by cases blast+
  next
    case (delivered_to l subs go out)
    obtain c q' where claim: "q_claim E (w_queue w) (dl_queue l) (retry_timeout opts) = (c, q')"
      by (metis surj_pair)
    let ?w = "w\<lparr>w_queue := q'\<rparr>"
    have more: "jobs (w_queue w) \<subseteq> jobs (w_queue ?w)"
      using accepts_claims(4) [OF job_queueD(2) [OF q] claim] by simp
    have first: "provided E L kv jobs ?w"
      by (rule same_namespace_provided [OF w _ more])
        (simp add: contract_claims(4) [OF job_queueD(1) [OF q] claim] same_namespace_refl)
    consider "w' = ?w" | cl r where "locked E opts (deliver E cl) ?w = (r, w')"
      using delivered_to claim
      by (auto simp: delivery_round_def deliver_claim_def split: sum.splits option.splits prod.splits)
    then show ?thesis using first more locked_provided [OF first backs_deliver [OF q]] by cases blast+
  next
    case (handed_over subs c out)
    then obtain r where "locked E opts (deliver E c) w = (r, w')"
      by (auto simp: deliver_claim_def split: sum.splits option.splits prod.splits)
    then show ?thesis using locked_provided [OF w backs_deliver [OF q]] by blast
  next
    case (queue_moves q')
    then show ?thesis using same_namespace_provided [OF w, of w'] by simp
  next
    case (restarted q')
    then show ?thesis using same_namespace_provided [OF w, of w'] by (simp add: from_queue_def)
  qed
qed

interpretation providing: invariant_machine "remembering E kv jobs opts" "provided E L kv jobs"
  for E :: "('q, 'x) env_scheme" and L :: "(string \<times> string) set" and kv :: "'q \<Rightarrow> store" and jobs :: "'q \<Rightarrow> enqueue_request set"
    and opts :: store_options
  by unfold_locales (use remembering_provided in blast)

lemma remembering_steps: "(remembering E kv jobs opts)\<^sup>*\<^sup>* w w' \<Longrightarrow> (store_step E kv opts)\<^sup>*\<^sup>* w w'"
  by (erule rtranclp_mono [THEN predicate2D, rotated]) (auto intro: remembering_step)

lemma backed_empty: "(\<And>k. prefix ''resonate/'' k \<Longrightarrow> V k = None) \<Longrightarrow> backed E {} H V"
  by (simp add: backed_def in_defs record_at_def)

text \<open>From an empty store: the records are good and have their jobs.\<close>

lemma reachable_provided:
  assumes "queue_contract E kv" "accepts E kv jobs" "\<forall>k. prefix ''resonate/'' k \<longrightarrow> kv (w_queue w) k = None"
    and "(remembering E kv jobs opts)\<^sup>*\<^sup>* w w'"
  shows "serving E kv w'" "backed E {} (jobs (w_queue w')) (kv (w_queue w'))"
proof -
  have none: "kv (w_queue w) k = None" if "prefix ''resonate/'' k" for k
    using assms(3) that by blast
  have "provided E {} kv jobs w"
    using assms(1,2) backed_empty [OF none] by (simp add: provided_def job_queue_def)
  then show "backed E {} (jobs (w_queue w')) (kv (w_queue w'))"
    using providing.reach_inv [OF assms(4)] by (simp add: provided_def)
  have "serving E kv w" using assms(1) good_empty [OF none] by (simp add: serving_def)
  then show "serving E kv w'" using served.reach_inv [OF remembering_steps [OF assms(4)]] by simp
qed

text \<open>The jobs of the records, under the ids they are stored under.\<close>

lemma jobs_of_records:
  assumes w: "serving E kv w" and backed: "backed E L (jobs (w_queue w)) (kv (w_queue w))"
  shows "promise_in E (kv (w_queue w)) i = Some p \<Longrightarrow> is_pending (sp_record p) \<Longrightarrow> is_external (sp_record p) \<Longrightarrow>
      timer_request (PromiseTimeout i) (p_timeout_at (sp_record p)) \<in> jobs (w_queue w)"
    and "task_in E (kv (w_queue w)) i = Some k \<Longrightarrow> t_state k \<noteq> TFulfilled \<Longrightarrow>
      \<exists>job at. t_job k = Some job \<and> execute_request E k job at \<in> jobs (w_queue w)"
    and "schedule_in E (kv (w_queue w)) i = Some s \<Longrightarrow>
      timer_request (ScheduleAt i (s_next_run_at s)) (s_next_run_at s) \<in> jobs (w_queue w)"
    and "(i, a) \<in> L \<Longrightarrow> \<exists>p. promise_in E (kv (w_queue w)) i = Some p
      \<and> (if is_pending (sp_record p) then a \<in> set (sp_listeners p)
         else unblock_request E a (sp_record p) \<in> jobs (w_queue w))"
proof -
  have good: "good E (kv (w_queue w))" using w by (simp add: serving_def)
  show "promise_in E (kv (w_queue w)) i = Some p \<Longrightarrow> is_pending (sp_record p) \<Longrightarrow> is_external (sp_record p) \<Longrightarrow>
      timer_request (PromiseTimeout i) (p_timeout_at (sp_record p)) \<in> jobs (w_queue w)"
    using backed_records(1) [OF backed, of i] goodD(2) [OF good, of i p]
    by (simp add: backed_promise_def promise_ok_def)
  show "task_in E (kv (w_queue w)) i = Some k \<Longrightarrow> t_state k \<noteq> TFulfilled \<Longrightarrow>
      \<exists>job at. t_job k = Some job \<and> execute_request E k job at \<in> jobs (w_queue w)"
    using backed_records(3) [OF backed, of i] by (simp add: backed_task_def)
  show "schedule_in E (kv (w_queue w)) i = Some s \<Longrightarrow>
      timer_request (ScheduleAt i (s_next_run_at s)) (s_next_run_at s) \<in> jobs (w_queue w)"
    using backed_records(4) [OF backed, of i] goodD(6) [OF good, of i s]
    by (simp add: backed_schedule_def schedule_ok_def)
  assume watched: "(i, a) \<in> L"
  then obtain p where p: "promise_in E (kv (w_queue w)) i = Some p"
    using backed_records(2) [OF backed, of i] by (cases "promise_in E (kv (w_queue w)) i") force+
  moreover have "p_id (sp_record p) = i"
    using goodD(2) [OF good p] by (simp add: promise_ok_def)
  ultimately show "\<exists>p. promise_in E (kv (w_queue w)) i = Some p
      \<and> (if is_pending (sp_record p) then a \<in> set (sp_listeners p)
         else unblock_request E a (sp_record p) \<in> jobs (w_queue w))"
    using backed_records(1) [OF backed, of i] watched by (auto simp: backed_promise_def told_def)
qed

text \<open>The listeners of a pending promise can be watched from any moment on.\<close>

lemma watched:
  assumes w: "serving E kv w" and backed: "backed E {} (jobs (w_queue w)) (kv (w_queue w))"
    and p: "promise_in E (kv (w_queue w)) i = Some p" "is_pending (sp_record p)" "a \<in> set (sp_listeners p)"
  shows "backed E {(i, a)} (jobs (w_queue w)) (kv (w_queue w))"
proof -
  have id: "p_id (sp_record q) = j" if "promise_in E (kv (w_queue w)) j = Some q" for j q
    using goodD(2) [OF _ that] w by (simp add: serving_def promise_ok_def)
  have "backed_promise E {(i, a)} (jobs (w_queue w)) q" if "promise_in E (kv (w_queue w)) j = Some q" for j q
    using backed_records(1) [OF backed, of j] id [OF that] that p by (auto simp: backed_promise_def told_def)
  then show ?thesis
    using backed p(1) unfolding backed_def option.pred_set by fastforce
qed

end
