(* ===== verification/Job_Properties.thy ===== *)
theory Job_Properties
  imports Backing Worker_Properties
begin

text \<open>
  The jobs of the records: over every run a pending promise has its timer, a task its job and a
  schedule the timer of its next run.
\<close>

section \<open>The queue in memory accepts jobs\<close>

lemma mem_accepts: "accepts mem_env mem_store mem_jobs"
proof -
  have commit: "mem_commit m ef = (r, m') \<Longrightarrow> accepted mem_store mem_jobs ef m r m'" for m ef r m'
    by (auto simp: accepted_def mem_commit_def mem_store_apply)
  have settle: "mem_ack_with m c ef = (r, m') \<Longrightarrow> accepted mem_store mem_jobs ef m r m'" for m c ef r m'
    by (auto simp: accepted_def mem_ack_with_def mem_end_with_def mem_settle_def mem_store_apply split: if_splits)
  show ?thesis
    unfolding accepts_def mem_env_simps
    by (intro conjI allI impI commit settle)
      (auto simp: mem_next_id_def mem_renew_def mem_claim_by_id_def mem_claim_next_def mem_ack_def mem_nack_def
        mem_settle_def mem_jobs_take split: option.split list.split prod.split)
qed

section \<open>No record is without its job\<close>

text \<open>
  C7: From an empty store, whatever requests, timers, deliveries, restarts and steps of the queue
  follow, and whichever of them fail, no record is left without its job: for a pending promise
  that can be awaited the queue has accepted a timer at its deadline, for a task that is not
  fulfilled the job it is delivered by, at the address of its target, and for a schedule the
  timer of its next run.
\<close>

theorem records_have_jobs:
  assumes "queue_contract E kv" "accepts E kv jobs" "\<forall>k. prefix ''resonate/'' k \<longrightarrow> kv (w_queue w) k = None"
    and "(remembering E kv jobs opts)\<^sup>*\<^sup>* w w'"
  shows "(\<forall>i p. promise_in E (kv (w_queue w')) i = Some p \<and> is_pending (sp_record p) \<and> is_external (sp_record p) \<longrightarrow>
        timer_request (PromiseTimeout i) (p_timeout_at (sp_record p)) \<in> jobs (w_queue w'))
    \<and> (\<forall>i k. task_in E (kv (w_queue w')) i = Some k \<and> t_state k \<noteq> TFulfilled \<longrightarrow>
        (\<exists>job at. t_job k = Some job \<and> execute_request E k job at \<in> jobs (w_queue w')))
    \<and> (\<forall>i s. schedule_in E (kv (w_queue w')) i = Some s \<longrightarrow>
        timer_request (ScheduleAt i (s_next_run_at s)) (s_next_run_at s) \<in> jobs (w_queue w'))"
  using jobs_of_records [where jobs = jobs, OF reachable_provided [OF assms]] by blast

text \<open>A run that creates a promise with a target.\<close>

definition hello_create :: promise_create_data where
  "hello_create = \<lparr>pc_id = ''hello'', pc_timeout_at = 500, pc_param = default_value, pc_tags = targeted_tags\<rparr>"

lemma hello_parsed: "parse_request mem_env ''create'' = Inr \<lparr>rq_kind = ''promise.create'',
    rq_head = \<lparr>hd_corr_id = ''1'', hd_version = None\<rparr>, rq_data = jget create_json ''data''\<rparr>"
  by code_simp

lemma hello_decoded: "dec_promise_create (jget create_json ''data'') = Some hello_create"
  by code_simp

lemma hello_handled: "handle mem_env ''promise.create'' c (jget create_json ''data'') = promise_create mem_env hello_create"
  by (simp add: handle_def parsed_def hello_decoded)

lemma hello_valid: "validate_create mem_env hello_create = None"
  by (simp add: validate_create_None hello_create_def targeted_tags_def TAG_TARGET_def TAG_DELAY_def
      mem_url_def demo_target_def prefix_def)

lemma hello_run:
  obtains out w' p k where "send_timed mem_env default_options ''create'' (from_queue mem_empty) = (out, w')"
    and "promise_in mem_env (mem_store (w_queue w')) ''hello'' = Some p"
    and "is_pending (sp_record p)" "is_external (sp_record p)" "p_timeout_at (sp_record p) = 500"
    and "task_in mem_env (mem_store (w_queue w')) ''hello'' = Some k" "t_state k = TPending" "t_version k = 0"
proof -
  let ?w = "from_queue mem_empty" let ?r = "created_record (shared_now mem_env ?w) hello_create None"
  have empty: "mem_store (w_queue ?w) = (\<lambda>_. None)"
    by (simp add: from_queue_def mem_empty_def mem_store_def fun_eq_iff)
  then have w: "serving mem_env mem_store ?w"
    using mem_contract by (simp add: serving_def good_empty)
  have none: "promise_in mem_env (mem_store (w_queue ?w)) i = None" for i
    by (simp add: empty in_defs record_at_def)
  have r: "is_pending ?r" "is_external ?r" "p_timeout_at ?r = 500" "p_id ?r = ''hello''" "target ?r = Some demo_target"
    by (simp_all add: created_record_def hello_create_def is_pending_def is_external_def target_def
        targeted_tags_def shared_now_def from_queue_def mem_empty_def clamp_i64_def i64_max_def Let_def)
  have "responds mem_env mem_store default_options ?w (promise_create mem_env hello_create) (\<lambda>_ W.
      promise_in mem_env W ''hello'' = Some (bare ?r)
      \<and> (\<exists>k. task_in mem_env W ''hello'' = Some k \<and> t_state k = TPending \<and> t_version k = 0))"
  proof (rule responds_live [OF w honest_promise_requests(1) promise_create_spec [OF begun_shared [OF w] mem_contract hello_valid]])
    fix D reply W
    assume "promise_in mem_env D = promise_in mem_env (mem_store (w_queue ?w))"
      and run: "created_or_found mem_env (now (shared_txn mem_env default_options ?w)) hello_create D reply W"
    then have "promise_in mem_env D ''hello'' = None" by (simp add: none)
    moreover have "pc_id hello_create = ''hello''" by (simp add: hello_create_def)
    ultimately have "created_store mem_env Dispatch ?r D W"
      using run by (simp add: created_or_found_def)
    then show "promise_in mem_env W ''hello'' = Some (bare ?r)
      \<and> (\<exists>k. task_in mem_env W ''hello'' = Some k \<and> t_state k = TPending \<and> t_version k = 0)"
      unfolding created_store_def r(4,5) using r(1) by (auto simp: starts_def)
  qed (simp_all add: none)
  from responds_reliable [OF this mem_reliable] obtain reply w' k where
    run: "locked mem_env default_options (promise_create mem_env hello_create) ?w = (Inr reply, w')"
    and p: "promise_in mem_env (mem_store (w_queue w')) ''hello'' = Some (bare ?r)"
    and k: "task_in mem_env (mem_store (w_queue w')) ''hello'' = Some k" "t_state k = TPending" "t_version k = 0"
    by blast
  have "\<exists>out. send_timed mem_env default_options ''create'' ?w = (out, w')"
    by (simp add: send_timed_def hello_parsed hello_handled run)
  then show thesis using that [OF _ p _ _ _ k] r by (auto simp del: from_queue_def)
qed

text \<open>The run, after which the clock of the queue still stands at the beginning.\<close>

lemma empty_store: "\<forall>k. prefix ''resonate/'' k \<longrightarrow> mem_store (w_queue (from_queue mem_empty)) k = None"
  by (simp add: from_queue_def mem_empty_def mem_store_def)

lemma hello_remembered:
  obtains w' p k where "(remembering mem_env mem_store mem_jobs default_options)\<^sup>*\<^sup>* (from_queue mem_empty) w'"
    and "promise_in mem_env (mem_store (w_queue w')) ''hello'' = Some p"
    and "is_pending (sp_record p)" "is_external (sp_record p)" "p_timeout_at (sp_record p) = 500"
    and "task_in mem_env (mem_store (w_queue w')) ''hello'' = Some k" "t_state k = TPending" "t_version k = 0"
    and "\<not> expired (shared_now mem_env w') (sp_record p)"
proof -
  obtain out w p k where run: "send_timed mem_env default_options ''create'' (from_queue mem_empty) = (out, w)"
    and p: "promise_in mem_env (mem_store (w_queue w)) ''hello'' = Some p"
      "is_pending (sp_record p)" "is_external (sp_record p)" "p_timeout_at (sp_record p) = 500"
    and k: "task_in mem_env (mem_store (w_queue w)) ''hello'' = Some k" "t_state k = TPending" "t_version k = 0"
    by (rule hello_run)
  let ?w = "w\<lparr>w_queue := (w_queue w)\<lparr>m_clock := 0\<rparr>\<rparr>"
  have "remembering mem_env mem_store mem_jobs default_options w ?w"
    by (rule queue_moves) (simp_all add: same_namespace_def mem_jobs_def)
  with asked_for [OF run] have "(remembering mem_env mem_store mem_jobs default_options)\<^sup>*\<^sup>* (from_queue mem_empty) ?w"
    by (blast intro: rtranclp.rtrancl_into_rtrancl)
  moreover have "\<not> expired (shared_now mem_env ?w) (sp_record p)"
    using p by (simp add: expired_def shared_now_def clamp_i64_def i64_max_def)
  ultimately show thesis using that [of ?w p k] p k by simp
qed

theorem records_have_jobs_witness:
  "\<exists>w'. (remembering mem_env mem_store mem_jobs default_options)\<^sup>*\<^sup>* (from_queue mem_empty) w'
     \<and> timer_request (PromiseTimeout ''hello'') 500 \<in> mem_jobs (w_queue w')"
proof -
  obtain w' p where steps: "(remembering mem_env mem_store mem_jobs default_options)\<^sup>*\<^sup>* (from_queue mem_empty) w'"
    and p: "promise_in mem_env (mem_store (w_queue w')) ''hello'' = Some p"
      "is_pending (sp_record p)" "is_external (sp_record p)" "p_timeout_at (sp_record p) = 500"
    by (rule hello_remembered)
  show ?thesis
    using records_have_jobs [OF mem_contract mem_accepts empty_store steps] steps p by metis
qed

section \<open>The jobs do their work\<close>

definition timed_out :: "('q, 'x) env_scheme \<Rightarrow> string \<Rightarrow> stored_promise \<Rightarrow> store \<Rightarrow> bool" where
  "timed_out E i p W \<longleftrightarrow> (\<exists>q. promise_in E W i = Some q
     \<and> sp_record q = (sp_record p)\<lparr>p_state := timeout_state (sp_record p),
         p_settled_at := Some (p_timeout_at (sp_record p))\<rparr>)"

text \<open>
  C8: A deadline is kept: at every moment of every run from an empty store, whatever has failed in
  it, for every promise that is pending and can be awaited, the queue has accepted a timer that is
  due at the promise's deadline.  When the timer worker processes it, the promise is settled to
  its timeout state as of its deadline, or the queue reports an error, which it does only if it is
  not healthy at this moment, and then nothing has changed or the promise is settled all the same.
\<close>

theorem deadline_kept:
  assumes "queue_contract E kv" "accepts E kv jobs" "\<forall>k. prefix ''resonate/'' k \<longrightarrow> kv (w_queue w) k = None"
    and "(remembering E kv jobs opts)\<^sup>*\<^sup>* w w'"
    and "promise_in E (kv (w_queue w')) i = Some p" "is_pending (sp_record p)" "is_external (sp_record p)"
  shows "\<exists>r \<in> jobs (w_queue w'). e_queue r = TIMER_QUEUE \<and> e_run_at r = Some (millis (p_timeout_at (sp_record p)))
    \<and> (\<exists>out w''. process_timer E opts (e_payload r) w' = (out, w'')
         \<and> (out = Inr () \<and> timed_out E i p (kv (w_queue w''))
            \<or> (\<exists>e. out = Inl (Storage e)) \<and> \<not> healthy E (w_queue w')
              \<and> (kv (w_queue w'') = kv (w_queue w') \<or> timed_out E i p (kv (w_queue w'')))))"
proof
  let ?r = "timer_request (PromiseTimeout i) (p_timeout_at (sp_record p))"
  note reach = reachable_provided [OF assms(1-4)]
  show "?r \<in> jobs (w_queue w')" by (rule jobs_of_records(1) [where jobs = jobs, OF reach assms(5-7)])
  have good: "good E (kv (w_queue w'))" using reach(1) by (simp add: serving_def)
  have "responds E kv opts w' (fire E (PromiseTimeout i)) (\<lambda>_. timed_out E i p)"
    by (rule respondsI [OF reach(1) honest_fire fire_spec [OF begun_shared [OF reach(1)] assms(1)]])
      (use assms(5,6) settled_store_settlement [OF good assms(5,6) by_deadline] in
        \<open>auto simp: timer_fired_def expired_record_def settlement_def timed_out_def\<close>)
  moreover have "process_timer E opts (e_payload ?r) w' = locked E opts (fire E (PromiseTimeout i)) w'"
    by (simp add: process_timer_def timer_request_def from_slice_enc codec)
  ultimately show "e_queue ?r = TIMER_QUEUE \<and> e_run_at ?r = Some (millis (p_timeout_at (sp_record p)))
    \<and> (\<exists>out w''. process_timer E opts (e_payload ?r) w' = (out, w'')
         \<and> (out = Inr () \<and> timed_out E i p (kv (w_queue w''))
            \<or> (\<exists>e. out = Inl (Storage e)) \<and> \<not> healthy E (w_queue w')
              \<and> (kv (w_queue w'') = kv (w_queue w') \<or> timed_out E i p (kv (w_queue w'')))))"
    by (auto simp: timer_request_def elim!: responds_outcome)
qed

theorem deadline_kept_witness:
  "\<exists>w' r w'' q. (remembering mem_env mem_store mem_jobs default_options)\<^sup>*\<^sup>* (from_queue mem_empty) w'
     \<and> r \<in> mem_jobs (w_queue w') \<and> e_run_at r = Some 500
     \<and> process_timer mem_env default_options (e_payload r) w' = (Inr (), w'')
     \<and> promise_in mem_env (mem_store (w_queue w'')) ''hello'' = Some q \<and> p_settled_at (sp_record q) = Some 500"
proof -
  obtain w' p where steps: "(remembering mem_env mem_store mem_jobs default_options)\<^sup>*\<^sup>* (from_queue mem_empty) w'"
    and p: "promise_in mem_env (mem_store (w_queue w')) ''hello'' = Some p"
      "is_pending (sp_record p)" "is_external (sp_record p)" "p_timeout_at (sp_record p) = 500"
    by (rule hello_remembered)
  have healthy: "healthy mem_env (w_queue w')" by (rule reliable_healthy [OF mem_reliable])
  have "millis 500 = 500" by (simp add: millis_def)
  with deadline_kept [OF mem_contract mem_accepts empty_store steps p(1-3)] p(4) steps healthy
  show ?thesis unfolding timed_out_def by fastforce
qed

text \<open>
  C9: No pending task is forgotten: at every moment of every run from an empty store, whatever has
  failed in it, the queue has accepted, under the job id of every pending task whose promise is
  not past its deadline and on the queue of its target's address, a job whose claim, when a
  delivery loop delivers it at this moment, is passed to every subscriber as an execute message
  with the task's version; or the queue reports an error, which it does only if it is not healthy
  at this moment, and the delivery fails.  Either way no record changes.
\<close>

theorem pending_task_offered:
  assumes "queue_contract E kv" "accepts E kv jobs" "\<forall>k. prefix ''resonate/'' k \<longrightarrow> kv (w_queue w) k = None"
    and "(remembering E kv jobs opts)\<^sup>*\<^sup>* w w'"
    and "task_in E (kv (w_queue w')) i = Some k" "t_state k = TPending"
    and "promise_in E (kv (w_queue w')) i = Some p" "\<not> expired (shared_now E w') (sp_record p)"
  shows "\<exists>r \<in> jobs (w_queue w'). e_queue r = address_queue E (t_target k) \<and> e_id r = t_job k
    \<and> (\<forall>c subs. c_payload c = e_payload r \<longrightarrow> (\<exists>out w''.
         deliver_claim E opts subs c w' = (out, w'') \<and> unchanged E (kv (w_queue w')) (kv (w_queue w''))
         \<and> (out = Inr (map (\<lambda>s. (s, x_json_text E (execute_message i (t_version k)))) subs)
            \<or> (\<exists>e. out = Inl (Storage e)) \<and> \<not> healthy E (w_queue w'))))"
proof -
  note reach = reachable_provided [OF assms(1-4)]
  obtain job at where r: "t_job k = Some job" "execute_request E k job at \<in> jobs (w_queue w')"
    using jobs_of_records(2) [where jobs = jobs, OF reach assms(5)] assms(6) by auto
  have i: "t_id k = i"
    using task_in_id [OF _ assms(5)] reach(1) by (simp add: serving_def)
  have "\<exists>out w''. deliver_claim E opts subs c w' = (out, w'') \<and> unchanged E (kv (w_queue w')) (kv (w_queue w''))
      \<and> (out = Inr (map (\<lambda>s. (s, x_json_text E (execute_message i (t_version k)))) subs)
         \<or> (\<exists>e. out = Inl (Storage e)) \<and> \<not> healthy E (w_queue w'))"
    if payload: "c_payload c = e_payload (execute_request E k job at)" for c subs
  proof -
    have d: "from_slice E ''Delivery'' dec_delivery (c_payload c) = Inr (Execute i)"
      using payload i by (simp add: execute_request_def from_slice_enc codec)
    have "responds E kv opts w' (deliver E c) (\<lambda>message W.
        message = Some (execute_message i (t_version k)) \<and> unchanged E (kv (w_queue w')) W)"
      by (rule responds_live [OF reach(1) honest_deliver deliver_execute_spec [OF begun_shared [OF reach(1)] assms(1) d]])
        (use assms(5-8) in \<open>auto simp: delivered_def unchanged_def\<close>)
    then show ?thesis
      by (cases rule: responds_outcome) (auto simp: deliver_claim_def unchanged_def)
  qed
  then show ?thesis using r by (intro bexI [OF _ r(2)]) (simp add: execute_request_def)
qed

theorem pending_task_offered_witness:
  "\<exists>w' r w'' messages. (remembering mem_env mem_store mem_jobs default_options)\<^sup>*\<^sup>* (from_queue mem_empty) w'
     \<and> r \<in> mem_jobs (w_queue w')
     \<and> deliver_claim mem_env default_options [7] \<lparr>c_queue = e_queue r, c_id = ''c'', c_payload = e_payload r, c_rest = 0\<rparr> w'
         = (Inr [(7, mem_text (execute_message ''hello'' 0))], w'')"
proof -
  obtain w' p k where steps: "(remembering mem_env mem_store mem_jobs default_options)\<^sup>*\<^sup>* (from_queue mem_empty) w'"
    and p: "promise_in mem_env (mem_store (w_queue w')) ''hello'' = Some p"
      "\<not> expired (shared_now mem_env w') (sp_record p)"
    and k: "task_in mem_env (mem_store (w_queue w')) ''hello'' = Some k" "t_state k = TPending" "t_version k = 0"
    by (rule hello_remembered)
  obtain r where r: "r \<in> mem_jobs (w_queue w')"
    "\<forall>c subs. c_payload c = e_payload r \<longrightarrow> (\<exists>w''.
       deliver_claim mem_env default_options subs c w' =
         (Inr (map (\<lambda>s. (s, x_json_text mem_env (execute_message ''hello'' (t_version k)))) subs), w''))"
    using pending_task_offered [OF mem_contract mem_accepts empty_store steps k(1,2) p]
      reliable_healthy [OF mem_reliable, of "w_queue w'"] by blast
  let ?c = "\<lparr>c_queue = e_queue r, c_id = ''c'', c_payload = e_payload r, c_rest = 0\<rparr>"
  from r(2) [rule_format, of ?c "[7]"] k(3) obtain w'' where
    "deliver_claim mem_env default_options [7] ?c w' = (Inr [(7, mem_text (execute_message ''hello'' 0))], w'')"
    by auto
  with steps r(1) show ?thesis by blast
qed

end
