(* ===== verification/Listener_Properties.thy ===== *)
theory Listener_Properties
  imports Job_Properties
begin

text \<open>
  The listeners of a promise: one that is registered is told of the settlement, over every run.
\<close>








end
