(* ===== verification/Ledger_Properties.thy ===== *)
theory Ledger_Properties
  imports Job_Properties
begin

text \<open>
  The books over every run: a task that waits for its delivery, or that a worker has acquired,
  never loses its job.
\<close>

section \<open>No live task loses its job\<close>

text \<open>
  C11: No live task loses its job: from an empty store, whatever requests, timers, deliveries,
  late deliveries, restarts and failures follow, every task that waits for its delivery or is
  acquired has a job that the queue has accepted and that executes this task, that no
  acknowledgement has ended, and that is the job of no other task that is not fulfilled.  So its
  delivery is still to come, or comes again when its worker's lease ends.
\<close>

theorem live_task_keeps_job:
  assumes "keeps_books E kv G" "l_valid G q" "l_jobs G q = {}" "\<forall>k. prefix ''resonate/'' k \<longrightarrow> kv q k = None"
    and "(bookkeeping E kv G opts)\<^sup>*\<^sup>* (from_queue q) w"
    and "task_in E (kv (w_queue w)) i = Some k" "t_state k = TPending \<or> t_state k = TAcquired"
  shows "\<exists>r \<in> l_jobs G (w_queue w). \<exists>j. t_job k = Some j \<and> e_id r = Some j
    \<and> from_slice E ''Delivery'' dec_delivery (e_payload r) = Inr (Execute i)
    \<and> j \<notin> l_ended G (w_queue w)
    \<and> (\<forall>i' k'. task_in E (kv (w_queue w)) i' = Some k' \<and> t_state k' \<noteq> TFulfilled \<and> t_job k' = Some j \<longrightarrow> i' = i)"
proof -
  have "audited E kv G w"
    by (rule auditing.reach_inv [OF assms(5) audited_empty [OF assms(1-4)]])
  then have order: "in_order E (l_jobs G (w_queue w)) (l_ended G (w_queue w)) (kv (w_queue w))"
    and apart: "told_apart E (l_jobs G (w_queue w)) (l_issued G (w_queue w))"
    by (simp_all add: audited_def books_def)
  have job: "t_id k' = i' \<and> (\<exists>j. t_job k' = Some j \<and> job_of E (l_jobs G (w_queue w)) j i'
      \<and> (working k' \<longrightarrow> j \<notin> l_ended G (w_queue w)))"
    if "task_in E (kv (w_queue w)) i' = Some k'" "t_state k' \<noteq> TFulfilled" for i' k'
    using order that unfolding in_order_def employed_def by blast
  obtain j r where j: "t_job k = Some j" "j \<notin> l_ended G (w_queue w)" "r \<in> l_jobs G (w_queue w)" "e_id r = Some j"
    "executes E (e_payload r) i"
    using job [OF assms(6)] assms(7) by (auto simp: working_def job_of_def)
  have "i' = i" if k': "task_in E (kv (w_queue w)) i' = Some k'" "t_state k' \<noteq> TFulfilled" "t_job k' = Some j" for i' k'
    using job [OF k'(1,2)] k'(3) job_of_same [OF apart, of j i' i] j by (auto simp: job_of_def)
  with j show ?thesis unfolding executes_def by blast
qed

theorem live_task_keeps_job_witness:
  "\<exists>w k r j. (bookkeeping mem_env mem_store mem_ledger default_options)\<^sup>*\<^sup>* (from_queue mem_empty) w
     \<and> task_in mem_env (mem_store (w_queue w)) ''hello'' = Some k \<and> t_state k = TPending
     \<and> r \<in> mem_jobs (w_queue w) \<and> t_job k = Some j \<and> e_id r = Some j \<and> j \<notin> mem_ended (w_queue w)"
proof -
  obtain out w k where run: "send_timed mem_env default_options ''create'' (from_queue mem_empty) = (out, w)"
    and k: "task_in mem_env (mem_store (w_queue w)) ''hello'' = Some k" "t_state k = TPending"
    by (rule hello_run)
  have steps: "(bookkeeping mem_env mem_store mem_ledger default_options)\<^sup>*\<^sup>* (from_queue mem_empty) w"
    using served_one [OF run] by (rule r_into_rtranclp)
  have start: "l_valid mem_ledger mem_empty" "l_jobs mem_ledger mem_empty = {}"
    "\<forall>k. prefix ''resonate/'' k \<longrightarrow> mem_store mem_empty k = None"
    by (simp_all add: mem_valid_def mem_jobs_def mem_empty_def mem_store_def)
  from live_task_keeps_job [OF mem_keeps_books start steps k(1)] k(2) obtain r j where
    "r \<in> l_jobs mem_ledger (w_queue w)" "t_job k = Some j" "e_id r = Some j" "j \<notin> l_ended mem_ledger (w_queue w)"
    by blast
  with steps k show ?thesis by auto
qed

end
