(* ===== verification/Heartbeats.thy ===== *)
theory Heartbeats
  imports Task_Properties
begin

text \<open>
  Heartbeats: a process keeps the leases of the tasks it works on, and of no others.
\<close>

text \<open>An entry of a heartbeat that counts: a task the process has acquired at the version, with the
  claim the store holds for it and the lease it asks for.\<close>

definition beats ::
  "('q, 'x) env_scheme \<Rightarrow> ('q \<Rightarrow> store) \<Rightarrow> 'q world \<Rightarrow> task_heartbeat_data \<Rightarrow> string \<Rightarrow> claim \<Rightarrow> nat \<Rightarrow> bool" where
  "beats E kv w d i c l \<longleftrightarrow> (\<exists>e k ttl. e \<in> set (hb_tasks d) \<and> tv_id e = i
     \<and> task_in E (kv (w_queue w)) i = Some k \<and> is_acquired_at k (tv_version e)
     \<and> t_pid k = Some (hb_pid d) \<and> t_ttl k = Some ttl \<and> l = lease_of ttl \<and> w_held w i = Some c)"

definition renewal ::
  "('q, 'x) env_scheme \<Rightarrow> ('q \<Rightarrow> store) \<Rightarrow> 'q world \<Rightarrow> task_heartbeat_data \<Rightarrow> 'q \<Rightarrow> 'q \<Rightarrow> bool" where
  "renewal E kv w d q q' \<longleftrightarrow> (\<exists>i c l. beats E kv w d i c l \<and> q' = snd (q_renew_lease E q c l))"

text \<open>A claim that outlives the heartbeat: its lease is live and is renewed, however many leases the
  heartbeat has renewed before.\<close>

definition outlives ::
  "('q, 'x) env_scheme \<Rightarrow> ('q \<Rightarrow> store) \<Rightarrow> 'q world \<Rightarrow> task_heartbeat_data \<Rightarrow> claim \<Rightarrow> nat \<Rightarrow> bool" where
  "outlives E kv w d c l \<longleftrightarrow> (\<forall>q. (renewal E kv w d)\<^sup>*\<^sup>* (w_queue w) q \<longrightarrow>
     (\<exists>x. q_lease_expiry E q (c_queue c) (c_id c) = Some x \<and> lt64 (shared_now E w) (clamp_i64 x))
     \<and> fst (q_renew_lease E q c l) = Inr ())"

definition renewed ::
  "('q, 'x) env_scheme \<Rightarrow> ('q \<Rightarrow> store) \<Rightarrow> 'q world \<Rightarrow> task_heartbeat_data \<Rightarrow> claim \<Rightarrow> nat \<Rightarrow> 'q \<Rightarrow> bool" where
  "renewed E kv w d c l q' \<longleftrightarrow> (\<exists>q. (renewal E kv w d)\<^sup>*\<^sup>* (w_queue w) q
     \<and> (renewal E kv w d)\<^sup>*\<^sup>* (snd (q_renew_lease E q c l)) q')"

text \<open>What holds between the rounds of the loop.\<close>

definition beating ::
  "('q, 'x) env_scheme \<Rightarrow> ('q \<Rightarrow> store) \<Rightarrow> 'q world \<Rightarrow> task_heartbeat_data \<Rightarrow> 'q txn \<Rightarrow> bool" where
  "beating E kv w d t \<longleftrightarrow> writes t = om_empty \<and> enqueues t = [] \<and> after t = [] \<and> now t = shared_now E w
     \<and> (renewal E kv w d)\<^sup>*\<^sup>* (w_queue w) (queue t)
     \<and> (\<forall>i. held t i = w_held w i \<or> held t i = None \<and> i \<in> tv_id ` set (hb_tasks d))
     \<and> (\<forall>i c l. beats E kv w d i c l \<longrightarrow> outlives E kv w d c l \<longrightarrow> held t i = Some c)"

lemma renewal_kv:
  assumes c: "queue_contract E kv" and steps: "(renewal E kv w d)\<^sup>*\<^sup>* q q'"
  shows "kv q' = kv q"
  using steps
proof induction
  case (step q1 q2)
  then obtain cl l where "q2 = snd (q_renew_lease E q1 cl l)" by (auto simp: renewal_def)
  then have "kv q2 = kv q1" by (metis contract_claims(2) [OF c] prod.collapse)
  with step show ?case by simp
qed simp

lemma beating_held: "beating E kv w d t \<Longrightarrow> held t i = Some c \<Longrightarrow> w_held w i = Some c"
  unfolding beating_def by (metis option.distinct(1))

lemma renewed_later: "renewed E kv w d c l q \<Longrightarrow> (renewal E kv w d)\<^sup>*\<^sup>* q q' \<Longrightarrow> renewed E kv w d c l q'"
  unfolding renewed_def by (meson rtranclp_trans)

text \<open>One round: a claim that counts is renewed, and nothing else happens.\<close>

lemma renew_beating:
  assumes t: "beating E kv w d t" and b: "\<And>c. w_held w i = Some c \<Longrightarrow> beats E kv w d i c l"
    and i: "i \<in> tv_id ` set (hb_tasks d)"
  shows "wp (renew E i l) (\<lambda>r t'. beating E kv w d t' \<and> (renewal E kv w d)\<^sup>*\<^sup>* (queue t) (queue t')
    \<and> (\<forall>c. beats E kv w d i c l \<longrightarrow> outlives E kv w d c l \<longrightarrow> renewed E kv w d c l (queue t'))
    \<and> \<not> isl r) t"
proof (cases "held t i")
  case None
  then have "\<not> outlives E kv w d c l" if "beats E kv w d i c l" for c
    using t that by (force simp: beating_def)
  with None t show ?thesis
    by (simp add: wp_def renew_def holds_def run_bnd run_ret)
next
  case (Some c)
  then have c: "w_held w i = Some c" using beating_held [OF t] by blast
  have only: "c' = c" if "beats E kv w d i c' l" for c' l
    using that c by (auto simp: beats_def)
  show ?thesis
  proof (cases "live E t c")
    case False
    have "\<not> outlives E kv w d c l'" for l'
      using False t by (auto simp: outlives_def live_def beating_def split: option.splits)
    then show ?thesis
      using False Some t i only
      by (auto simp: wp_def renew_def holds_def run_bnd run_ret drop_claim_def beating_def)
  next
    case True
    obtain r q' where q': "q_renew_lease E (queue t) c l = (r, q')" by (metis surj_pair)
    have step: "renewal E kv w d (queue t) q'"
      using b [OF c] q' unfolding renewal_def by (metis snd_conv)
    have reach: "(renewal E kv w d)\<^sup>*\<^sup>* (w_queue w) q'"
      using t step by (auto simp: beating_def intro: rtranclp.rtrancl_into_rtrancl)
    have again: "renewed E kv w d c l q'"
      using t q' unfolding renewed_def beating_def by (metis rtranclp.rtrancl_refl snd_conv)
    show ?thesis
    proof (cases r)
      case (Inr u)
      have "renew E i l t = (Inr True, t\<lparr>queue := q'\<rparr>)"
        using Some True q' Inr by (simp add: renew_def holds_def run_bnd)
      then show ?thesis
        using t reach step again only by (auto simp: wp_def beating_def)
    next
      case (Inl e)
      have "renew E i l t = (Inr False, drop_claim i (t\<lparr>queue := q'\<rparr>))"
        using Some True q' Inl by (simp add: renew_def holds_def run_bnd)
      moreover have no: "\<not> outlives E kv w d c' l'" if "beats E kv w d i c' l'" for c' l'
      proof -
        have "c' = c" "l' = l" using that b [OF c] by (auto simp: beats_def)
        then show ?thesis using t q' Inl unfolding outlives_def beating_def by (metis fst_conv Inl_Inr_False)
      qed
      moreover have "beating E kv w d (drop_claim i (t\<lparr>queue := q'\<rparr>))"
        using t reach i no by (simp add: beating_def drop_claim_def)
      ultimately show ?thesis
        using step by (auto simp: wp_def drop_claim_def)
    qed
  qed
qed

text \<open>What the rounds so far have done for the claims that count.\<close>

definition kept_alive ::
  "('q, 'x) env_scheme \<Rightarrow> ('q \<Rightarrow> store) \<Rightarrow> 'q world \<Rightarrow> task_heartbeat_data \<Rightarrow> task_version_data list \<Rightarrow> 'q \<Rightarrow> bool" where
  "kept_alive E kv w d es q \<longleftrightarrow> (\<forall>e k c ttl. e \<in> set es \<longrightarrow> task_in E (kv (w_queue w)) (tv_id e) = Some k \<longrightarrow>
     is_acquired_at k (tv_version e) \<longrightarrow> t_pid k = Some (hb_pid d) \<longrightarrow> t_ttl k = Some ttl \<longrightarrow>
     w_held w (tv_id e) = Some c \<longrightarrow> outlives E kv w d c (lease_of ttl) \<longrightarrow> renewed E kv w d c (lease_of ttl) q)"

lemma heartbeat_one_beating:
  assumes c: "queue_contract E kv" and g: "good E (kv (w_queue w))" and t: "beating E kv w d t" and e: "e \<in> set (hb_tasks d)"
  shows "wp (heartbeat_one E (hb_pid d) e) (\<lambda>r t'. beating E kv w d t'
    \<and> (renewal E kv w d)\<^sup>*\<^sup>* (queue t) (queue t')
    \<and> (case r of Inl x \<Rightarrow> \<exists>y. x = Storage y | Inr _ \<Rightarrow> kept_alive E kv w d [e] (queue t'))) t"
proof -
  have V: "view kv t = kv (w_queue w)"
    using t renewal_kv [OF c, of w d "w_queue w" "queue t"] by (simp add: beating_def view_def fun_eq_iff)
  have "wp (bnd (renew E (t_id k) (lease_of ttl)) (\<lambda>_. ret ())) (\<lambda>r t'. beating E kv w d t'
    \<and> (renewal E kv w d)\<^sup>*\<^sup>* (queue t) (queue t')
    \<and> (case r of Inl x \<Rightarrow> \<exists>y. x = Storage y | Inr _ \<Rightarrow> kept_alive E kv w d [e] (queue t'))) t"
    if k: "task_in E (kv (w_queue w)) (tv_id e) = Some k" "is_acquired_at k (tv_version e)"
      "t_pid k = Some (hb_pid d)" "t_ttl k = Some ttl" for k ttl
  proof -
    have i: "t_id k = tv_id e" using task_in_id [OF g k(1)] .
    have b: "beats E kv w d (tv_id e) c (lease_of ttl)" if "w_held w (tv_id e) = Some c" for c
      unfolding beats_def
      by (intro exI [where x = e] exI [where x = k] exI [where x = ttl]) (use e k that in simp)
    have "kept_alive E kv w d [e] q"
      if "\<forall>c. beats E kv w d (tv_id e) c (lease_of ttl) \<longrightarrow> outlives E kv w d c (lease_of ttl)
        \<longrightarrow> renewed E kv w d c (lease_of ttl) q" for q
      using that b k by (auto simp: kept_alive_def)
    then show ?thesis
      unfolding i
      by (intro wp_bnd wp_mono [OF renew_beating [OF t b]]) (use e in \<open>auto split: sum.split\<close>)
  qed
  moreover have "beating E kv w d t \<and> (renewal E kv w d)\<^sup>*\<^sup>* (queue t) (queue t)
      \<and> kept_alive E kv w d [e] (queue t)"
    if "\<not> (\<exists>k ttl. task_in E (kv (w_queue w)) (tv_id e) = Some k \<and> is_acquired_at k (tv_version e)
      \<and> t_pid k = Some (hb_pid d) \<and> t_ttl k = Some ttl)"
    using t that by (auto simp: kept_alive_def)
  ultimately show ?thesis
    unfolding heartbeat_one_def
    by (intro wp_bnd wp_get_task [OF c] wp_case_option wp_if)
      (use t goodD(1) [OF g] in \<open>auto simp: V split: option.splits\<close>)
qed

lemma heartbeats_beating:
  assumes c: "queue_contract E kv" and g: "good E (kv (w_queue w))"
  shows "beating E kv w d t \<Longrightarrow> set es \<subseteq> set (hb_tasks d) \<Longrightarrow>
    wp (for_each (heartbeat_one E (hb_pid d)) es) (\<lambda>r t'. beating E kv w d t'
      \<and> (renewal E kv w d)\<^sup>*\<^sup>* (queue t) (queue t')
      \<and> (case r of Inl x \<Rightarrow> \<exists>y. x = Storage y | Inr _ \<Rightarrow> kept_alive E kv w d es (queue t'))) t"
proof (induction es arbitrary: t)
  case Nil
  then show ?case by (simp add: kept_alive_def)
next
  case (Cons e es)
  have later: "kept_alive E kv w d (e # es) q'"
    if "kept_alive E kv w d [e] q" "(renewal E kv w d)\<^sup>*\<^sup>* q q'" "kept_alive E kv w d es q'" for q q'
    using that renewed_later [OF _ that(2)] by (auto simp: kept_alive_def)
  show ?case
    unfolding for_each.simps
  proof (rule wp_andthenI [OF heartbeat_one_beating [OF c g Cons.prems(1)]])
    show "e \<in> set (hb_tasks d)" using Cons.prems(2) by simp
  next
    fix x t'
    assume "beating E kv w d t' \<and> (renewal E kv w d)\<^sup>*\<^sup>* (queue t) (queue t')
      \<and> (case Inr x of Inl x \<Rightarrow> \<exists>y. x = Storage y | Inr _ \<Rightarrow> kept_alive E kv w d [e] (queue t'))"
    then have t': "beating E kv w d t'" "(renewal E kv w d)\<^sup>*\<^sup>* (queue t) (queue t')" "kept_alive E kv w d [e] (queue t')"
      by simp_all
    show "wp (for_each (heartbeat_one E (hb_pid d)) es) (\<lambda>r t'. beating E kv w d t'
      \<and> (renewal E kv w d)\<^sup>*\<^sup>* (queue t) (queue t')
      \<and> (case r of Inl x \<Rightarrow> \<exists>y. x = Storage y | Inr _ \<Rightarrow> kept_alive E kv w d (e # es) (queue t'))) t'"
      by (rule wp_mono [OF Cons.IH [OF t'(1)]])
        (use Cons.prems(2) t'(2,3) later in \<open>auto split: sum.splits intro: rtranclp_trans\<close>)
  qed auto
qed

text \<open>A commit of a transaction that has buffered nothing does nothing.\<close>

lemma commit_nothing:
  assumes "writes t = om_empty" "enqueues t = []" "after t = []"
  shows "commit E t = (Inr (), t)"
proof -
  have "t\<lparr>writes := om_empty, enqueues := [], after := []\<rparr> = t"
    using assms by simp
  then show ?thesis
    using assms by (simp add: commit_def take_effects_def effects_of_def run_bnd run_andthen run_ret finish_def
        List.map_filter_simps om_of_list_def)
qed

text \<open>
  C26: A heartbeat renews the leases of a process and no others: of all the queue it touches only
  the leases of the claims held for tasks of the request that are acquired, by the process, at
  the version it names; every such claim whose lease is live is renewed and still held; a claim
  is given up only for a task of the request, when its lease has ended or cannot be renewed; and
  no record changes.
\<close>

theorem heartbeat_renews_own:
  assumes "serving E kv w" "locked E opts (task_heartbeat E d) w = (r, w')"
  shows "(renewal E kv w d)\<^sup>*\<^sup>* (w_queue w) (w_queue w') \<and> kv (w_queue w') = kv (w_queue w)
    \<and> (\<forall>i. w_held w' i = w_held w i \<or> w_held w' i = None \<and> i \<in> tv_id ` set (hb_tasks d))
    \<and> (\<forall>i c l. beats E kv w d i c l \<and> outlives E kv w d c l \<longrightarrow>
         w_held w' i = Some c \<and> (r = Inr empty_reply \<longrightarrow> renewed E kv w d c l (w_queue w')))
    \<and> (r = Inr empty_reply \<or> \<not> reliable E \<and> (\<exists>x. r = Inl (Storage x)))"
proof -
  have c: "queue_contract E kv" and g: "good E (kv (w_queue w))" using assms(1) by (simp_all add: serving_def)
  let ?t = "shared_txn E opts w"
  have start: "beating E kv w d ?t"
    by (auto simp: beating_def shared_txn_def new_txn_def beats_def)
  have alive: "renewed E kv w d c l q"
    if "kept_alive E kv w d (hb_tasks d) q" "beats E kv w d i c l" "outlives E kv w d c l" for i c l q
    using that unfolding kept_alive_def beats_def by blast
  obtain t where t: "task_heartbeat E d ?t = (r, t)" "w' = \<lparr>w_queue = queue t, w_held = held t\<rparr>"
    using assms(2) by (auto simp: locked_def split: prod.splits)
  have "wp (task_heartbeat E d) (\<lambda>r t'. beating E kv w d t' \<and>
      (case r of Inl x \<Rightarrow> \<exists>y. x = Storage y | Inr reply \<Rightarrow> reply = empty_reply \<and> kept_alive E kv w d (hb_tasks d) (queue t'))) ?t"
    unfolding task_heartbeat_def finished_def
    by (rule wp_andthenI [OF heartbeats_beating [OF c g start]])
      (auto simp: wp_def run_andthen run_ret commit_nothing beating_def)
  then have end_state: "beating E kv w d t"
      "case r of Inl x \<Rightarrow> \<exists>y. x = Storage y | Inr reply \<Rightarrow> reply = empty_reply \<and> kept_alive E kv w d (hb_tasks d) (queue t)"
    using t(1) by (auto simp: wp_def)
  have "\<not> reliable E" if "r = Inl (Storage x)" for x
    using honestD(1) [OF honest_task_requests(6), of E "shared_txn E opts w" d r t x] t(1) that reliable_healthy
    by (metis (no_types))
  then show ?thesis
    using end_state t(2) alive renewal_kv [OF c, of w d "w_queue w" "queue t"]
    by (auto simp: beating_def split: sum.splits)
qed

definition demo_heartbeat :: task_heartbeat_data where
  "demo_heartbeat = \<lparr>hb_pid = ''p1'', hb_tasks = [\<lparr>tv_id = ''work'', tv_version = 1\<rparr>, \<lparr>tv_id = ''idle'', tv_version = 0\<rparr>]\<rparr>"

lemma demo_beats:
  "beats mem_env mem_store demo demo_heartbeat i c l \<longleftrightarrow>
     i = ''work'' \<and> c = mem_claim ''job1'' (demo_job ''work'') \<and> l = 100"
proof -
  have work: "is_acquired_at work_task 1" "t_pid work_task = Some ''p1''" "t_ttl work_task = Some 100"
    by (simp_all add: work_task_def demo_task_def is_acquired_at_def)
  have idle: "\<not> is_acquired_at idle_task v" for v
    by (simp add: idle_task_def demo_task_def is_acquired_at_def)
  have lease: "lease_of 100 = 100" by (simp add: lease_of_def millis_def)
  show ?thesis
  proof
    assume "beats mem_env mem_store demo demo_heartbeat i c l"
    then obtain e k ttl where "e \<in> set (hb_tasks demo_heartbeat)" "tv_id e = i"
        "task_in mem_env (mem_store (w_queue demo)) i = Some k" "is_acquired_at k (tv_version e)"
        "t_ttl k = Some ttl" "l = lease_of ttl" "w_held demo i = Some c"
      unfolding beats_def by blast
    then show "i = ''work'' \<and> c = mem_claim ''job1'' (demo_job ''work'') \<and> l = 100"
      using work idle lease by (auto simp: demo_heartbeat_def)
  next
    assume "i = ''work'' \<and> c = mem_claim ''job1'' (demo_job ''work'') \<and> l = 100"
    then show "beats mem_env mem_store demo demo_heartbeat i c l"
      unfolding beats_def
      by (intro exI [where x = "\<lparr>tv_id = ''work'', tv_version = 1\<rparr>"] exI [where x = work_task] exI [where x = 100])
        (use work lease in \<open>simp add: demo_heartbeat_def\<close>)
  qed
qed

lemma demo_renewals:
  "(renewal mem_env mem_store demo demo_heartbeat)\<^sup>*\<^sup>* (w_queue demo) m \<Longrightarrow>
   om_get (m_jobs m) ''job1'' = Some (demo_job ''work'') \<and> m_clock m = 0"
proof (induction rule: rtranclp_induct)
  case base
  show ?case by (simp add: demo_def demo_queue_def)
next
  case (step m m')
  then show ?case
    by (auto simp: renewal_def demo_beats mem_renew_def mem_settle_def mem_leased_def mem_set_lease_def mem_claim_def
        demo_job_def)
qed

lemma demo_outlives: "outlives mem_env mem_store demo demo_heartbeat (mem_claim ''job1'' (demo_job ''work'')) 100"
proof -
  have "sint (clamp_i64 100) = 100" by (simp add: sint_clamp i64_max_def)
  moreover have "sint (shared_now mem_env demo) = 0"
    by (simp add: shared_now_def demo_def demo_queue_def sint_clamp i64_max_def)
  ultimately show ?thesis
    by (auto simp: outlives_def mem_expiry_def mem_claim_def mem_renew_def mem_settle_def mem_leased_def
        demo_job_def dest!: demo_renewals)
qed

theorem heartbeat_renews_own_witness:
  "\<exists>w'. locked mem_env default_options (task_heartbeat mem_env demo_heartbeat) demo = (Inr empty_reply, w')
     \<and> w_held w' ''work'' = Some (mem_claim ''job1'' (demo_job ''work''))
     \<and> renewed mem_env mem_store demo demo_heartbeat (mem_claim ''job1'' (demo_job ''work'')) 100 (w_queue w')"
proof -
  obtain r w' where run: "locked mem_env default_options (task_heartbeat mem_env demo_heartbeat) demo = (r, w')"
    by (metis surj_pair)
  note h = heartbeat_renews_own [OF demo_serving run]
  have "r = Inr empty_reply" using h mem_reliable by blast
  with run h demo_beats demo_outlives show ?thesis by blast
qed

end
