(* ===== verification/Schedule_Properties.thy ===== *)
theory Schedule_Properties
  imports Examples
begin

text \<open>
  The schedule requests: what a creation stores, that it never replaces a schedule, and that a
  deletion takes out one schedule only.  What the timer of a schedule does is in
  \<open>Worker_Properties\<close>.
\<close>

text \<open>
  C32: A schedule lives from its creation to its deletion.  A creation under a fresh id stores the
  schedule as the request describes it, created now, not yet run and waiting for the first run of
  its cron expression after now; an id that is taken is answered with the schedule stored under it,
  whatever the request says, and a cron expression without a run is refused, both without a change.
  A deletion removes the schedule of the id and is refused where there is none.  Neither touches
  another schedule, a promise or a task.
\<close>

theorem schedule_lives_until_deleted:
  assumes "serving E kv w" "sd_id d \<noteq> []" "CHR '':'' \<notin> set (sd_id d)"
    and "om_get (sd_promise_tags d) TAG_TARGET = Some tgt" "x_url_parses E tgt"
    and "\<not> lt64 (sd_promise_timeout d) 0"
  shows "responds E kv opts w (schedule_create E d) (\<lambda>reply W.
      case schedule_in E (kv (w_queue w)) (sd_id d) of
        Some s \<Rightarrow> reply = schedule_reply s \<and> W = kv (w_queue w)
      | None \<Rightarrow> (case next_after E (sd_cron d) (shared_now E w) of
          None \<Rightarrow> status reply = 400 \<and> W = kv (w_queue w)
        | Some nxt \<Rightarrow> \<exists>s. reply = schedule_reply s \<and> s_id s = sd_id d \<and> s_cron s = sd_cron d
            \<and> s_promise_id s = sd_promise_id d \<and> s_promise_timeout s = sd_promise_timeout d
            \<and> s_promise_param s = sd_promise_param d \<and> s_promise_tags s = sd_promise_tags d
            \<and> s_created_at s = shared_now E w \<and> s_next_run_at s = nxt \<and> s_last_run_at s = None
            \<and> schedule_in E W = (schedule_in E (kv (w_queue w)))(sd_id d \<mapsto> s)
            \<and> promise_in E W = promise_in E (kv (w_queue w))
            \<and> task_in E W = task_in E (kv (w_queue w))))
    \<and> responds E kv opts w (schedule_delete E (sd_id d)) (\<lambda>reply W.
      if schedule_in E (kv (w_queue w)) (sd_id d) = None
      then status reply = 404 \<and> W = kv (w_queue w)
      else status reply = 200
        \<and> schedule_in E W = (schedule_in E (kv (w_queue w)))(sd_id d := None)
        \<and> promise_in E W = promise_in E (kv (w_queue w))
        \<and> task_in E W = task_in E (kv (w_queue w)))"
    (is "?created \<and> ?deleted")
proof
  note begun = begun_shared [OF assms(1)] serving_contract [OF assms(1)]
  have url: "is_url E tgt" using assms(5) by (simp add: is_url_def)
  show ?created
    by (rule respondsI [OF assms(1) honest_schedule_requests(1)
          schedule_create_spec [OF begun assms(2-4) url assms(6)]])
      (auto simp: schedule_created_def created_schedule_def only_schedules_def err_def
        split: option.splits)
  show ?deleted
    by (rule respondsI [OF assms(1) honest_schedule_requests(3) schedule_delete_spec [OF begun]])
      (auto simp: only_schedules_def err_def empty_reply_def ok_def split: option.splits)
qed

definition minutely_create :: schedule_create_data where
  "minutely_create = \<lparr>sd_id = ''minutely'', sd_cron = ''* * * * *'', sd_promise_id = ''run.{{.timestamp}}'',
     sd_promise_timeout = 1000, sd_promise_param = default_value, sd_promise_tags = targeted_tags\<rparr>"

theorem schedule_lives_until_deleted_witness:
  "(\<exists>reply w' s. locked mem_env default_options (schedule_create mem_env minutely_create) demo = (Inr reply, w')
      \<and> schedule_in mem_env (mem_store (w_queue w')) ''minutely'' = Some s
      \<and> s_next_run_at s = 60000 \<and> reply = schedule_reply s)
   \<and> (\<exists>reply w'. locked mem_env default_options (schedule_delete mem_env ''minutely'') demo = (Inr reply, w')
      \<and> status reply = 404 \<and> mem_store (w_queue w') = mem_store (w_queue demo))"
proof -
  have d: "sd_id minutely_create = ''minutely''" "sd_cron minutely_create = ''* * * * *''"
    "\<not> lt64 (sd_promise_timeout minutely_create) 0"
    "om_get (sd_promise_tags minutely_create) TAG_TARGET = Some demo_target"
    by (simp_all add: minutely_create_def targeted_tags_def)
  have run: "next_after mem_env ''* * * * *'' 0 = Some 60000"
    by (simp add: next_after_def mem_cron_def mem_any_time_def mem_cron_next_def)
  have none: "schedule_in mem_env (mem_store (w_queue demo)) ''minutely'' = None"
    by (simp add: demo_store)
  have "mem_url demo_target" by (simp add: mem_url_def demo_target_def starts_with_def)
  then have both: "responds mem_env mem_store default_options demo (schedule_create mem_env minutely_create)
      (\<lambda>reply W. \<exists>s. reply = schedule_reply s \<and> s_next_run_at s = 60000
        \<and> schedule_in mem_env W ''minutely'' = Some s)"
    "responds mem_env mem_store default_options demo (schedule_delete mem_env ''minutely'')
      (\<lambda>reply W. status reply = 404 \<and> W = mem_store (w_queue demo))"
    using schedule_lives_until_deleted [where d = minutely_create and tgt = demo_target
        and opts = default_options, OF demo_serving] d run none
    by (auto elim!: responds_mono)
  from demo_responds [OF both(1)] demo_responds [OF both(2)] show ?thesis by blast
qed

end
