(* ===== verification/Lifecycle.thy ===== *)
theory Lifecycle
  imports World
begin

text \<open>
  The life of a store and of its delivery loops: opening and closing a store (\<open>src/store.rs\<close>),
  and the loop of \<open>DeliveryLoop::run\<close> (\<open>src/network.rs\<close>) from its start until it ends.
\<close>

section \<open>Opening and closing a store\<close>

text \<open>
  A store on a queue: the shared state, the options, and whether its timer worker runs.  The
  opening and the closing of a queue are taquba's, and are arguments here.
\<close>

record 'q taquba_store =
  ts_world :: "'q world"
  ts_options :: store_options
  ts_timers :: bool

definition store_from_queue :: "'q \<Rightarrow> store_options \<Rightarrow> 'q taquba_store" where
  "store_from_queue q options = \<lparr>ts_world = from_queue q, ts_options = options, ts_timers = True\<rparr>"

definition open_with_options ::
  "(string \<Rightarrow> open_options \<Rightarrow> queue_error + 'q) \<Rightarrow> string \<Rightarrow> open_options \<Rightarrow> store_options \<Rightarrow>
   error + 'q taquba_store" where
  "open_with_options queue_open path queue_opts options =
     (case storage (queue_open path queue_opts) of
        Inl e \<Rightarrow> Inl e
      | Inr q \<Rightarrow> Inr (store_from_queue q options))"

definition open_store ::
  "(string \<Rightarrow> open_options \<Rightarrow> queue_error + 'q) \<Rightarrow> queue_config \<Rightarrow> string \<Rightarrow> error + 'q taquba_store" where
  "open_store queue_open preset path =
     open_with_options queue_open path (queue_options preset) default_options"

definition store_queue :: "'q taquba_store \<Rightarrow> 'q" where
  "store_queue s = w_queue (ts_world s)"

definition store_network :: "'q taquba_store \<Rightarrow> network_builder" where
  "store_network s = new_builder"

text \<open>
  The references to the shared state beside the store's own, once its timer worker has ended:
  those of its networks and of their delivery loops.
\<close>

definition shared_holders :: "network list \<Rightarrow> nat" where
  "shared_holders networks = sum_list (map (\<lambda>n. 1 + length (n_workers n)) networks)"

text \<open>
  The result of closing a store, and whether the queue has been closed.  The queue stays open
  while a network of the store is alive, or while the application holds the queue too.
\<close>

definition close_store ::
  "('q \<Rightarrow> queue_error + unit) \<Rightarrow> network list \<Rightarrow> nat \<Rightarrow> 'q taquba_store \<Rightarrow> (error + unit) \<times> bool" where
  "close_store queue_close networks queue_holders s =
     (if shared_holders networks = 0 then
        (if queue_holders = 0 then (storage (queue_close (store_queue s)), True)
         else (Inr (), False))
      else (Inr (), False))"

lemma shared_holders_0 [simp]: "shared_holders networks = 0 \<longleftrightarrow> networks = []"
  by (cases networks) (simp_all add: shared_holders_def)

lemma close_store_closes:
  "snd (close_store queue_close networks holders s) \<longleftrightarrow> networks = [] \<and> holders = 0"
  by (simp add: close_store_def)

text \<open>A stopped network still keeps the queue open.\<close>

lemma close_store_stopped: "close_store queue_close (map stop networks) holders s = (Inr (), False)" if "networks \<noteq> []"
  using that by (simp add: close_store_def)

text \<open>A store that opens on a queue with good records serves them, and holds no claim.\<close>

lemma open_serving:
  assumes "queue_contract E kv" "open_store queue_open preset path = Inr s" "good E (kv (store_queue s))"
  shows "serving E kv (ts_world s)" "w_held (ts_world s) i = None" "ts_timers s"
  using assms
  by (auto simp: open_store_def open_with_options_def store_from_queue_def from_queue_def serving_def
      store_queue_def split: sum.splits)

section \<open>A delivery loop\<close>

text \<open>
  \<open>run\<close> of a delivery loop against a list of rounds: whether the loop has been told to stop before
  the round, and what the rest of the system does to the store before it.  The result tells
  whether the loop still runs, what it has passed to the subscribers, and the store.
\<close>

fun run_loop ::
  "('q, 'x) env_scheme \<Rightarrow> store_options \<Rightarrow> delivery_loop \<Rightarrow> nat list \<Rightarrow> (bool \<times> ('q world \<Rightarrow> 'q world)) list \<Rightarrow>
   'q world \<Rightarrow> bool \<times> (nat \<times> string) list \<times> 'q world" where
  "run_loop E opts l subscribers [] w = (True, [], w)"
| "run_loop E opts l subscribers ((stopped, others) # rounds) w =
     (if stopped then (False, [], others w)
      else (case delivery_round E opts l subscribers (others w) of
        (False, messages, w') \<Rightarrow> (False, messages, w')
      | (True, messages, w') \<Rightarrow>
          (case run_loop E opts l subscribers rounds w' of
             (running, rest, w'') \<Rightarrow> (running, messages @ rest, w''))))"

text \<open>Only a failed claim ends a round; a delivery that fails does not.\<close>

lemma round_goes_on:
  "fst (delivery_round E opts l subs w) \<longleftrightarrow> (\<forall>e. fst (q_claim E (w_queue w) (dl_queue l) (retry_timeout opts)) \<noteq> Inl e)"
  by (auto simp: delivery_round_def split: prod.split sum.split option.split)

lemma run_loop_running:
  assumes "\<And>q n lease e. fst (q_claim E q n lease) \<noteq> Inl e"
  shows "fst (run_loop E opts l subs rounds w) \<longleftrightarrow> (\<forall>r \<in> set rounds. \<not> fst r)"
proof (induction rounds arbitrary: w)
  case (Cons r rounds)
  obtain stopped others where r: "r = (stopped, others)" by (cases r)
  obtain go messages w' where d: "delivery_round E opts l subs (others w) = (go, messages, w')"
    by (cases "delivery_round E opts l subs (others w)") auto
  with assms round_goes_on [of E opts l subs "others w"] have "go" by simp
  with r d Cons.IH [of w'] show ?case by (auto split: prod.splits)
qed simp

text \<open>The run of a loop is a run of the system, when what the rest of the system does is.\<close>

lemma run_loop_steps:
  assumes "\<And>r w. r \<in> set rounds \<Longrightarrow> (store_step E kv opts)\<^sup>*\<^sup>* w (snd r w)"
    and "run_loop E opts l subs rounds w = (running, messages, w')"
  shows "(store_step E kv opts)\<^sup>*\<^sup>* w w'"
  using assms
proof (induction rounds arbitrary: w running messages)
  case (Cons r rounds)
  obtain stopped others where r: "r = (stopped, others)" by (cases r)
  obtain go out w1 where d: "delivery_round E opts l subs (others w) = (go, out, w1)"
    by (cases "delivery_round E opts l subs (others w)") auto
  have first: "(store_step E kv opts)\<^sup>*\<^sup>* w (others w)"
    using Cons.prems(1) [of r w] r by simp
  from first delivery [OF d] have through: "(store_step E kv opts)\<^sup>*\<^sup>* w w1"
    by (rule rtranclp.rtrancl_into_rtrancl)
  consider "w' = others w" | "w' = w1" | rest running' where "run_loop E opts l subs rounds w1 = (running', rest, w')"
    using Cons.prems(2) r d by (auto split: if_splits bool.splits prod.splits)
  then show ?case
  proof cases
    case (3 rest running')
    have "(store_step E kv opts)\<^sup>*\<^sup>* w1 w'"
      by (rule Cons.IH [OF Cons.prems(1) 3]) simp
    with through show ?thesis by (rule rtranclp_trans)
  qed (use first through in simp_all)
qed simp

end
