(* ===== verification/Spec2Isabelle.thy ===== *)
theory Spec2Isabelle
  imports System_Properties Task_Lifecycle Worker_Properties Branches Search_Properties Format_Properties
    Job_Properties Listener_Properties Ledger_Properties Heartbeats Schedule_Properties Lifecycle
begin

text \<open>
  A model of resonate-sdk-taquba (\<open>src/src/\<close>): the server side of the Resonate protocol, a store of
  durable promises, tasks and schedules kept in the key-value namespace of one taquba queue, whose
  jobs deliver the tasks to workers and whose timers apply the deadlines.

  The parts and how they interact.  A network (\<open>network.rs\<close>) receives the text of a request,
  parses its envelope (\<open>envelope.rs\<close>), takes the lock of the store (\<open>store.rs\<close>) and runs one
  handler of the kernel (\<open>kernel.rs\<close>) over a transaction (\<open>txn.rs\<close>).  The transaction buffers the
  writes, enqueues and acknowledgements of the handler over the committed store, and commits them
  in one atomic write of the queue, or together with the acknowledgement of the claim of a task.
  The records (\<open>records.rs\<close>) are stored as JSON under the keys of \<open>keys.rs\<close>.  The timer worker
  fires promise deadlines and schedules (\<open>timers.rs\<close>, \<open>cron.rs\<close>), and the delivery loops of a
  network deliver jobs to its subscribers; both run their transaction under the same lock.

  What models what.
    \<^item> \<open>Prelude\<close>: 64-bit integers as \<open>64 word\<close> compared by \<open>sint\<close>, errors (\<open>error.rs\<close>), the monad
      of state and errors in which every operation of a transaction is written, and its
      weakest preconditions.  A panic is a value of the error type, so it can be shown absent.
    \<^item> \<open>Ordered_Map\<close> (\<open>BTreeMap\<close>, \<open>BTreeSet\<close>), \<open>Rust_Strings\<close> (strings as UTF-8 bytes, integer
      formats, \<open>str::replace\<close>), \<open>Json\<close> (serde values, decoders and the locale \<open>json_codec\<close>).
    \<^item> \<open>Records\<close>: \<open>records.rs\<close>, each struct a record and each enum a datatype, with its serde form.
    \<^item> \<open>Taquba\<close>: the queue and the other third-party code as the record \<open>env\<close> of functions, and
      \<open>queue_contract\<close>, what the proofs rely on of the queue.
    \<^item> \<open>Keys\<close>: \<open>keys.rs\<close>.  \<open>Envelope\<close>: \<open>envelope.rs\<close>.  \<open>Txn\<close>: \<open>txn.rs\<close>, one definition per method.
    \<^item> \<open>Requests\<close>: the request data, validation and paging of \<open>kernel.rs\<close>.  \<open>Kernel\<close>: its state
      machine (deadlines, settlement and wake-up, acquisition, creation, schedules, delivery).
      \<open>Handlers\<close>: its 21 handlers and \<open>handle\<close>, under the names of the code.
    \<^item> \<open>Store\<close>: \<open>store.rs\<close> and the timer worker.  \<open>Network\<close>: \<open>network.rs\<close>.  \<open>World\<close>: the steps of
      the running system in any order, with restarts and whatever the queue does in between.
      \<open>Lifecycle\<close>: opening and closing a store, and a delivery loop from its start to its end.

  The specifications and what the lemmas show.
    \<^item> \<open>Txn_View\<close>: what each operation does to the store as the transaction sees it, the locale
      \<open>record_store\<close> of a kind of record under its keys, interpreted for the three kinds.
    \<^item> \<open>Protocol\<close>: the invariant \<open>good\<close> of the records and the abstract protocol of promises and
      tasks, whose steps create, settle and move.  \<open>Kernel_Steps\<close>, \<open>Kernel_Specs\<close>: the state
      machine keeps the invariant, refines the protocol and has the stated effect on records.
    \<^item> \<open>Answers\<close>, \<open>Promise_Handlers\<close>, \<open>Task_Handlers\<close>, \<open>Settlement_Handlers\<close>,
      \<open>Creation_Handlers\<close>, \<open>Listings\<close>, \<open>Dispatch\<close>: the functional specification of every handler,
      on every branch: the reply and the committed records after it, and, when the queue fails,
      that either nothing or all of one such effect is committed.
    \<^item> \<open>World\<close>: the locales \<open>invariant_machine\<close> and \<open>refining_machine\<close>, interpreted on the system.
      \<open>Outcomes\<close>: the locale \<open>outcome_relation\<close>, a relation between the store before and after that
      holds of every operation when it holds of each kind of change; interpreted in \<open>Waiting\<close> (no
      operation loses a wake-up) and \<open>Versions\<close> (a version counts the acquisitions of its task).
      \<open>Reliability\<close>: an operation fails only with its queue, and not while the queue is \<open>healthy\<close>:
      it reports no errors now, nor after any further calls.  \<open>Leases\<close>: what a request does with a
      live lease, and that it does nothing without.
    \<^item> \<open>Obligations\<close>: the jobs a record is owed (a timer for the deadline of a pending promise that
      can be awaited, a job for a task that is not fulfilled, a timer for the next run of a
      schedule), the contract \<open>accepts\<close> of the jobs of a queue, and a calculus of operations that
      keep every record backed by its job.  \<open>Backing\<close>: every handler, timer and delivery does.
    \<^item> \<open>Ledger\<close>: the books of a queue, which jobs it has accepted and which an acknowledgement has
      ended, their contract \<open>keeps_books\<close>, and the invariant that no task that waits for a delivery
      or is acquired loses its job.  \<open>Accounts\<close>: a calculus of operations that keep it, whose
      judgements carry the facts about tasks that justify an acknowledgement, through the commit
      and the work that follows it.  \<open>Accounting\<close>: every handler, timer and delivery keeps it.
      \<open>Books\<close>: every run keeps it (\<open>audited\<close>), so a task that waits for a delivery has one coming
      (\<open>has_live_job\<close>).
    \<^item> \<open>System_Properties\<close>, \<open>Promise_Properties\<close>, \<open>Task_Properties\<close>, \<open>Task_Lifecycle\<close>,
      \<open>Worker_Properties\<close>, \<open>Job_Properties\<close>, \<open>Listener_Properties\<close>, \<open>Ledger_Properties\<close>, \<open>Heartbeats\<close>,
      \<open>Schedule_Properties\<close>, \<open>Search_Properties\<close>, \<open>Branches\<close>, \<open>Format_Properties\<close>: the properties, each evaluated on the
      store in memory of \<open>Memory_Queue\<close>, \<open>Memory_Books\<close> and \<open>Examples\<close>.

  Parameters.  The fields of \<open>env\<close> stand for taquba (the clock, the namespace's reads and ordered
  scans, job ids, leases, claims, the atomic commit, acknowledgements), the text of JSON and of
  its errors, the url and cron parsers and SHA-256.  \<open>queue_contract\<close> says that reads and scans
  show the committed namespace (a scan may fail midway), that a commit or an acknowledgement with
  effects applies its writes entirely or not at all, and that claims and leases do not touch the
  namespace; a failure may come at any point, also after the effects were applied.  \<open>accepts\<close> says
  the same of the jobs: they are accepted with the writes of their commit or not at all.
  \<open>keeps_books\<close> says what an acknowledgement ends: the job of its claim and no other; a claim is
  of an accepted request, an issued id is new, and a job that has ended has no record.
  The queue of \<open>Memory_Queue\<close> keeps the three contracts.

  Integers and bounds.  Times, versions and limits are 64-bit words and wrap or saturate where the
  code does: \<open>version += 1\<close> wraps, as in a release build, and deadlines saturate.  No operation
  needs fuel: loops are recursions over the lists they read, and \<open>walk\<close>, the client that follows
  cursors, is given as many rounds as items remain, which is shown to be enough.

  Not modelled: the spawning and the stopping of the tokio tasks that run the timer worker and the
  delivery loops (their steps are modelled, interleaved in any order), tracing, the reading of
  the process id and the clock for a generated worker id, and the text of JSON.  The lock is the
  sequence of the operations that take it.  The claims that a run holds are followed by the
  model, but what a lease is worth is the queue's: properties name the lease they assume.  That a
  queue delivers what it has accepted is taquba's too: the properties say what it has accepted,
  and what a delivery then does.  The message of an unblock job is passed on after the job has
  been acknowledged, so the properties do not say that a listener has received it.  A search
  applies no deadlines (\<open>search_lists_expired\<close>), so its property assumes that none has passed.
\<close>

end
